(* ===== verification/Prelude.thy ===== *)
theory Prelude
  imports Main "HOL-Library.Word"
begin

text \<open>
  Shared vocabulary of the development: the names of the machine types, the ways an operation of
  the library can fail, the C and C++ standard-library string functions the sources call, and the
  lemma collections the component theories extend.
\<close>

named_theorems str_simps \<open>evaluation of the string helpers\<close>
named_theorems wf_intros \<open>preservation of the well-formedness invariants\<close>

type_synonym u32 = "32 word"
type_synonym u64 = "64 word"

subsection \<open>Failures\<close>

text \<open>
  \<open>exn\<close> lists the C++ exceptions the sources throw or let through; all but \<open>Foreign\<close> derive from
  \<open>std::exception\<close>. A \<open>fault\<close> is any way a call does not return normally: an exception, a failed
  \<open>assert\<close>, a null dereference, or a wait that never ends.
\<close>

datatype exn =
    Logic_error string
  | Invalid_argument string
  | Bad_function_call
  | Bad_lexical_cast
  | Yaml_exception string
  | Foreign

datatype fault =
    Throw exn
  | Assert_fail string
  | Null_deref
  | Deadlock

type_synonym 'a outcome = "fault + 'a"

fun is_std_exception :: "fault \<Rightarrow> bool" where
  "is_std_exception (Throw Foreign) = False"
| "is_std_exception (Throw _) = True"
| "is_std_exception _ = False"

definition obind :: "'a outcome \<Rightarrow> ('a \<Rightarrow> 'b outcome) \<Rightarrow> 'b outcome" where
  "obind r k = (case r of Inl e \<Rightarrow> Inl e | Inr x \<Rightarrow> k x)"

lemma obind_simps [simp]: "obind (Inl e) k = Inl e" "obind (Inr x) k = k x"
  by (simp_all add: obind_def)

lemma obind_Inr_iff: "obind r k = Inr y \<longleftrightarrow> (\<exists>x. r = Inr x \<and> k x = Inr y)"
  by (cases r) auto

text \<open>A loop that calls a fallible function on each element and stops at the first failure.\<close>

fun omap :: "('a \<Rightarrow> 'b outcome) \<Rightarrow> 'a list \<Rightarrow> 'b list outcome" where
  "omap f [] = Inr []"
| "omap f (x # xs) = obind (f x) (\<lambda>y. obind (omap f xs) (\<lambda>ys. Inr (y # ys)))"

lemma omap_map_Inr: "(\<And>x. x \<in> set xs \<Longrightarrow> f x = Inr (g x)) \<Longrightarrow> omap f xs = Inr (map g xs)"
  by (induction xs) auto

lemma omap_map: "omap f (map g xs) = omap (\<lambda>x. f (g x)) xs"
  by (induction xs) simp_all

lemma omap_total: "(\<And>x. x \<in> set xs \<Longrightarrow> \<exists>y. f x = Inr y) \<Longrightarrow> \<exists>ys. omap f xs = Inr ys"
proof (induction xs)
  case (Cons x xs)
  then obtain y ys where "f x = Inr y" "omap f xs = Inr ys" by fastforce
  then show ?case by simp
qed simp

lemma omap_length: "omap f xs = Inr ys \<Longrightarrow> length ys = length xs"
  by (induction xs arbitrary: ys) (auto simp: obind_Inr_iff)

lemma nth_update_if: "xs[i := y] ! j = (if i = j \<and> i < length xs then y else xs ! j)"
  by (cases "i < length xs") (simp_all add: nth_list_update list_update_beyond not_less)

subsection \<open>Character classes and strings\<close>

text \<open>\<open>isalpha\<close>, \<open>tolower\<close> of the C locale.\<close>

definition is_upper :: "char \<Rightarrow> bool" where
  "is_upper c \<longleftrightarrow> c \<in> set ''ABCDEFGHIJKLMNOPQRSTUVWXYZ''"

definition is_lower :: "char \<Rightarrow> bool" where
  "is_lower c \<longleftrightarrow> c \<in> set ''abcdefghijklmnopqrstuvwxyz''"

definition is_alpha :: "char \<Rightarrow> bool" where
  "is_alpha c \<longleftrightarrow> is_upper c \<or> is_lower c"

definition lower_char :: "char \<Rightarrow> char" where
  "lower_char c = (if is_upper c then char_of (of_char c + (32 :: nat)) else c)"

definition to_lower :: "string \<Rightarrow> string" where
  "to_lower s = map lower_char s"

lemma lower_char_not_upper [simp]: "\<not> is_upper c \<Longrightarrow> lower_char c = c"
  by (simp add: lower_char_def)

lemma length_to_lower [simp]: "length (to_lower s) = length s"
  by (simp add: to_lower_def)

lemma to_lower_Nil [simp]: "to_lower s = [] \<longleftrightarrow> s = []"
  by (simp add: to_lower_def)

text \<open>\<open>std::string::find_first_not_of\<close>: the first position whose character is not in the set;
  \<open>None\<close> is \<open>npos\<close>.\<close>

fun find_first_not_of :: "string \<Rightarrow> string \<Rightarrow> nat option" where
  "find_first_not_of cs [] = None"
| "find_first_not_of cs (c # s) =
     (if c \<in> set cs then map_option Suc (find_first_not_of cs s) else Some 0)"

lemma find_first_not_of_None: "find_first_not_of cs s = None \<longleftrightarrow> set s \<subseteq> set cs"
  by (induction s) auto

text \<open>\<open>std::string::substr\<close> with a position inside the string.\<close>

definition substr :: "string \<Rightarrow> nat \<Rightarrow> nat \<Rightarrow> string" where
  "substr s pos len = take len (drop pos s)"

lemma substr_middle [str_simps]:
  "substr (a @ b @ c) (length a) (length b) = b"
  by (simp add: substr_def)

text \<open>Decimal output of an unsigned number, as \<open>operator<<\<close> and \<open>std::to_string\<close> print it.\<close>

definition digit_char :: "nat \<Rightarrow> char" where
  "digit_char d = ''0123456789'' ! d"

fun show_nat :: "nat \<Rightarrow> string" where
  "show_nat n = (if n < 10 then [digit_char n] else show_nat (n div 10) @ [digit_char (n mod 10)])"

declare show_nat.simps [simp del]

definition digit_val :: "char \<Rightarrow> nat" where
  "digit_val c = of_char c - 48"

definition read_nat :: "string \<Rightarrow> nat" where
  "read_nat s = foldl (\<lambda>a c. 10 * a + digit_val c) 0 s"

lemma digit_val_char: "d < 10 \<Longrightarrow> digit_val (digit_char d) = d"
proof -
  assume "d < 10"
  then have "d \<in> {0, 1, 2, 3, 4, 5, 6, 7, 8, 9}" by auto
  then show ?thesis by (auto simp: digit_val_def digit_char_def)
qed

lemma read_show_nat [simp]: "read_nat (show_nat n) = n"
proof (induction n rule: show_nat.induct)
  case (1 n)
  then show ?case
    by (cases "n < 10") (simp_all add: show_nat.simps [of n] read_nat_def digit_val_char)
qed

lemma show_nat_inject [simp]: "show_nat m = show_nat n \<longleftrightarrow> m = n"
  by (metis read_show_nat)

lemma show_nat_nonempty [simp]: "show_nat n \<noteq> []"
  by (subst show_nat.simps) simp

definition show_int :: "int \<Rightarrow> string" where
  "show_int i = (if i < 0 then ''-'' @ show_nat (nat (- i)) else show_nat (nat i))"

definition newline :: string where
  "newline = [CHR 0x0A]"

definition tab :: string where
  "tab = [CHR 0x09]"

end
