(* ===== verification/LogLevel.thy ===== *)
theory LogLevel
  imports Prelude
begin

text \<open>
  Log levels: the class \<open>LOG_LEVEL\<close> of \<open>primo/log/Logger.h\<close> and its two conversions of
  \<open>primo/log/Logger.cpp\<close>. The enumeration is ordered by its numbers, as the comparisons
  \<open>level >= mLevel\<close> of the loggers and appenders read it.
\<close>

datatype level = UNKNOW | DEBUG | INFO | WARN | ERROR | FATAL

fun level_num :: "level \<Rightarrow> nat" where
  "level_num UNKNOW = 0"
| "level_num DEBUG = 1"
| "level_num INFO = 2"
| "level_num WARN = 3"
| "level_num ERROR = 4"
| "level_num FATAL = 5"

lemma level_num_inject [simp]: "level_num a = level_num b \<longleftrightarrow> a = b"
  by (cases a; cases b) simp_all

instantiation level :: linorder
begin

definition less_eq_level :: "level \<Rightarrow> level \<Rightarrow> bool" where
  "less_eq_level a b \<longleftrightarrow> level_num a \<le> level_num b"

definition less_level :: "level \<Rightarrow> level \<Rightarrow> bool" where
  "less_level a b \<longleftrightarrow> level_num a < level_num b"

instance
  by standard (auto simp: less_eq_level_def less_level_def)

end

lemma UNKNOW_least [simp]: "UNKNOW \<le> l"
  by (simp add: less_eq_level_def)

fun level_to_string :: "level \<Rightarrow> string" where
  "level_to_string DEBUG = ''DEBUG''"
| "level_to_string INFO = ''INFO''"
| "level_to_string WARN = ''WARN''"
| "level_to_string ERROR = ''ERROR''"
| "level_to_string FATAL = ''FATAL''"
| "level_to_string UNKNOW = ''UNKNOW''"

definition level_from_string :: "string \<Rightarrow> level" where
  "level_from_string str =
     (if str = ''debug'' then DEBUG
      else if str = ''info'' then INFO
      else if str = ''warn'' then WARN
      else if str = ''error'' then ERROR
      else if str = ''fatal'' then FATAL
      else if str = ''DEBUG'' then DEBUG
      else if str = ''INFO'' then INFO
      else if str = ''WARN'' then WARN
      else if str = ''ERROR'' then ERROR
      else if str = ''FATAL'' then FATAL
      else UNKNOW)"

lemma level_from_string_UNKNOW:
  "level_from_string s = UNKNOW \<longleftrightarrow>
     s \<notin> {''debug'', ''info'', ''warn'', ''error'', ''fatal'',
          ''DEBUG'', ''INFO'', ''WARN'', ''ERROR'', ''FATAL''}"
  by (auto simp: level_from_string_def split: if_splits)

text \<open>Printing a level and reading it back gives the level, for every level (the text printed
  for \<open>UNKNOW\<close> is no level name, and reading it gives \<open>UNKNOW\<close> again); and reading a lower-case
  name gives the same level as reading the name the code prints.\<close>

theorem level_roundtrip:
  "level_from_string (level_to_string l) = l \<and>
   level_from_string (to_lower (level_to_string l)) = l"
  by (cases l) (simp_all only:, code_simp+)

end
