(* ===== verification/StdMap.thy ===== *)
theory StdMap
  imports Prelude "HOL-Library.Char_ord" "HOL-Library.List_Lexorder"
begin

text \<open>
  The ordered containers of the C++ library that the sources keep their state in: \<open>std::map\<close> and
  \<open>std::set\<close> with a key. A container is the list of its elements in iteration order, which is the
  order of their keys; \<open>key\<close> extracts the key (\<open>fst\<close> for a map, the name for a set of definitions
  ordered by name). Strings are compared by their bytes, as \<open>std::string\<close> does. The last section
  states what the clients rely on, as a locale, and interprets it.
\<close>

definition ksorted :: "('v \<Rightarrow> 'k :: linorder) \<Rightarrow> 'v list \<Rightarrow> bool" where
  "ksorted key xs \<longleftrightarrow> sorted_wrt (\<lambda>x y. key x < key y) xs"

definition kfind :: "('v \<Rightarrow> 'k :: linorder) \<Rightarrow> 'k \<Rightarrow> 'v list \<Rightarrow> 'v option" where
  "kfind key k xs = List.find (\<lambda>x. key x = k) xs"

text \<open>\<open>insert\<close>: an element whose key is present is not inserted.\<close>

fun kinsert :: "('v \<Rightarrow> 'k :: linorder) \<Rightarrow> 'v \<Rightarrow> 'v list \<Rightarrow> 'v list" where
  "kinsert key v [] = [v]"
| "kinsert key v (x # xs) =
     (if key v < key x then v # x # xs
      else if key v = key x then x # xs
      else x # kinsert key v xs)"

text \<open>\<open>m[k] = v\<close>: the element of that key is replaced, or inserted.\<close>

fun kput :: "('v \<Rightarrow> 'k :: linorder) \<Rightarrow> 'v \<Rightarrow> 'v list \<Rightarrow> 'v list" where
  "kput key v [] = [v]"
| "kput key v (x # xs) =
     (if key v < key x then v # x # xs
      else if key v = key x then v # xs
      else x # kput key v xs)"

definition kerase :: "('v \<Rightarrow> 'k :: linorder) \<Rightarrow> 'k \<Rightarrow> 'v list \<Rightarrow> 'v list" where
  "kerase key k xs = filter (\<lambda>x. key x \<noteq> k) xs"

subsection \<open>Order\<close>

lemma ksorted_simps [simp]:
  "ksorted key []"
  "ksorted key (x # xs) \<longleftrightarrow> (\<forall>y \<in> set xs. key x < key y) \<and> ksorted key xs"
  by (auto simp: ksorted_def)

lemma set_kinsert: "set (kinsert key v xs) \<subseteq> insert v (set xs)"
  by (induction xs) auto

lemma set_kinsert_superset: "set xs \<subseteq> set (kinsert key v xs)"
  by (induction xs) auto

lemma set_kput: "set (kput key v xs) \<subseteq> insert v (set xs)"
  by (induction xs) auto

lemma ksorted_kinsert [simp, intro]: "ksorted key xs \<Longrightarrow> ksorted key (kinsert key v xs)"
  by (induction xs) (use set_kinsert in \<open>fastforce\<close>)+

lemma ksorted_kput [simp, intro]: "ksorted key xs \<Longrightarrow> ksorted key (kput key v xs)"
  by (induction xs) (use set_kput in \<open>fastforce\<close>)+

lemma ksorted_kerase [simp, intro]: "ksorted key xs \<Longrightarrow> ksorted key (kerase key k xs)"
  by (induction xs) (auto simp: kerase_def)

lemma ksorted_distinct: "ksorted key xs \<Longrightarrow> distinct (map key xs)"
  by (induction xs) fastforce+

subsection \<open>Look-up\<close>

lemma kfind_simps [simp]:
  "kfind key k [] = None"
  "kfind key k (x # xs) = (if key x = k then Some x else kfind key k xs)"
  by (simp_all add: kfind_def)

lemma kfind_None_iff: "kfind key k xs = None \<longleftrightarrow> k \<notin> key ` set xs"
  by (induction xs) auto

lemma kfind_SomeD: "kfind key k xs = Some v \<Longrightarrow> v \<in> set xs \<and> key v = k"
  by (induction xs) (auto split: if_splits)

lemma kfind_member: "ksorted key xs \<Longrightarrow> v \<in> set xs \<Longrightarrow> kfind key (key v) xs = Some v"
  by (induction xs) fastforce+

lemma kfind_greater: "\<forall>y \<in> set xs. k < key y \<Longrightarrow> kfind key k xs = None"
  by (auto simp: kfind_None_iff)

lemma kfind_kinsert:
  "ksorted key xs \<Longrightarrow> kfind key k (kinsert key v xs) =
     (if k = key v \<and> kfind key k xs = None then Some v else kfind key k xs)"
proof (induction xs)
  case (Cons x xs)
  then have "key v < key x \<Longrightarrow> kfind key (key v) xs = None"
    by (intro kfind_greater) auto
  with Cons show ?case by auto
qed simp

lemma kfind_kput:
  "ksorted key xs \<Longrightarrow> kfind key k (kput key v xs) = (if k = key v then Some v else kfind key k xs)"
  by (induction xs) auto

lemma kfind_kerase: "kfind key k (kerase key j xs) = (if k = j then None else kfind key k xs)"
  by (induction xs) (auto simp: kerase_def)

lemma ksorted_ext:
  assumes "ksorted key xs" "ksorted key ys" "\<And>k. kfind key k xs = kfind key k ys"
  shows "xs = ys"
proof -
  have "set xs = set ys"
    using assms kfind_member kfind_SomeD by (metis subsetI subset_antisym)
  moreover have "map key zs = sorted_list_of_set (key ` set zs)" if "ksorted key zs" for zs
  proof -
    have "sorted_wrt (<) (map key zs)" using that by (simp add: ksorted_def sorted_wrt_map)
    then show ?thesis
      using sorted_list_of_set.idem_if_sorted_distinct [of "map key zs"]
      by (simp add: strict_sorted_iff)
  qed
  ultimately have "map key xs = map key ys" using assms(1,2) by metis
  moreover have "inj_on key (set xs \<union> set ys)"
    using \<open>set xs = set ys\<close> ksorted_distinct [OF assms(1)] by (simp add: distinct_map)
  ultimately show ?thesis by (rule map_inj_on)
qed

text \<open>Building a set by successive insertion keeps the first element of each key.\<close>

definition kset_of_list :: "('v \<Rightarrow> 'k :: linorder) \<Rightarrow> 'v list \<Rightarrow> 'v list" where
  "kset_of_list key vs = foldl (\<lambda>acc v. kinsert key v acc) [] vs"

lemma ksorted_foldl_kinsert:
  "ksorted key acc \<Longrightarrow> ksorted key (foldl (\<lambda>acc v. kinsert key v acc) acc vs)"
  by (induction vs arbitrary: acc) auto

lemma ksorted_kset_of_list [simp]: "ksorted key (kset_of_list key vs)"
  by (simp add: kset_of_list_def ksorted_foldl_kinsert)

lemma kfind_foldl_kinsert:
  "ksorted key acc \<Longrightarrow> kfind key k (foldl (\<lambda>acc v. kinsert key v acc) acc vs) =
     (case kfind key k acc of Some v \<Rightarrow> Some v | None \<Rightarrow> kfind key k vs)"
  by (induction vs arbitrary: acc) (auto simp: kfind_kinsert split: option.splits)

lemma kfind_kset_of_list: "kfind key k (kset_of_list key vs) = kfind key k vs"
  by (simp add: kset_of_list_def kfind_foldl_kinsert)

lemma set_kset_of_list: "set (kset_of_list key vs) \<subseteq> set vs"
proof
  fix v assume "v \<in> set (kset_of_list key vs)"
  then have "kfind key (key v) (kset_of_list key vs) = Some v"
    by (rule kfind_member [OF ksorted_kset_of_list])
  then show "v \<in> set vs" by (simp add: kfind_kset_of_list kfind_SomeD)
qed

lemma kset_of_sorted_list: "ksorted key vs \<Longrightarrow> kset_of_list key vs = vs"
  by (rule ksorted_ext [of key]) (simp_all add: kfind_kset_of_list)

subsection \<open>What a client of a map relies on\<close>

locale map_store =
  fixes find :: "'k \<Rightarrow> 'm \<Rightarrow> 'v option"
    and put :: "'k \<Rightarrow> 'v \<Rightarrow> 'm \<Rightarrow> 'm"
    and erase :: "'k \<Rightarrow> 'm \<Rightarrow> 'm"
    and inv :: "'m \<Rightarrow> bool"
  assumes find_put: "inv m \<Longrightarrow> find k (put j v m) = (if k = j then Some v else find k m)"
    and find_erase: "inv m \<Longrightarrow> find k (erase j m) = (if k = j then None else find k m)"
    and inv_put: "inv m \<Longrightarrow> inv (put k v m)"
    and inv_erase: "inv m \<Longrightarrow> inv (erase k m)"
    and extensional: "inv m \<Longrightarrow> inv m' \<Longrightarrow> (\<And>k. find k m = find k m') \<Longrightarrow> m = m'"
begin

lemma put_present: "inv m \<Longrightarrow> find k m = Some v \<Longrightarrow> put k v m = m"
  by (rule extensional) (auto simp: find_put inv_put)

lemma erase_absent: "inv m \<Longrightarrow> find k m = None \<Longrightarrow> erase k m = m"
  by (rule extensional) (auto simp: find_erase inv_erase)

lemma erase_put_fresh: "inv m \<Longrightarrow> find k m = None \<Longrightarrow> erase k (put k v m) = m"
  by (rule extensional) (auto simp: find_erase find_put inv_erase inv_put)

lemma put_commute: "inv m \<Longrightarrow> j \<noteq> k \<Longrightarrow> put j v (put k w m) = put k w (put j v m)"
  by (rule extensional) (auto simp: find_put inv_put)

end

text \<open>\<open>std::map\<close>: pairs ordered by their first component.\<close>

definition smap_find :: "'k :: linorder \<Rightarrow> ('k \<times> 'v) list \<Rightarrow> 'v option" where
  "smap_find k m = map_option snd (kfind fst k m)"

definition smap_put :: "'k :: linorder \<Rightarrow> 'v \<Rightarrow> ('k \<times> 'v) list \<Rightarrow> ('k \<times> 'v) list" where
  "smap_put k v m = kput fst (k, v) m"

definition smap_erase :: "'k :: linorder \<Rightarrow> ('k \<times> 'v) list \<Rightarrow> ('k \<times> 'v) list" where
  "smap_erase k m = kerase fst k m"

abbreviation smap_inv :: "('k :: linorder \<times> 'v) list \<Rightarrow> bool" where
  "smap_inv m \<equiv> ksorted fst m"

lemma smap_find_kfind: "smap_find k m = Some v \<longleftrightarrow> kfind fst k m = Some (k, v)"
  using kfind_SomeD [of fst k m] by (cases "kfind fst k m") (auto simp: smap_find_def)

interpretation smap: map_store smap_find smap_put smap_erase smap_inv
proof unfold_locales
  fix m m' :: "('a \<times> 'b) list"
  assume m: "smap_inv m" "smap_inv m'" and eq: "\<And>k. smap_find k m = smap_find k m'"
  have "kfind fst k m = kfind fst k m'" for k
  proof (cases "smap_find k m")
    case None
    with eq [of k] show ?thesis by (auto simp: smap_find_def)
  next
    case (Some v)
    with eq [of k] show ?thesis by (metis smap_find_kfind)
  qed
  then show "m = m'" by (rule ksorted_ext [OF m])
qed (auto simp: smap_find_def smap_put_def smap_erase_def kfind_kput kfind_kerase)

lemma smap_find_Nil [simp]: "smap_find k [] = None"
  by (simp add: smap_find_def)

lemma smap_find_SomeD: "smap_find k m = Some v \<Longrightarrow> (k, v) \<in> set m"
  by (auto simp: smap_find_kfind dest: kfind_SomeD)

end
