(* ===== verification/ConfigVar.thy ===== *)
theory ConfigVar
  imports LogLevel StdMap
begin

text \<open>
  Configuration variables: \<open>CfgVarBase\<close> and \<open>CfgVar<T>\<close> of \<open>primo/config.h\<close>. The value type is the
  parameter \<open>'a\<close>; \<open>'s\<close> is the state of the rest of the program, which listeners and log messages
  change. A listener returns the new state and the fault it ends with, if any; an empty
  \<open>std::function\<close> is \<open>None\<close>. The read and write locks of a variable are modelled in the theory
  \<open>Locks\<close>; here every call runs to its end.
\<close>

type_synonym ('a, 's) callback = "'a \<Rightarrow> 'a \<Rightarrow> 's \<Rightarrow> 's \<times> fault option"

record ('a, 's) cfg_var =
  cv_name :: string
  cv_desc :: string
  cv_val :: 'a
  cv_cbs :: "(u64 \<times> ('a, 's) callback option) list"

text \<open>What the configuration code needs from outside: the logging macros, as a function of the logger's
  name, the level and the text (logging always returns, see the theory \<open>LogRouting\<close>), whether the root
  logger lets a level through, without which the text of a message is not computed, and the text
  \<open>what()\<close> of an exception.\<close>

record 's cfg_env =
  ce_log :: "string \<Rightarrow> level \<Rightarrow> string \<Rightarrow> 's \<Rightarrow> 's"
  ce_lets_root :: "level \<Rightarrow> 's \<Rightarrow> bool"
  ce_what :: "fault \<Rightarrow> string"

definition new_CfgVar :: "string \<Rightarrow> 'a \<Rightarrow> string \<Rightarrow> ('a, 's) cfg_var" where
  "new_CfgVar name default_val desc =
     \<lparr>cv_name = to_lower name, cv_desc = desc, cv_val = default_val, cv_cbs = []\<rparr>"

subsection \<open>Operations\<close>

definition GetValue :: "('a, 's) cfg_var \<Rightarrow> 'a" where
  "GetValue v = cv_val v"

fun run_callbacks ::
  "(u64 \<times> ('a, 's) callback option) list \<Rightarrow> 'a \<Rightarrow> 'a \<Rightarrow> 's \<Rightarrow> 's \<times> fault option" where
  "run_callbacks [] old new s = (s, None)"
| "run_callbacks ((key, None) # cbs) old new s = (s, Some (Throw Bad_function_call))"
| "run_callbacks ((key, Some cb) # cbs) old new s =
     (case cb old new s of
        (s', Some e) \<Rightarrow> (s', Some e)
      | (s', None) \<Rightarrow> run_callbacks cbs old new s')"

text \<open>\<open>SetValue\<close>: the variable, the outer state, and the fault that left the call, if any.\<close>

definition SetValue ::
  "'a \<Rightarrow> ('a, 's) cfg_var \<Rightarrow> 's \<Rightarrow> ('a, 's) cfg_var \<times> 's \<times> fault option" where
  "SetValue val v s =
     (if cv_val v = val then (v, s, None)
      else (case run_callbacks (cv_cbs v) (cv_val v) val s of
              (s', Some e) \<Rightarrow> (v, s', Some e)
            | (s', None) \<Rightarrow> (v\<lparr>cv_val := val\<rparr>, s', None)))"

text \<open>\<open>FromString\<close> and \<open>ToString\<close>: the conversions \<open>FromStr\<close>, \<open>ToStr\<close> and the type's name are
  arguments; exceptions derived from \<open>std::exception\<close> are logged and swallowed.\<close>

definition from_string_error ::
  "'s cfg_env \<Rightarrow> string \<Rightarrow> string \<Rightarrow> ('a, 's) cfg_var \<Rightarrow> fault \<Rightarrow> 's \<Rightarrow> 's \<times> bool outcome" where
  "from_string_error env tname val v e s =
     (if is_std_exception e
      then (ce_log env ''root'' ERROR (''CfgVar::FromString exception '' @ ce_what env e
              @ '' convert: string to '' @ tname @ '' name='' @ cv_name v @ '' - '' @ val) s,
            Inr False)
      else (s, Inl e))"

definition FromString ::
  "'s cfg_env \<Rightarrow> string \<Rightarrow> (string \<Rightarrow> 'a outcome) \<Rightarrow> string \<Rightarrow> ('a, 's) cfg_var \<Rightarrow> 's
     \<Rightarrow> ('a, 's) cfg_var \<times> 's \<times> bool outcome" where
  "FromString env tname FromStr val v s =
     (case FromStr val of
        Inl e \<Rightarrow> (v, from_string_error env tname val v e s)
      | Inr x \<Rightarrow>
          (case SetValue x v s of
             (v', s', None) \<Rightarrow> (v', s', Inr False)
           | (v', s', Some e) \<Rightarrow> (v', from_string_error env tname val v' e s')))"

definition cfg_ToString ::
  "'s cfg_env \<Rightarrow> string \<Rightarrow> ('a \<Rightarrow> string outcome) \<Rightarrow> ('a, 's) cfg_var \<Rightarrow> 's \<Rightarrow> 's \<times> string outcome" where
  "cfg_ToString env tname ToStr v s =
     (case ToStr (cv_val v) of
        Inr t \<Rightarrow> (s, Inr t)
      | Inl e \<Rightarrow>
          if is_std_exception e
          then (ce_log env ''root'' ERROR (''CfgVar::ToString exception '' @ ce_what env e
                  @ '' convert: '' @ tname @ '' to string'' @ '' name='' @ cv_name v) s, Inr [])
          else (s, Inl e))"

text \<open>The listeners. The counter of listener ids is shared by all variables of one value type; the
  first component of the result is the id, the second the new counter.\<close>

definition AddListener ::
  "('a, 's) callback \<Rightarrow> u64 \<Rightarrow> ('a, 's) cfg_var \<Rightarrow> u64 \<times> u64 \<times> ('a, 's) cfg_var" where
  "AddListener cbfunc sFuncId v =
     (let sFuncId = sFuncId + 1
      in (sFuncId, sFuncId, v\<lparr>cv_cbs := smap_put sFuncId (Some cbfunc) (cv_cbs v)\<rparr>))"

definition DelListener :: "u64 \<Rightarrow> ('a, 's) cfg_var \<Rightarrow> ('a, 's) cfg_var" where
  "DelListener key v = v\<lparr>cv_cbs := smap_erase key (cv_cbs v)\<rparr>"

text \<open>\<open>return mCbs[key]\<close>: looking up an absent key inserts an empty function.\<close>

definition GetListener ::
  "u64 \<Rightarrow> ('a, 's) cfg_var \<Rightarrow> ('a, 's) callback option \<times> ('a, 's) cfg_var" where
  "GetListener key v =
     (case smap_find key (cv_cbs v) of
        Some cb \<Rightarrow> (cb, v)
      | None \<Rightarrow> (None, v\<lparr>cv_cbs := smap_put key None (cv_cbs v)\<rparr>))"

definition ClearListener :: "('a, 's) cfg_var \<Rightarrow> ('a, 's) cfg_var" where
  "ClearListener v = v\<lparr>cv_cbs := []\<rparr>"

subsection \<open>Notification\<close>

lemma run_callbacks_all:
  "\<forall>(key, cb) \<in> set cbs. \<exists>f. cb = Some (\<lambda>old new s. (f old new s, None)) \<Longrightarrow>
   run_callbacks cbs old new s = (fold (\<lambda>(key, cb) s. fst (the cb old new s)) cbs s, None)"
  by (induction cbs arbitrary: s) auto

lemma run_callbacks_append:
  "run_callbacks (cbs @ cbs') old new s =
     (case run_callbacks cbs old new s of
        (s', Some e) \<Rightarrow> (s', Some e) | (s', None) \<Rightarrow> run_callbacks cbs' old new s')"
  by (induction cbs old new s rule: run_callbacks.induct) (auto split: prod.splits option.splits)

lemma run_callbacks_empty_function:
  "(key, None) \<in> set cbs \<Longrightarrow> snd (run_callbacks cbs old new s) \<noteq> None"
  by (induction cbs old new s rule: run_callbacks.induct) (auto split: prod.splits option.splits)

lemma run_callbacks_fault:
  "run_callbacks cbs old new s = (s', Some e) \<Longrightarrow>
   \<exists>ran cb rest s0. cbs = ran @ cb # rest \<and> run_callbacks ran old new s = (s0, None) \<and>
     run_callbacks [cb] old new s0 = (s', Some e)"
proof (induction cbs arbitrary: s)
  case (Cons c cs)
  obtain s0 r0 where c: "run_callbacks [c] old new s = (s0, r0)" by fastforce
  note step = run_callbacks_append [of "[c]" _ old new s, simplified c]
  show ?case
  proof (cases r0)
    case None
    with Cons.prems step [of cs] have "run_callbacks cs old new s0 = (s', Some e)" by simp
    from Cons.IH [OF this] obtain ran cb rest s1 where *: "cs = ran @ cb # rest"
      "run_callbacks ran old new s0 = (s1, None)" "run_callbacks [cb] old new s1 = (s', Some e)"
      by blast
    then have "run_callbacks (c # ran) old new s = (s1, None)" using None step [of ran] by simp
    with * show ?thesis by (metis append_Cons)
  next
    case (Some e')
    with Cons.prems step [of cs] c have "run_callbacks [c] old new s = (s', Some e)" by simp
    then show ?thesis by (metis append_Nil run_callbacks.simps(1))
  qed
qed simp


subsection \<open>Listeners\<close>

text \<open>The ids of a variable's listeners were all drawn from the counter.\<close>

definition wf_listeners :: "u64 \<Rightarrow> ('a, 's) cfg_var \<Rightarrow> bool" where
  "wf_listeners sFuncId v \<longleftrightarrow> smap_inv (cv_cbs v) \<and> (\<forall>key \<in> fst ` set (cv_cbs v). key \<le> sFuncId)"

lemma wf_listeners_new [wf_intros]: "wf_listeners c (new_CfgVar name x desc)"
  by (simp add: wf_listeners_def new_CfgVar_def)

lemma AddListener_simps:
  "AddListener cb c v = (n, c', v') \<longleftrightarrow>
     n = c + 1 \<and> c' = c + 1 \<and> v' = v\<lparr>cv_cbs := smap_put (c + 1) (Some cb) (cv_cbs v)\<rparr>"
  by (auto simp: AddListener_def Let_def)

lemma fresh_listener:
  assumes "wf_listeners c v" "c \<noteq> - 1"
  shows "smap_find (c + 1) (cv_cbs v) = None"
proof -
  have "c < c + 1" using inc_less_eq_self_iff_eq [of c] assms(2) by (simp add: not_le [symmetric])
  then have "c + 1 \<notin> fst ` set (cv_cbs v)"
    using assms(1) by (auto simp: wf_listeners_def)
  then show ?thesis by (simp add: smap_find_def kfind_None_iff)
qed

lemma wf_AddListener [wf_intros]:
  assumes "wf_listeners c v" "c \<noteq> - 1" "AddListener cb c v = (n, c', v')"
  shows "wf_listeners c' v'"
proof -
  have "c < c + 1" using inc_less_eq_self_iff_eq [of c] assms(2) by (simp add: not_le [symmetric])
  then have "key \<le> c + 1" if "key \<le> c" for key using that by simp
  then show ?thesis
    using assms(1,3) set_kput [of fst "(c + 1, Some cb)" "cv_cbs v"]
    by (fastforce simp: AddListener_simps wf_listeners_def smap.inv_put smap_put_def)
qed

lemma wf_DelListener [wf_intros]: "wf_listeners c v \<Longrightarrow> wf_listeners c (DelListener key v)"
  using smap.inv_erase [of "cv_cbs v" key]
  by (auto simp: wf_listeners_def DelListener_def smap_erase_def kerase_def)

text \<open>Listeners. Below the limit of the 64-bit counter, adding a listener gives an id no other
  listener of the variable has, under which it can be looked up (which changes nothing) and which
  leaves the other listeners as they were; deleting it again restores the variable.\<close>

theorem listener_lifecycle:
  assumes wf: "wf_listeners c v" and c: "c \<noteq> - 1" and add: "AddListener cb c v = (n, c', v')"
  shows "smap_find n (cv_cbs v) = None \<and> GetListener n v' = (Some cb, v') \<and>
    (\<forall>key. key \<noteq> n \<longrightarrow> smap_find key (cv_cbs v') = smap_find key (cv_cbs v)) \<and>
    DelListener n v' = v \<and> wf_listeners c' v'"
proof -
  have inv: "smap_inv (cv_cbs v)" using wf by (simp add: wf_listeners_def)
  have fresh: "smap_find n (cv_cbs v) = None"
    using fresh_listener [OF wf c] add by (simp add: AddListener_simps)
  then show ?thesis
    using wf_AddListener [OF wf c add] add
    by (auto simp: AddListener_simps GetListener_def DelListener_def smap.find_put [OF inv]
        smap.erase_put_fresh [OF inv])
qed

theorem listener_lifecycle_witness:
  "wf_listeners 0 (new_CfgVar ''a'' (1 :: nat) [] :: (nat, nat) cfg_var) \<and>
   (let v = (new_CfgVar ''a'' 1 [] :: (nat, nat) cfg_var); cb = (\<lambda>old new s. (s + new, None))
    in DelListener 1 (v\<lparr>cv_cbs := [(1, Some cb)]\<rparr>) = v)"
proof -
  let ?v = "new_CfgVar ''a'' (1 :: nat) [] :: (nat, nat) cfg_var"
  let ?cb = "\<lambda>old new s. (s + new :: nat, None :: fault option)"
  have wf: "wf_listeners 0 ?v" by (rule wf_listeners_new)
  have add: "AddListener ?cb 0 ?v = (1, 1, ?v\<lparr>cv_cbs := [(1, Some ?cb)]\<rparr>)"
    by (simp add: AddListener_simps smap_put_def new_CfgVar_def)
  show ?thesis using wf listener_lifecycle [OF wf _ add] by (simp add: Let_def)
qed

text \<open>Looking up a listener that does not exist breaks the variable: it stores an empty function
  under that id, and from then on every attempt to set another value faults and leaves the
  variable as it is.\<close>

theorem get_unknown_listener_poisons:
  assumes wf: "smap_inv (cv_cbs v)" and key: "smap_find key (cv_cbs v) = None"
    and val: "val \<noteq> cv_val v"
  shows "(case GetListener key v of (cb, v') \<Rightarrow>
    cb = None \<and> v' \<noteq> v \<and> (case SetValue val v' s of (v'', s', r) \<Rightarrow> v'' = v' \<and> r \<noteq> None))"
proof -
  let ?v = "v\<lparr>cv_cbs := smap_put key None (cv_cbs v)\<rparr>"
  have find: "smap_find key (cv_cbs ?v) = Some None" using smap.find_put [OF wf] by simp
  then have "(key, None) \<in> set (cv_cbs ?v)" by (rule smap_find_SomeD)
  then have "snd (run_callbacks (cv_cbs ?v) (cv_val v) val s) \<noteq> None"
    by (rule run_callbacks_empty_function)
  moreover have "?v \<noteq> v" using find key by (metis option.distinct(1))
  ultimately show ?thesis
    using key val by (auto simp: GetListener_def SetValue_def split: prod.splits option.splits)
qed

theorem get_unknown_listener_poisons_witness:
  "(let v = snd (GetListener 7 (new_CfgVar ''a'' (1 :: nat) [] :: (nat, nat) cfg_var))
    in fst (SetValue 2 v (0 :: nat)) = v \<and> cv_val v = 1)"
  using get_unknown_listener_poisons
    [of "new_CfgVar ''a'' (1 :: nat) [] :: (nat, nat) cfg_var" 7 2 0]
  by (simp add: new_CfgVar_def GetListener_def SetValue_def smap_put_def)

text \<open>The result of \<open>FromString\<close> says nothing: whenever the text converts and no listener faults,
  the variable takes the converted value, but the call answers \<open>false\<close>, as it does when it fails.\<close>

theorem from_string_never_true:
  assumes "FromStr val = Inr x" and "\<forall>s. snd (run_callbacks (cv_cbs v) (cv_val v) x s) = None"
  shows "\<exists>s'. FromString env tname FromStr val v s = (v\<lparr>cv_val := x\<rparr>, s', Inr False)"
proof (cases "cv_val v = x")
  case True
  then show ?thesis using assms(1) by (auto simp: FromString_def SetValue_def)
next
  case False
  obtain s' where "run_callbacks (cv_cbs v) (cv_val v) x s = (s', None)"
    using assms(2) by (metis prod.collapse)
  with False show ?thesis using assms(1) by (simp add: FromString_def SetValue_def)
qed

theorem from_string_never_true_witness:
  "\<exists>s'. FromString \<lparr>ce_log = \<lambda>n l t s. s, ce_lets_root = \<lambda>l s. True, ce_what = \<lambda>e. []\<rparr> ''int'' (\<lambda>t. Inr (read_nat t)) ''42''
      (new_CfgVar ''port'' 1 [] :: (nat, nat) cfg_var) 0
    = ((new_CfgVar ''port'' 1 [])\<lparr>cv_val := 42\<rparr>, s', Inr False)"
  by (rule from_string_never_true) (simp_all add: read_nat_def digit_val_def new_CfgVar_def)

end
