(* ===== verification/Yaml.thy ===== *)
theory Yaml
  imports Prelude
begin

text \<open>
  The YAML documents the library reads and writes. The yaml-cpp library is not part of the
  repository: \<open>ynode\<close> is the data model it documents (an undefined or null node, a scalar, a
  sequence, a map), the accessors below are the ones the sources call on nodes, and everything
  that depends on how the library reads and prints text is a parameter, collected in
  \<open>yaml_lib\<close>. Theorems name what they need of these parameters as hypotheses.
\<close>

datatype ynode =
    YUndef
  | YNull
  | YScalar string
  | YSeq "ynode list"
  | YMap "(ynode \<times> ynode) list"

record yaml_lib =
  y_load :: "string \<Rightarrow> ynode outcome"                  \<comment> \<open>\<open>YAML::Load\<close>\<close>
  y_dump :: "ynode \<Rightarrow> string"                          \<comment> \<open>\<open>operator<<\<close>\<close>
  y_as_string :: "ynode \<Rightarrow> string outcome"             \<comment> \<open>\<open>as<std::string>()\<close>\<close>
  y_map_at :: "(ynode \<times> ynode) list \<Rightarrow> nat \<Rightarrow> ynode"   \<comment> \<open>a map indexed by a number\<close>

definition bad_subscript :: "'a outcome" where
  "bad_subscript = Inl (Throw (Yaml_exception ''operator[] call on a scalar''))"

definition is_defined :: "ynode \<Rightarrow> bool" where
  "is_defined n \<longleftrightarrow> n \<noteq> YUndef"

fun scalar_text :: "ynode \<Rightarrow> string" where
  "scalar_text (YScalar s) = s"
| "scalar_text _ = []"

fun node_size :: "ynode \<Rightarrow> nat" where
  "node_size (YSeq ns) = length ns"
| "node_size (YMap ps) = length ps"
| "node_size _ = 0"

text \<open>\<open>node[i]\<close> with a number and \<open>node[key]\<close> with a string; both give the undefined node when there
  is no such element.\<close>

fun node_at :: "yaml_lib \<Rightarrow> ynode \<Rightarrow> nat \<Rightarrow> ynode outcome" where
  "node_at lib (YSeq ns) i = Inr (if i < length ns then ns ! i else YUndef)"
| "node_at lib (YMap ps) i = Inr (y_map_at lib ps i)"
| "node_at lib (YScalar s) i = bad_subscript"
| "node_at lib _ i = Inr YUndef"

fun node_get :: "yaml_lib \<Rightarrow> ynode \<Rightarrow> string \<Rightarrow> ynode outcome" where
  "node_get lib (YMap ps) key =
     (case List.find (\<lambda>(k, v). y_as_string lib k = Inr key) ps of
        None \<Rightarrow> Inr YUndef | Some (k, v) \<Rightarrow> Inr v)"
| "node_get lib (YScalar s) key = bad_subscript"
| "node_get lib _ key = Inr YUndef"

text \<open>The nodes \<open>node[i]\<close> for every \<open>i < node.size()\<close>, as the loops over sequences visit them.\<close>

definition node_elements :: "yaml_lib \<Rightarrow> ynode \<Rightarrow> ynode list outcome" where
  "node_elements lib n = omap (node_at lib n) [0 ..< node_size n]"

lemma node_elements_YSeq [simp]: "node_elements lib (YSeq ns) = Inr ns"
proof -
  have "node_elements lib (YSeq ns) = Inr (map (\<lambda>i. ns ! i) [0 ..< length ns])"
    unfolding node_elements_def node_size.simps by (rule omap_map_Inr) simp
  then show ?thesis by (simp add: map_nth)
qed

text \<open>A map node with string keys, as successive assignments \<open>node["key"] = value\<close> build it, and the
  two facts about the library the round trips need: a node survives printing and reading, and a
  scalar converts to its text.\<close>

definition ymap :: "(string \<times> ynode) list \<Rightarrow> ynode" where
  "ymap kvs = YMap (map (\<lambda>(k, v). (YScalar k, v)) kvs)"

definition survives :: "yaml_lib \<Rightarrow> ynode \<Rightarrow> bool" where
  "survives lib n \<longleftrightarrow> y_load lib (y_dump lib n) = Inr n"

definition scalars_convert :: "yaml_lib \<Rightarrow> bool" where
  "scalars_convert lib \<longleftrightarrow> (\<forall>s. y_as_string lib (YScalar s) = Inr s)"

lemma node_get_ymap:
  "scalars_convert lib \<Longrightarrow>
   node_get lib (ymap kvs) key = Inr (case map_of kvs key of None \<Rightarrow> YUndef | Some v \<Rightarrow> v)"
  by (induction kvs) (auto simp: ymap_def scalars_convert_def split: option.splits)

end
