(* ===== verification/Registry.thy ===== *)
theory Registry
  imports Prelude
begin

text \<open>
  The contract shared by the two registries of the library, \<open>LoggerMgr::GetLogger\<close> and
  \<open>Config::LookUp\<close> with a default value: looking a key up creates the object at the first request and
  returns the same object ever after. \<open>avail\<close> says which keys can be asked for (a configuration
  name can be malformed or taken by a variable of another type; a logger name never is).
\<close>

locale get_or_create =
  fixes lookup :: "'s \<Rightarrow> 'k \<Rightarrow> 'r option"
    and get :: "'k \<Rightarrow> 's \<Rightarrow> 'r \<times> 's"
    and avail :: "'s \<Rightarrow> 'k \<Rightarrow> bool"
    and inv :: "'s \<Rightarrow> bool"
  assumes get_hit: "inv s \<Longrightarrow> avail s k \<Longrightarrow> lookup s k = Some r \<Longrightarrow>
      fst (get k s) = r \<and> lookup (snd (get k s)) = lookup s"
    and get_miss: "inv s \<Longrightarrow> avail s k \<Longrightarrow> lookup s k = None \<Longrightarrow>
      lookup (snd (get k s)) = (lookup s)(k \<mapsto> fst (get k s))"
    and inv_get: "inv s \<Longrightarrow> avail s k \<Longrightarrow> inv (snd (get k s))"
    and avail_get: "inv s \<Longrightarrow> avail s k \<Longrightarrow> avail s j \<Longrightarrow> avail (snd (get k s)) j"
begin

definition get_all :: "'k list \<Rightarrow> 's \<Rightarrow> 's" where
  "get_all ks s = fold (\<lambda>k s. snd (get k s)) ks s"

lemma lookup_get: "inv s \<Longrightarrow> avail s k \<Longrightarrow> lookup (snd (get k s)) k = Some (fst (get k s))"
  by (cases "lookup s k") (auto dest: get_hit get_miss)

lemma lookup_get_keeps:
  "inv s \<Longrightarrow> avail s k \<Longrightarrow> lookup s j = Some r \<Longrightarrow> lookup (snd (get k s)) j = Some r"
  by (cases "lookup s k"; cases "j = k") (auto dest: get_hit get_miss)

lemma get_all_keeps:
  "inv s \<Longrightarrow> \<forall>k \<in> set ks. avail s k \<Longrightarrow> lookup s j = Some r \<Longrightarrow> avail s j \<Longrightarrow>
   inv (get_all ks s) \<and> avail (get_all ks s) j \<and> lookup (get_all ks s) j = Some r"
proof (induction ks arbitrary: s)
  case Nil
  then show ?case by (simp add: get_all_def)
next
  case (Cons k ks)
  then have "inv (snd (get k s))" "\<forall>k' \<in> set ks. avail (snd (get k s)) k'"
    "lookup (snd (get k s)) j = Some r" "avail (snd (get k s)) j"
    by (auto intro: inv_get avail_get lookup_get_keeps)
  then show ?case using Cons.IH [of "snd (get k s)"] by (simp add: get_all_def)
qed

lemma get_stable:
  assumes "inv s" "avail s j" "\<forall>k \<in> set ks. avail s k"
  shows "fst (get j (get_all ks (snd (get j s)))) = fst (get j s)"
proof -
  let ?s = "snd (get j s)"
  have "inv ?s" "\<forall>k \<in> set ks. avail ?s k" "avail ?s j" "lookup ?s j = Some (fst (get j s))"
    using assms by (auto intro: inv_get avail_get lookup_get)
  then have "inv (get_all ks ?s)" "avail (get_all ks ?s) j"
    "lookup (get_all ks ?s) j = Some (fst (get j s))"
    using get_all_keeps [of ?s ks j] by auto
  then show ?thesis using get_hit by blast
qed

end

end
