(* ===== verification/Config.thy ===== *)
theory Config
  imports ConfigVar Yaml Registry
begin

text \<open>
  The configuration registry: the class \<open>Config\<close> of \<open>primo/config.h\<close> and \<open>primo/config.cpp\<close>. Variables of
  all types live in one store; their values are in one type \<open>'u\<close>, and \<open>bv_type\<close> is the type name that
  \<open>dynamic_pointer_cast\<close> and \<open>GetTypeName\<close> see. The two conversions are the variable's virtual
  methods. The hash table from names to variables is a map; the order in which \<open>Visit\<close> goes through
  it is an argument.
\<close>

record ('u, 's) base_var =
  bv_type :: string
  bv_from :: "string \<Rightarrow> 'u outcome"
  bv_to :: "'u \<Rightarrow> string outcome"
  bv_var :: "('u, 's) cfg_var"

record ('u, 's) config =
  cf_datas :: "string \<rightharpoonup> nat"
  cf_vars :: "('u, 's) base_var list"

definition empty_config :: "('u, 's) config" where
  "empty_config = \<lparr>cf_datas = Map.empty, cf_vars = []\<rparr>"

definition valid_chars :: string where
  "valid_chars = ''abcdefghijklmnopqrstuvwxyz_.0123456789''"

definition valid_name :: "string \<Rightarrow> bool" where
  "valid_name name \<longleftrightarrow> find_first_not_of valid_chars name = None"

text \<open>The type of a variable: its name and its conversions (\<open>LexicalCast\<close> both ways).\<close>

record 'u vtype =
  vt_name :: string
  vt_from :: "string \<Rightarrow> 'u outcome"
  vt_to :: "'u \<Rightarrow> string outcome"

definition GetTypeName :: "('u, 's) base_var \<Rightarrow> string" where
  [simp]: "GetTypeName b = bv_type b"

definition base_ToString ::
  "'s cfg_env \<Rightarrow> ('u, 's) base_var \<Rightarrow> 's \<Rightarrow> 's \<times> string outcome" where
  "base_ToString env b s = cfg_ToString env (bv_type b) (bv_to b) (bv_var b) s"

definition base_FromString ::
  "'s cfg_env \<Rightarrow> string \<Rightarrow> ('u, 's) base_var \<Rightarrow> 's \<Rightarrow> ('u, 's) base_var \<times> 's \<times> bool outcome" where
  "base_FromString env val b s =
     (case FromString env (bv_type b) (bv_from b) val (bv_var b) s of
        (v, s', r) \<Rightarrow> (b\<lparr>bv_var := v\<rparr>, s', r))"

subsection \<open>Look-up\<close>

text \<open>\<open>LookUp(name, default, desc)\<close>: \<open>lookup_found\<close> is what follows the search in the table, with its
  result \<open>itr\<close>. The results are the pointer (\<open>None\<close> is null) or the exception, the registry and
  the outer state, which log messages change. For a variable of another type the message describes the
  variable, through its \<open>ToString\<close>; the part of the message that is logged when this throws
  something that is no \<open>std::exception\<close> is left out.\<close>

definition lookup_found ::
  "'s cfg_env \<Rightarrow> 'u vtype \<Rightarrow> string \<Rightarrow> 'u \<Rightarrow> string \<Rightarrow> nat option \<Rightarrow> ('u, 's) config \<Rightarrow> 's
     \<Rightarrow> nat option outcome \<times> ('u, 's) config \<times> 's" where
  "lookup_found env T name default_value desc itr cfg s =
     (case itr of
        Some i \<Rightarrow>
          (let b = cf_vars cfg ! i in
           if bv_type b = vt_name T
           then (Inr (Some i), cfg,
                 ce_log env ''root'' INFO (''Lookup name='' @ name @ '' exists'') s)
           else if ce_lets_root env ERROR s
           then (case base_ToString env b s of
                   (s', Inr t) \<Rightarrow>
                     (Inr None, cfg,
                      ce_log env ''root'' ERROR (''Lookup name='' @ name @ '' exists but type not ''
                        @ vt_name T @ '' real_type='' @ GetTypeName b @ '' '' @ t) s')
                 | (s', Inl e) \<Rightarrow> (Inl e, cfg, s'))
           else (Inr None, cfg, s))
      | None \<Rightarrow>
          if \<not> valid_name name
          then (Inl (Throw (Invalid_argument name)), cfg,
                ce_log env ''root'' ERROR ''Lookup name invalid'' s)
          else (let i = length (cf_vars cfg);
                    b = \<lparr>bv_type = vt_name T, bv_from = vt_from T, bv_to = vt_to T,
                         bv_var = new_CfgVar name default_value desc\<rparr>
                in (Inr (Some i),
                    cfg\<lparr>cf_datas := (cf_datas cfg)(name \<mapsto> i), cf_vars := cf_vars cfg @ [b]\<rparr>, s)))"

definition LookUp_default ::
  "'s cfg_env \<Rightarrow> 'u vtype \<Rightarrow> string \<Rightarrow> 'u \<Rightarrow> string \<Rightarrow> ('u, 's) config \<Rightarrow> 's
     \<Rightarrow> nat option outcome \<times> ('u, 's) config \<times> 's" where
  "LookUp_default env T name default_value desc cfg s =
     lookup_found env T name default_value desc (cf_datas cfg name) cfg s"

definition LookUp :: "'u vtype \<Rightarrow> string \<Rightarrow> ('u, 's) config \<Rightarrow> nat option" where
  "LookUp T name cfg =
     (case cf_datas cfg name of
        None \<Rightarrow> None
      | Some i \<Rightarrow> if bv_type (cf_vars cfg ! i) = vt_name T then Some i else None)"

definition LookUpBase :: "string \<Rightarrow> ('u, 's) config \<Rightarrow> nat option" where
  "LookUpBase name cfg = cf_datas cfg name"

text \<open>\<open>Visit\<close>: the callback sees each variable once, in the order of \<open>names\<close>, the iteration order of
  the hash table.\<close>

definition Visit ::
  "string list \<Rightarrow> (('u, 's) base_var \<Rightarrow> 's \<Rightarrow> 's) \<Rightarrow> ('u, 's) config \<Rightarrow> 's \<Rightarrow> 's" where
  "Visit names cb cfg s =
     fold (\<lambda>name s. case cf_datas cfg name of None \<Rightarrow> s | Some i \<Rightarrow> cb (cf_vars cfg ! i) s) names s"

subsection \<open>Loading a document\<close>

text \<open>\<open>ListAllMember\<close>: the node itself and, for a map, its members, under dotted names; a node whose
  name has a character outside the allowed ones is reported and dropped with everything below
  it.\<close>

fun ListAllMember ::
  "'s cfg_env \<Rightarrow> yaml_lib \<Rightarrow> string \<Rightarrow> ynode \<Rightarrow> 's \<Rightarrow> (string \<times> ynode) list \<times> 's"
and ListMembers ::
  "'s cfg_env \<Rightarrow> yaml_lib \<Rightarrow> string \<Rightarrow> (ynode \<times> ynode) list \<Rightarrow> 's \<Rightarrow> (string \<times> ynode) list \<times> 's"
where
  "ListAllMember env lib prefix node s =
     (if find_first_not_of valid_chars prefix \<noteq> None
      then ([], ce_log env ''system'' ERROR
             (''Config invalid name, prefix: '' @ prefix @ '' node: '' @ y_dump lib node) s)
      else (case node of
              YMap ps \<Rightarrow>
                (case ListMembers env lib prefix ps s of (out, s') \<Rightarrow> ((prefix, node) # out, s'))
            | _ \<Rightarrow> ([(prefix, node)], s)))"
| "ListMembers env lib prefix [] s = ([], s)"
| "ListMembers env lib prefix ((k, n) # ps) s =
     (case ListAllMember env lib
             (if prefix = [] then scalar_text k else prefix @ ''.'' @ scalar_text k) n s of
        (out, s') \<Rightarrow>
          (case ListMembers env lib prefix ps s' of (out', s'') \<Rightarrow> (out @ out', s'')))"

definition node_text :: "yaml_lib \<Rightarrow> ynode \<Rightarrow> string" where
  "node_text lib n = (case n of YScalar t \<Rightarrow> t | _ \<Rightarrow> y_dump lib n)"

text \<open>One iteration of \<open>LoadFromYaml\<close>, and the loop; a fault that is not a \<open>std::exception\<close> ends it.\<close>

definition load_node ::
  "'s cfg_env \<Rightarrow> yaml_lib \<Rightarrow> string \<times> ynode \<Rightarrow> ('u, 's) config \<times> 's
     \<Rightarrow> ('u, 's) config \<times> 's \<times> fault option" where
  "load_node env lib i cs =
     (case i of (key, node) \<Rightarrow> case cs of (cfg, s) \<Rightarrow>
        if key = [] then (cfg, s, None)
        else (case LookUpBase (to_lower key) cfg of
                None \<Rightarrow> (cfg, s, None)
              | Some j \<Rightarrow>
                  (case base_FromString env (node_text lib node) (cf_vars cfg ! j) s of
                     (b, s', r) \<Rightarrow>
                       (cfg\<lparr>cf_vars := (cf_vars cfg)[j := b]\<rparr>, s',
                        case r of Inl e \<Rightarrow> Some e | Inr x \<Rightarrow> None))))"

fun load_nodes ::
  "'s cfg_env \<Rightarrow> yaml_lib \<Rightarrow> (string \<times> ynode) list \<Rightarrow> ('u, 's) config \<times> 's
     \<Rightarrow> ('u, 's) config \<times> 's \<times> fault option" where
  "load_nodes env lib [] (cfg, s) = (cfg, s, None)"
| "load_nodes env lib (i # is) (cfg, s) =
     (case load_node env lib i (cfg, s) of
        (cfg', s', Some e) \<Rightarrow> (cfg', s', Some e)
      | (cfg', s', None) \<Rightarrow> load_nodes env lib is (cfg', s'))"

definition LoadFromYaml ::
  "'s cfg_env \<Rightarrow> yaml_lib \<Rightarrow> ynode \<Rightarrow> ('u, 's) config \<times> 's \<Rightarrow> ('u, 's) config \<times> 's \<times> fault option" where
  "LoadFromYaml env lib root cs =
     (case cs of (cfg, s) \<Rightarrow>
        (case ListAllMember env lib [] root s of (AllNodes, s') \<Rightarrow>
           load_nodes env lib AllNodes (cfg, s')))"

subsection \<open>The invariant of the registry\<close>

text \<open>Every registered name is well formed and is the name of the variable it is mapped to, which
  exists and is registered under no other name.\<close>

definition wf_config :: "('u, 's) config \<Rightarrow> bool" where
  "wf_config cfg \<longleftrightarrow>
     (\<forall>name i. cf_datas cfg name = Some i \<longrightarrow>
        valid_name name \<and> i < length (cf_vars cfg) \<and> cv_name (bv_var (cf_vars cfg ! i)) = name)"

lemma wf_configD:
  "wf_config cfg \<Longrightarrow> cf_datas cfg name = Some i \<Longrightarrow>
   valid_name name \<and> i < length (cf_vars cfg) \<and> cv_name (bv_var (cf_vars cfg ! i)) = name"
  by (simp add: wf_config_def)

lemma wf_config_inj:
  "wf_config cfg \<Longrightarrow> cf_datas cfg a = Some i \<Longrightarrow> cf_datas cfg b = Some i \<Longrightarrow> a = b"
  by (metis wf_configD)

lemma wf_empty_config [wf_intros]: "wf_config empty_config"
  by (simp add: wf_config_def empty_config_def)

lemma valid_name_chars: "valid_name name \<longleftrightarrow> set name \<subseteq> set valid_chars"
  by (simp add: valid_name_def find_first_not_of_None)

lemma valid_chars_not_upper: "c \<in> set valid_chars \<Longrightarrow> \<not> is_upper c"
  by (auto simp: valid_chars_def is_upper_def)

lemma valid_name_lower [simp]: "valid_name name \<Longrightarrow> to_lower name = name"
  using valid_chars_not_upper by (auto simp: valid_name_chars to_lower_def intro!: map_idI)

lemma LookUp_default_hit:
  "cf_datas cfg name = Some i \<Longrightarrow> bv_type (cf_vars cfg ! i) = vt_name T \<Longrightarrow>
   LookUp_default env T name d desc cfg s =
     (Inr (Some i), cfg, ce_log env ''root'' INFO (''Lookup name='' @ name @ '' exists'') s)"
  by (simp add: LookUp_default_def lookup_found_def)

lemma LookUp_default_new:
  "cf_datas cfg name = None \<Longrightarrow> valid_name name \<Longrightarrow>
   LookUp_default env T name d desc cfg s =
     (Inr (Some (length (cf_vars cfg))),
      cfg\<lparr>cf_datas := (cf_datas cfg)(name \<mapsto> length (cf_vars cfg)),
          cf_vars := cf_vars cfg @ [\<lparr>bv_type = vt_name T, bv_from = vt_from T, bv_to = vt_to T,
                                     bv_var = new_CfgVar name d desc\<rparr>]\<rparr>, s)"
  by (simp add: LookUp_default_def lookup_found_def Let_def)

lemma LookUp_default_invalid:
  "cf_datas cfg name = None \<Longrightarrow> \<not> valid_name name \<Longrightarrow>
   LookUp_default env T name d desc cfg s =
     (Inl (Throw (Invalid_argument name)), cfg, ce_log env ''root'' ERROR ''Lookup name invalid'' s)"
  by (simp add: LookUp_default_def lookup_found_def)

lemma LookUp_default_mismatch:
  assumes "cf_datas cfg name = Some i" "bv_type (cf_vars cfg ! i) \<noteq> vt_name T"
    and "LookUp_default env T name d desc cfg s = (r, cfg', s')"
  shows "cfg' = cfg \<and> (r = Inr None \<or> (\<exists>e. r = Inl e \<and> \<not> is_std_exception e))"
  using assms
  by (auto simp: LookUp_default_def lookup_found_def Let_def base_ToString_def cfg_ToString_def
      split: sum.splits if_splits)

lemmas LookUp_default_cases =
  LookUp_default_hit LookUp_default_new LookUp_default_invalid

lemma wf_LookUp_new:
  assumes "wf_config cfg" "valid_name name" "cf_datas cfg name = None"
  shows "wf_config (cfg\<lparr>cf_datas := (cf_datas cfg)(name \<mapsto> length (cf_vars cfg)),
    cf_vars := cf_vars cfg @ [\<lparr>bv_type = t, bv_from = f, bv_to = g, bv_var = new_CfgVar name d desc\<rparr>]\<rparr>)"
  using assms by (auto simp: wf_config_def nth_append new_CfgVar_def intro: less_SucI)

lemma wf_LookUp_default [wf_intros]:
  assumes "wf_config cfg" "LookUp_default env T name d desc cfg s = (r, cfg', s')"
  shows "wf_config cfg'"
proof (cases "cf_datas cfg name")
  case None
  then show ?thesis
    using assms wf_LookUp_new [OF assms(1) _ None]
    by (cases "valid_name name") (auto simp: LookUp_default_cases)
next
  case (Some i)
  then show ?thesis
    using assms LookUp_default_mismatch [OF Some _ assms(2)]
    by (cases "bv_type (cf_vars cfg ! i) = vt_name T") (auto simp: LookUp_default_cases)
qed

subsection \<open>The registry hands out one variable per name\<close>

text \<open>A name can be asked for at a type when it is well formed and not taken at another type.\<close>

definition available :: "'u vtype \<Rightarrow> ('u, 's) config \<Rightarrow> string \<Rightarrow> bool" where
  "available T cfg name \<longleftrightarrow> valid_name name \<and>
     (case cf_datas cfg name of None \<Rightarrow> True | Some i \<Rightarrow> bv_type (cf_vars cfg ! i) = vt_name T)"

definition ptr :: "nat \<Rightarrow> nat option outcome" where
  "ptr i = Inr (Some i)"

definition get_var ::
  "'s cfg_env \<Rightarrow> 'u vtype \<Rightarrow> 'u \<Rightarrow> string \<Rightarrow> string \<Rightarrow> ('u, 's) config \<times> 's
     \<Rightarrow> nat option outcome \<times> ('u, 's) config \<times> 's" where
  "get_var env T d desc name cs = LookUp_default env T name d desc (fst cs) (snd cs)"

interpretation vars: get_or_create
  "\<lambda>cs name. map_option ptr (LookUp T name (fst cs))" "get_var env T d desc"
  "\<lambda>cs. available T (fst cs)" "\<lambda>cs. wf_config (fst cs)"
  for env :: "'s cfg_env" and T :: "'u vtype" and d desc
proof unfold_locales
  fix cs :: "('u, 's) config \<times> 's" and name r
  assume wf: "wf_config (fst cs)" and av: "available T (fst cs) name"
    and r: "map_option ptr (LookUp T name (fst cs)) = Some r"
  then obtain i where i: "cf_datas (fst cs) name = Some i" "r = Inr (Some i)"
    "bv_type (cf_vars (fst cs) ! i) = vt_name T"
    by (auto simp: LookUp_def ptr_def split: option.splits if_splits)
  then show "fst (get_var env T d desc name cs) = r \<and>
      (\<lambda>n. map_option ptr (LookUp T n (fst (snd (get_var env T d desc name cs)))))
      = (\<lambda>n. map_option ptr (LookUp T n (fst cs)))"
    by (simp add: get_var_def LookUp_default_hit)
next
  fix cs :: "('u, 's) config \<times> 's" and name
  assume wf: "wf_config (fst cs)" and av: "available T (fst cs) name"
    and none: "map_option ptr (LookUp T name (fst cs)) = None"
  then have n: "cf_datas (fst cs) name = None" "valid_name name"
    by (auto simp: LookUp_def available_def split: option.splits if_splits)
  have old: "i < length (cf_vars (fst cs))" if "cf_datas (fst cs) m = Some i" for m i
    using wf_configD [OF wf that] by simp
  show "(\<lambda>n. map_option ptr (LookUp T n (fst (snd (get_var env T d desc name cs)))))
      = (\<lambda>n. map_option ptr (LookUp T n (fst cs)))
          (name \<mapsto> fst (get_var env T d desc name cs))"
    using old by (auto simp: get_var_def LookUp_default_new [OF n] LookUp_def ptr_def fun_eq_iff nth_append
        split: option.splits)
next
  fix cs :: "('u, 's) config \<times> 's" and name
  assume "wf_config (fst cs)" "available T (fst cs) name"
  then show "wf_config (fst (snd (get_var env T d desc name cs)))"
    by (cases "get_var env T d desc name cs") (auto simp: get_var_def intro: wf_LookUp_default)
next
  fix cs :: "('u, 's) config \<times> 's" and name m
  assume wf: "wf_config (fst cs)" and av: "available T (fst cs) name" "available T (fst cs) m"
  show "available T (fst (snd (get_var env T d desc name cs))) m"
  proof (cases "cf_datas (fst cs) name")
    case None
    then have n: "valid_name name" using av(1) by (simp add: available_def)
    show ?thesis
      using av(2) wf_configD [OF wf, of m]
      by (auto simp: get_var_def LookUp_default_new [OF None n] available_def nth_append
          split: option.splits)
  next
    case (Some i)
    then have "bv_type (cf_vars (fst cs) ! i) = vt_name T" using av(1) by (simp add: available_def)
    then show ?thesis using av(2) by (simp add: get_var_def LookUp_default_hit [OF Some])
  qed
qed

text \<open>C26: asking for a variable. A well-formed name not taken at another type always gives a variable
  of the type; asking again, whatever variables of that type were asked for in between, gives the
  same one; a name taken at another type gives the null pointer (or lets a foreign exception of the
  variable's \<open>ToString\<close> through) and a malformed name throws \<open>invalid_argument\<close>, both leaving the
  registry as it was.\<close>

theorem lookup_one_variable_per_name:
  assumes wf: "wf_config (fst cs)"
  shows "(available T (fst cs) a \<and> list_all (available T (fst cs)) names \<longrightarrow>
      (\<exists>i. fst (get_var env T d desc a cs) = Inr (Some i) \<and>
        fst (get_var env T d desc a
          (fold (\<lambda>n cs. snd (get_var env T d desc n cs)) names (snd (get_var env T d desc a cs))))
          = Inr (Some i))) \<and>
    (\<not> available T (fst cs) a \<longrightarrow>
      fst (snd (get_var env T d desc a cs)) = fst cs \<and>
      (if cf_datas (fst cs) a = None
       then fst (get_var env T d desc a cs) = Inl (Throw (Invalid_argument a))
       else (\<nexists>i. fst (get_var env T d desc a cs) = Inr (Some i))))"
proof (intro conjI impI)
  assume av: "available T (fst cs) a \<and> list_all (available T (fst cs)) names"
  then obtain i where "fst (get_var env T d desc a cs) = Inr (Some i)"
    by (cases "cf_datas (fst cs) a")
      (auto simp: available_def get_var_def LookUp_default_hit LookUp_default_new)
  then show "\<exists>i. fst (get_var env T d desc a cs) = Inr (Some i) \<and>
        fst (get_var env T d desc a
          (fold (\<lambda>n cs. snd (get_var env T d desc n cs)) names (snd (get_var env T d desc a cs))))
          = Inr (Some i)"
    using vars.get_stable [OF wf, of T a names env d desc] av
    by (auto simp: vars.get_all_def list_all_iff)
next
  assume na: "\<not> available T (fst cs) a"
  obtain r cfg' s' where g: "get_var env T d desc a cs = (r, cfg', s')"
    by (cases "get_var env T d desc a cs") auto
  show "fst (snd (get_var env T d desc a cs)) = fst cs"
    and "if cf_datas (fst cs) a = None
      then fst (get_var env T d desc a cs) = Inl (Throw (Invalid_argument a))
      else (\<nexists>i. fst (get_var env T d desc a cs) = Inr (Some i))"
    using na g wf_configD [OF wf, of a] LookUp_default_mismatch [of "fst cs" a _ T env d desc "snd cs" r cfg' s']
    by (auto simp: available_def get_var_def LookUp_default_invalid split: option.splits)
qed

theorem lookup_one_variable_per_name_witness:
  "wf_config (empty_config :: (nat, nat) config) \<and>
   fst (get_var \<lparr>ce_log = \<lambda>n l t s. s, ce_lets_root = \<lambda>l s. True, ce_what = \<lambda>e. []\<rparr>
      \<lparr>vt_name = ''int'', vt_from = \<lambda>s. Inr (read_nat s), vt_to = \<lambda>n. Inr (show_nat n)\<rparr> 5 []
      ''Port'' (empty_config, 0 :: nat)) = Inl (Throw (Invalid_argument ''Port''))"
proof -
  let ?T = "\<lparr>vt_name = ''int'', vt_from = \<lambda>s. Inr (read_nat s), vt_to = \<lambda>n. Inr (show_nat n)\<rparr>"
  have wf: "wf_config (fst (empty_config :: (nat, nat) config, 0 :: nat))"
    by (simp add: wf_empty_config)
  have na: "\<not> available ?T (fst (empty_config :: (nat, nat) config, 0 :: nat)) ''Port''"
    by (simp add: available_def valid_name_chars valid_chars_def)
  show ?thesis
    using wf na lookup_one_variable_per_name [OF wf, of ?T "''Port''" "[]"]
    by (simp add: empty_config_def)
qed

end
