(* ===== verification/ConfigLoad.thy ===== *)
theory ConfigLoad
  imports Config
begin

text \<open>
  What loading a YAML document does to the registry: which names \<open>ListAllMember\<close> finds
  (characterised by the relation \<open>doc_member\<close>), that loading keeps the registry well-formed and
  touches only variables the document names, and which value such a variable ends with.
\<close>

subsection \<open>The names in a document\<close>

definition child_name :: "string \<Rightarrow> ynode \<Rightarrow> string" where
  "child_name prefix k = (if prefix = [] then scalar_text k else prefix @ ''.'' @ scalar_text k)"

inductive doc_member :: "string \<Rightarrow> ynode \<Rightarrow> string \<Rightarrow> ynode \<Rightarrow> bool" where
  self: "valid_name p \<Longrightarrow> doc_member p n p n"
| child: "valid_name p \<Longrightarrow> (k, c) \<in> set ps \<Longrightarrow> doc_member (child_name p k) c q m \<Longrightarrow>
    doc_member p (YMap ps) q m"

inductive_cases doc_member_mapE: "doc_member p (YMap ps) q m"

inductive_simps doc_member_leaf:
  "doc_member p (YScalar t) q m" "doc_member p (YSeq ns) q m" "doc_member p YNull q m"
  "doc_member p YUndef q m"

lemma doc_member_map:
  "doc_member p (YMap ps) q m \<longleftrightarrow> valid_name p \<and>
     (q = p \<and> m = YMap ps \<or> (\<exists>(k, c) \<in> set ps. doc_member (child_name p k) c q m))"
  by (auto intro: doc_member.intros elim!: doc_member_mapE)

lemma doc_member_valid: "doc_member p n q m \<Longrightarrow> valid_name q"
  by (induction rule: doc_member.induct) simp_all

lemma doc_member_prefix: "\<not> valid_name p \<Longrightarrow> \<not> doc_member p n q m"
  by (auto elim: doc_member.cases)

lemma members_iff:
  "(q, m) \<in> set (fst (ListAllMember env lib p n s)) \<longleftrightarrow> doc_member p n q m"
  "(q, m) \<in> set (fst (ListMembers env lib p ps s)) \<longleftrightarrow>
     (\<exists>(k, c) \<in> set ps. doc_member (child_name p k) c q m)"
proof (induction env lib p n s and env lib p ps s arbitrary: q m and q m
    rule: ListAllMember_ListMembers.induct)
  case (1 env lib p n s)
  show ?case
  proof (cases "valid_name p")
    case False
    then show ?thesis by (simp add: doc_member_prefix valid_name_def)
  next
    case True
    then have v: "find_first_not_of valid_chars p = None" by (simp add: valid_name_def)
    show ?thesis
    proof (cases n)
      case (YMap ps)
      obtain out s' where o: "ListMembers env lib p ps s = (out, s')" by fastforce
      have "(q, m) \<in> set out \<longleftrightarrow> (\<exists>(k, c) \<in> set ps. doc_member (child_name p k) c q m)"
        using 1 [of ps q m] v YMap o by simp
      with True v o YMap show ?thesis by (auto simp: doc_member_map)
    qed (use True v in \<open>auto simp: doc_member_leaf\<close>)
  qed
next
  case (2 env lib p s)
  then show ?case by simp
next
  case (3 env lib p k n ps s)
  obtain out s' where o: "ListAllMember env lib (child_name p k) n s = (out, s')" by fastforce
  obtain out' s'' where o': "ListMembers env lib p ps s' = (out', s'')" by fastforce
  show ?case
    using 3(1) [of q m] 3(2) [OF o [unfolded child_name_def, symmetric], of q m] o o'
    by (auto simp: child_name_def [symmetric])
qed

text \<open>The names in a document. Loading considers exactly the nodes reachable from the root by map
  entries, each under the keys on the way joined by dots, provided every name on the way has only
  lower-case letters, digits, underscores and dots; so the lower-casing that \<open>LoadFromYaml\<close> applies
  to a name never changes it, and an entry whose key has an upper-case letter is not found under any
  spelling.\<close>

theorem document_members:
  "set (fst (ListAllMember env lib p n s)) = {(q, m). doc_member p n q m} \<and>
   map (\<lambda>(q, m). to_lower q) (fst (ListAllMember env lib p n s))
     = map fst (fst (ListAllMember env lib p n s))"
proof
  show mem: "set (fst (ListAllMember env lib p n s)) = {(q, m). doc_member p n q m}"
    using members_iff(1) [of _ _ env lib p n s] by blast
  then show "map (\<lambda>(q, m). to_lower q) (fst (ListAllMember env lib p n s))
      = map fst (fst (ListAllMember env lib p n s))"
    by (intro map_cong) (auto dest: doc_member_valid)
qed

subsection \<open>Loading keeps the registry well-formed\<close>

lemma FromString_var:
  "FromString env t f val v s = (v', s', r) \<Longrightarrow> v' = v\<lparr>cv_val := cv_val v'\<rparr>"
  by (auto simp: FromString_def SetValue_def split: sum.splits if_splits prod.splits option.splits)

lemma base_FromString_frame:
  assumes "base_FromString env val b s = (b', s', r)"
  shows "bv_type b' = bv_type b" "bv_from b' = bv_from b" "bv_to b' = bv_to b"
    "cv_name (bv_var b') = cv_name (bv_var b)" "cv_cbs (bv_var b') = cv_cbs (bv_var b)"
proof -
  obtain v where v: "FromString env (bv_type b) (bv_from b) val (bv_var b) s = (v, s', r)"
    "b' = b\<lparr>bv_var := v\<rparr>"
    using assms by (auto simp: base_FromString_def split: prod.splits)
  have "v = (bv_var b)\<lparr>cv_val := cv_val v\<rparr>" using v(1) by (rule FromString_var)
  then have "cv_name v = cv_name (bv_var b)" "cv_cbs v = cv_cbs (bv_var b)"
    by (metis cfg_var.select_convs(1) cfg_var.surjective cfg_var.update_convs(3),
        metis cfg_var.select_convs(4) cfg_var.surjective cfg_var.update_convs(3))
  with v(2) show "bv_type b' = bv_type b" "bv_from b' = bv_from b" "bv_to b' = bv_to b"
    "cv_name (bv_var b') = cv_name (bv_var b)" "cv_cbs (bv_var b') = cv_cbs (bv_var b)"
    by simp_all
qed

text \<open>The ways one iteration can go: the registry is unchanged, or the variable registered under the
  lower-cased name was given the node's text.\<close>

lemma load_node_cases:
  assumes "load_node env lib (key, node) (cfg, s) = (cfg', s', r)"
  obtains (skip) "cfg' = cfg" "r = None" "key = [] \<or> cf_datas cfg (to_lower key) = None"
  | (set) j b r' where "key \<noteq> []" "cf_datas cfg (to_lower key) = Some j"
      "base_FromString env (node_text lib node) (cf_vars cfg ! j) s = (b, s', r')"
      "cfg' = cfg\<lparr>cf_vars := (cf_vars cfg)[j := b]\<rparr>" "r = (case r' of Inl e \<Rightarrow> Some e | Inr x \<Rightarrow> None)"
  using assms by (auto simp: load_node_def LookUpBase_def split: if_splits option.splits prod.splits)

lemma wf_load_node:
  assumes "wf_config cfg" "load_node env lib i (cfg, s) = (cfg', s', r)"
  shows "wf_config cfg' \<and> cf_datas cfg' = cf_datas cfg"
proof (cases i)
  case (Pair key node)
  show ?thesis
    using assms(2) [unfolded Pair]
  proof (cases rule: load_node_cases)
    case skip
    with assms(1) show ?thesis by simp
  next
    case (set j b r')
    have "wf_config cfg'"
      unfolding wf_config_def
    proof (intro allI impI)
      fix name m
      assume "cf_datas cfg' name = Some m"
      then have "cf_datas cfg name = Some m" by (simp add: set(4))
      from wf_configD [OF assms(1) this] base_FromString_frame(4) [OF set(3)]
      show "valid_name name \<and> m < length (cf_vars cfg') \<and> cv_name (bv_var (cf_vars cfg' ! m)) = name"
        by (cases "m = j") (auto simp: set(4))
    qed
    then show ?thesis by (simp add: set(4))
  qed
qed

lemma wf_load_nodes [wf_intros]:
  "wf_config cfg \<Longrightarrow> load_nodes env lib is (cfg, s) = (cfg', s', r) \<Longrightarrow>
   wf_config cfg' \<and> cf_datas cfg' = cf_datas cfg"
proof (induction "is" arbitrary: cfg s)
  case (Cons i "is")
  obtain cfg1 s1 r1 where l: "load_node env lib i (cfg, s) = (cfg1, s1, r1)"
    by (cases "load_node env lib i (cfg, s)") auto
  with wf_load_node [OF Cons.prems(1) l] Cons show ?case by (cases r1) auto
qed simp

subsection \<open>Which variables change, and to what\<close>

lemma load_node_other:
  assumes "wf_config cfg" "load_node env lib (key, node) (cfg, s) = (cfg', s', r)"
    and "cf_datas cfg k = Some j" "to_lower key \<noteq> k \<or> k = []"
  shows "cf_vars cfg' ! j = cf_vars cfg ! j"
  using assms(2)
proof (cases rule: load_node_cases)
  case (set i b r')
  then have "to_lower key \<noteq> k" using assms(4) by auto
  then have "i \<noteq> j" using set(2) wf_config_inj [OF assms(1) _ assms(3)] by auto
  then show ?thesis by (simp add: set(4))
qed simp

text \<open>A text given to a variable without listeners: the value becomes what the text converts to, or
  stays when it does not convert.\<close>

definition take_text :: "('u, 's) base_var \<Rightarrow> string \<Rightarrow> ('u, 's) base_var" where
  "take_text b t =
     (case bv_from b t of Inl e \<Rightarrow> b | Inr x \<Rightarrow> b\<lparr>bv_var := (bv_var b)\<lparr>cv_val := x\<rparr>\<rparr>)"

lemma base_FromString_silent:
  "cv_cbs (bv_var b) = [] \<Longrightarrow> base_FromString env t b s = (b', s', r) \<Longrightarrow> b' = take_text b t"
  by (cases "bv_from b t")
    (auto simp: base_FromString_def FromString_def SetValue_def take_text_def split: if_splits)

lemma take_text_frame [simp]:
  "cv_cbs (bv_var (take_text b t)) = cv_cbs (bv_var b)" "bv_from (take_text b t) = bv_from b"
  by (simp_all add: take_text_def split: sum.splits)

lemma load_nodes_var:
  "wf_config cfg \<Longrightarrow> cf_datas cfg k = Some j \<Longrightarrow> k \<noteq> [] \<Longrightarrow> cv_cbs (bv_var (cf_vars cfg ! j)) = [] \<Longrightarrow>
   load_nodes env lib is (cfg, s) = (cfg', s', None) \<Longrightarrow>
   cf_vars cfg' ! j = foldl take_text (cf_vars cfg ! j)
     (map (\<lambda>(q, n). node_text lib n) (filter (\<lambda>(q, n). to_lower q = k) is))"
proof (induction "is" arbitrary: cfg s)
  case (Cons i "is")
  obtain key node where i: "i = (key, node)" by fastforce
  obtain cfg1 s1 r1 where l: "load_node env lib i (cfg, s) = (cfg1, s1, r1)"
    by (cases "load_node env lib i (cfg, s)") auto
  with Cons.prems(5) have r1: "r1 = None" and rest: "load_nodes env lib is (cfg1, s1) = (cfg', s', None)"
    by (auto split: option.splits)
  note wf = wf_load_node [OF Cons.prems(1) l]
  have j: "j < length (cf_vars cfg)" using wf_configD [OF Cons.prems(1,2)] by simp
  have var: "cf_vars cfg1 ! j = (if to_lower key = k
      then take_text (cf_vars cfg ! j) (node_text lib node) else cf_vars cfg ! j)"
  proof (cases "to_lower key = k")
    case True
    show ?thesis
      using l [unfolded i]
    proof (cases rule: load_node_cases)
      case skip
      with True Cons.prems(2,3) show ?thesis by auto
    next
      case (set m b r')
      then have "m = j" using True Cons.prems(2) by simp
      with set True j base_FromString_silent [OF Cons.prems(4), of env "node_text lib node" s b s1 r']
      show ?thesis by simp
    qed
  next
    case False
    with load_node_other [OF Cons.prems(1) l [unfolded i] Cons.prems(2)] show ?thesis by simp
  qed
  have "cv_cbs (bv_var (cf_vars cfg1 ! j)) = []" using Cons.prems(4) by (simp add: var)
  then show ?case
    using Cons.IH [OF _ _ Cons.prems(3) _ rest] wf Cons.prems(2) by (simp add: var i)
qed simp

lemma load_nodes_untouched:
  "wf_config cfg \<Longrightarrow> cf_datas cfg k = Some j \<Longrightarrow> \<forall>(q, n) \<in> set is. to_lower q \<noteq> k \<Longrightarrow>
   load_nodes env lib is (cfg, s) = (cfg', s', r) \<Longrightarrow> cf_vars cfg' ! j = cf_vars cfg ! j"
proof (induction "is" arbitrary: cfg s)
  case (Cons i "is")
  obtain key node where i: "i = (key, node)" by fastforce
  obtain cfg1 s1 r1 where l: "load_node env lib i (cfg, s) = (cfg1, s1, r1)"
    by (cases "load_node env lib i (cfg, s)") auto
  have "cf_vars cfg1 ! j = cf_vars cfg ! j"
    using load_node_other [OF Cons.prems(1) l [unfolded i] Cons.prems(2)] Cons.prems(3) i by auto
  moreover have "r1 = None \<Longrightarrow> cf_vars cfg' ! j = cf_vars cfg1 ! j"
    using Cons.IH [of cfg1 s1] wf_load_node [OF Cons.prems(1) l] Cons.prems l by auto
  ultimately show ?case using Cons.prems(4) l by (cases r1) auto
qed simp

text \<open>A registry with one variable and a document that names it, for the witnesses.\<close>

definition sample_env :: "nat cfg_env" where
  "sample_env = \<lparr>ce_log = \<lambda>n l t s. s, ce_lets_root = \<lambda>l s. True, ce_what = \<lambda>e. []\<rparr>"

definition sample_type :: "nat vtype" where
  "sample_type = \<lparr>vt_name = ''int'', vt_from = \<lambda>s. Inr (read_nat s), vt_to = \<lambda>n. Inr (show_nat n)\<rparr>"

definition sample_config :: "(nat, nat) config" where
  "sample_config = fst (snd (LookUp_default sample_env sample_type ''net.port'' 1 [] empty_config 0))"

definition sample_doc :: ynode where
  "sample_doc = YMap [(YScalar ''net'', YMap [(YScalar ''port'', YScalar ''80'')]),
                      (YScalar ''Net'', YScalar ''7'')]"

lemma sample_config_eq:
  "sample_config = \<lparr>cf_datas = [''net.port'' \<mapsto> 0],
     cf_vars = [\<lparr>bv_type = ''int'', bv_from = \<lambda>s. Inr (read_nat s), bv_to = \<lambda>n. Inr (show_nat n),
                 bv_var = \<lparr>cv_name = ''net.port'', cv_desc = [], cv_val = 1, cv_cbs = []\<rparr>\<rparr>]\<rparr>"
proof -
  have v: "valid_name ''net.port''" by code_simp
  then have "to_lower ''net.port'' = ''net.port''" by (rule valid_name_lower)
  then show ?thesis
    using v by (simp add: sample_config_def empty_config_def LookUp_default_new sample_type_def
        new_CfgVar_def)
qed

lemma wf_sample_config: "wf_config sample_config"
proof -
  have "valid_name ''net.port''" by code_simp
  then show ?thesis by (simp add: wf_config_def sample_config_eq)
qed

lemma sample_names:
  "ListAllMember env lib [] sample_doc s =
     ([([], sample_doc), (''net'', YMap [(YScalar ''port'', YScalar ''80'')]),
       (''net.port'', YScalar ''80'')],
      ce_log env ''system'' ERROR (''Config invalid name, prefix: Net node: '' @ y_dump lib (YScalar ''7'')) s)"
proof -
  have v: "find_first_not_of valid_chars ''net'' = None" "find_first_not_of valid_chars ''net.port'' = None"
    "find_first_not_of valid_chars ''Net'' \<noteq> None" by code_simp+
  then show ?thesis by (simp add: sample_doc_def)
qed





end
