(* ===== verification/Threads.thy ===== *)
theory Threads
  imports LogLevel
begin

text \<open>
  Threads: the classes \<open>Semaphore\<close> and \<open>Thread\<close> of \<open>primo/thread.h\<close> and \<open>primo/thread.cpp\<close>. A thread
  object lives in a store and is named by its index; what the operating system keeps for a thread
  (its id, its name) and the two thread-local variables are separate records. The start of a thread
  is a step relation between the constructor, which waits on the object's semaphore, and the new
  thread, which notifies it. What the code logs is part of the results: the name of the logger, the level
  and the text of each message.
\<close>

type_synonym message = "string \<times> level \<times> string"

subsection \<open>Semaphores\<close>

text \<open>\<open>sem_post\<close> fails at the largest value a semaphore can hold; \<open>sem_wait\<close> blocks at zero, which is
  \<open>None\<close> here. The functions of the class throw when the library call fails; that they are declared
  to return an \<open>int\<close> and return none is not used by any caller.\<close>

definition SEM_VALUE_MAX :: nat where
  "SEM_VALUE_MAX = 2147483647"

definition new_Semaphore :: "u32 \<Rightarrow> nat option \<times> message list" where
  "new_Semaphore count =
     (if unat count \<le> SEM_VALUE_MAX then (Some (unat count), [])
      else (None, [(''system'', ERROR, '' sem_init faild'')]))"

definition notify :: "nat \<Rightarrow> nat outcome" where
  "notify sem = (if sem < SEM_VALUE_MAX then Inr (Suc sem) else Inl (Throw (Logic_error ''sem_post error'')))"

definition wait :: "nat \<Rightarrow> nat option" where
  "wait sem = (if sem > 0 then Some (sem - 1) else None)"

subsection \<open>Thread objects\<close>

text \<open>\<open>'cb\<close> is the type of callbacks; an empty \<open>std::function\<close> is \<open>None\<close>. \<open>mThread\<close> is \<open>None\<close> when it is
  zero.\<close>

record 'cb thread_object =
  mId :: int
  mThread :: "nat option"
  mCb :: "'cb option"
  mName :: string
  mSemaphore :: nat

record thread_locals =
  t_thread :: "nat option"
  t_thread_name :: string

definition initial_thread_locals :: thread_locals where
  "initial_thread_locals = \<lparr>t_thread = None, t_thread_name = ''UNKNOW''\<rparr>"

definition Thread_GetThis :: "thread_locals \<Rightarrow> nat option" where
  "Thread_GetThis tv = t_thread tv"

definition Thread_SetName ::
  "string \<Rightarrow> thread_locals \<Rightarrow> 'cb thread_object list \<Rightarrow> thread_locals \<times> 'cb thread_object list" where
  "Thread_SetName name tv ths =
     (tv\<lparr>t_thread_name := name\<rparr>,
      (case t_thread tv of None \<Rightarrow> ths | Some t \<Rightarrow> ths[t := (ths ! t)\<lparr>mName := name\<rparr>]))"

definition GetStaticThreadName :: "thread_locals \<Rightarrow> 'cb thread_object list \<Rightarrow> string outcome" where
  "GetStaticThreadName tv ths =
     (case t_thread tv of None \<Rightarrow> Inl Null_deref | Some t \<Rightarrow> Inr (mName (ths ! t)))"

text \<open>The constructor up to \<open>pthread_create\<close>, whose result code is \<open>ret\<close>; on success the new thread's
  handle is \<open>h\<close>.\<close>

definition Thread_create ::
  "int \<Rightarrow> nat \<Rightarrow> 'cb option \<Rightarrow> string \<Rightarrow> 'cb thread_object outcome \<times> message list" where
  "Thread_create ret h cb name =
     (let obj = \<lparr>mId = -1, mThread = None, mCb = cb,
                 mName = (if name = [] then ''UNKNOW'' else name), mSemaphore = 0\<rparr>
      in if ret \<noteq> 0
         then (Inl (Throw (Logic_error ''pthread_create error'')),
               [(''system'', ERROR, '' pthread_create fail, iRet = '' @ show_int ret @ '' name = '' @ mName obj)])
         else (Inr (obj\<lparr>mThread := Some h\<rparr>), []))"

text \<open>The calls on a handle that give it back to the system.\<close>

datatype release = Joined nat | Detached nat

definition Thread_join ::
  "int \<Rightarrow> 'cb thread_object \<Rightarrow> 'cb thread_object \<times> release list \<times> message list \<times> unit outcome" where
  "Thread_join ret obj =
     (case mThread obj of
        None \<Rightarrow> (obj, [], [], Inr ())
      | Some h \<Rightarrow>
          if ret \<noteq> 0
          then (obj, [],
                [(''system'', ERROR, ''pthread_join thread fail, iRet = '' @ show_int ret @ '' name = '' @ mName obj)],
                Inl (Throw (Logic_error ''pthread_join error'')))
          else (obj\<lparr>mThread := None\<rparr>, [Joined h], [], Inr ()))"

definition Thread_destroy :: "'cb thread_object \<Rightarrow> release list" where
  "Thread_destroy obj = (case mThread obj of None \<Rightarrow> [] | Some h \<Rightarrow> [Detached h])"

text \<open>The callback of a thread: what it lets out of \<open>Thread::run\<close>. Exceptions derived from
  \<open>std::exception\<close> are logged with the text \<open>what()\<close> they have, any other leaves the thread's start
  function.\<close>

definition run_guarded ::
  "(fault \<Rightarrow> string) \<Rightarrow> ('s \<Rightarrow> 's \<times> fault option) \<Rightarrow> 's \<Rightarrow> 's \<times> message list \<times> unit outcome" where
  "run_guarded what cb s =
     (case cb s of
        (s', None) \<Rightarrow> (s', [], Inr ())
      | (s', Some e) \<Rightarrow>
          if is_std_exception e
          then (s', [(''root'', ERROR, ''run function failed, e.what: '' @ what e @ newline)], Inr ())
          else (s', [], Inl e))"

subsection \<open>Starting a thread\<close>

text \<open>The statements of \<open>Thread::run\<close>, one by one, and of the constructor after \<open>pthread_create\<close>.\<close>

datatype run_pc = Run_set_this | Run_set_id | Run_set_os_name | Run_swap | Run_notify | Run_body | Run_done

datatype ctor_pc = Ctor_wait | Ctor_returned

record 'cb start_state =
  ss_obj :: "'cb thread_object"
  ss_run :: run_pc
  ss_ctor :: ctor_pc
  ss_locals :: thread_locals
  ss_os_name :: string
  ss_cb :: "'cb option"
  ss_ran :: bool

definition start_thread :: "'cb thread_object \<Rightarrow> 'cb start_state" where
  "start_thread obj =
     \<lparr>ss_obj = obj, ss_run = Run_set_this, ss_ctor = Ctor_wait, ss_locals = initial_thread_locals,
      ss_os_name = [], ss_cb = None, ss_ran = False\<rparr>"

text \<open>One step; \<open>self\<close> is the index of the object and \<open>tid\<close> the id the system gives the new thread.\<close>

inductive start_step :: "nat \<Rightarrow> int \<Rightarrow> 'cb start_state \<Rightarrow> 'cb start_state \<Rightarrow> bool" for self tid where
  set_this: "ss_run st = Run_set_this \<Longrightarrow>
    start_step self tid st (st\<lparr>ss_run := Run_set_id, ss_locals := (ss_locals st)\<lparr>t_thread := Some self\<rparr>\<rparr>)"
| set_id: "ss_run st = Run_set_id \<Longrightarrow>
    start_step self tid st (st\<lparr>ss_run := Run_set_os_name, ss_obj := (ss_obj st)\<lparr>mId := tid\<rparr>\<rparr>)"
| set_os_name: "ss_run st = Run_set_os_name \<Longrightarrow>
    start_step self tid st (st\<lparr>ss_run := Run_swap, ss_os_name := substr (mName (ss_obj st)) 0 15\<rparr>)"
| swap: "ss_run st = Run_swap \<Longrightarrow>
    start_step self tid st (st\<lparr>ss_run := Run_notify, ss_cb := mCb (ss_obj st), ss_obj := (ss_obj st)\<lparr>mCb := None\<rparr>\<rparr>)"
| do_notify: "ss_run st = Run_notify \<Longrightarrow> notify (mSemaphore (ss_obj st)) = Inr n \<Longrightarrow>
    start_step self tid st (st\<lparr>ss_run := Run_body, ss_obj := (ss_obj st)\<lparr>mSemaphore := n\<rparr>\<rparr>)"
| body: "ss_run st = Run_body \<Longrightarrow> start_step self tid st (st\<lparr>ss_run := Run_done, ss_ran := True\<rparr>)"
| ctor_wakes: "ss_ctor st = Ctor_wait \<Longrightarrow> wait (mSemaphore (ss_obj st)) = Some n \<Longrightarrow>
    start_step self tid st (st\<lparr>ss_ctor := Ctor_returned, ss_obj := (ss_obj st)\<lparr>mSemaphore := n\<rparr>\<rparr>)"

inductive_cases start_stepE: "start_step self tid st st'"

inductive starting :: "nat \<Rightarrow> int \<Rightarrow> 'cb thread_object \<Rightarrow> 'cb start_state \<Rightarrow> bool" for self tid obj where
  begin_start: "starting self tid obj (start_thread obj)"
| start_more: "starting self tid obj st \<Longrightarrow> start_step self tid st st' \<Longrightarrow> starting self tid obj st'"

subsection \<open>Invariants\<close>

text \<open>What holds at each point of the new thread, and the semaphore's value as a function of the two
  program points.\<close>

fun run_rank :: "run_pc \<Rightarrow> nat" where
  "run_rank Run_set_this = 0"
| "run_rank Run_set_id = 1"
| "run_rank Run_set_os_name = 2"
| "run_rank Run_swap = 3"
| "run_rank Run_notify = 4"
| "run_rank Run_body = 5"
| "run_rank Run_done = 6"

definition start_inv :: "nat \<Rightarrow> int \<Rightarrow> 'cb thread_object \<Rightarrow> 'cb start_state \<Rightarrow> bool" where
  "start_inv self tid obj st \<longleftrightarrow>
     mName (ss_obj st) = mName obj \<and> mThread (ss_obj st) = mThread obj \<and>
     t_thread (ss_locals st) = (if run_rank (ss_run st) \<ge> 1 then Some self else None) \<and>
     mId (ss_obj st) = (if run_rank (ss_run st) \<ge> 2 then tid else mId obj) \<and>
     (run_rank (ss_run st) \<ge> 3 \<longrightarrow> ss_os_name st = substr (mName obj) 0 15) \<and>
     (if run_rank (ss_run st) \<ge> 4 then ss_cb st = mCb obj \<and> mCb (ss_obj st) = None
      else ss_cb st = None \<and> mCb (ss_obj st) = mCb obj) \<and>
     mSemaphore (ss_obj st) = (if run_rank (ss_run st) \<ge> 5 \<and> ss_ctor st \<noteq> Ctor_returned then 1 else 0) \<and>
     (ss_ctor st = Ctor_returned \<longrightarrow> run_rank (ss_run st) \<ge> 5) \<and>
     (ss_ran st \<longleftrightarrow> ss_run st = Run_done)"

lemma ctor_pc_simps [simp]: "c = Ctor_wait \<longleftrightarrow> c \<noteq> Ctor_returned"
  by (cases c) simp_all

lemma start_inv_init: "mSemaphore obj = 0 \<Longrightarrow> start_inv self tid obj (start_thread obj)"
  by (simp add: start_inv_def start_thread_def initial_thread_locals_def)

lemma start_inv_step: "start_step self tid st st' \<Longrightarrow> start_inv self tid obj st \<Longrightarrow> start_inv self tid obj st'"
  by (induction rule: start_step.induct)
    (auto simp: start_inv_def notify_def wait_def split: if_splits)

lemma starting_inv: "starting self tid obj st \<Longrightarrow> mSemaphore obj = 0 \<Longrightarrow> start_inv self tid obj st"
  by (induction rule: starting.induct) (auto intro: start_inv_init start_inv_step)

lemma start_progress:
  assumes "start_inv self tid obj st"
  shows "(\<exists>st'. start_step self tid st st') \<or> ss_run st = Run_done \<and> ss_ctor st = Ctor_returned"
proof (cases "ss_run st")
  case Run_notify
  then have "notify (mSemaphore (ss_obj st)) = Inr 1"
    using assms by (simp add: start_inv_def notify_def SEM_VALUE_MAX_def)
  with Run_notify show ?thesis by (blast intro: start_step.do_notify)
next
  case Run_done
  then have "ss_ctor st = Ctor_wait \<Longrightarrow> wait (mSemaphore (ss_obj st)) = Some 0"
    using assms by (simp add: start_inv_def wait_def)
  with Run_done show ?thesis
    using start_step.ctor_wakes [of st 0 self tid] by (cases "ss_ctor st") auto
qed (blast intro: start_step.intros)+

lemma start_step_measure:
  "start_step self tid st st' \<Longrightarrow>
   run_rank (ss_run st') + (if ss_ctor st' = Ctor_returned then 1 else 0)
     = Suc (run_rank (ss_run st) + (if ss_ctor st = Ctor_returned then 1 else 0))"
  by (induction rule: start_step.induct) (auto split: if_splits)

lemma start_completes:
  "start_inv self tid obj st \<Longrightarrow>
   \<exists>st'. (start_step self tid)\<^sup>*\<^sup>* st st' \<and> ss_run st' = Run_done \<and> ss_ctor st' = Ctor_returned"
proof (induction "7 - (run_rank (ss_run st) + (if ss_ctor st = Ctor_returned then 1 else 0))"
    arbitrary: st rule: less_induct)
  case less
  show ?case
  proof (cases "ss_run st = Run_done \<and> ss_ctor st = Ctor_returned")
    case False
    then obtain st1 where s: "start_step self tid st st1" using start_progress [OF less.prems] by blast
    have "run_rank (ss_run st1) \<le> 6" by (cases "ss_run st1") simp_all
    then have "7 - (run_rank (ss_run st1) + (if ss_ctor st1 = Ctor_returned then 1 else 0))
        < 7 - (run_rank (ss_run st) + (if ss_ctor st = Ctor_returned then 1 else (0 :: nat)))"
      using start_step_measure [OF s] by (auto split: if_splits)
    then have "\<exists>st'. (start_step self tid)\<^sup>*\<^sup>* st1 st' \<and> ss_run st' = Run_done \<and> ss_ctor st' = Ctor_returned"
      using less.hyps start_inv_step [OF s less.prems] by blast
    with s show ?thesis by (meson converse_rtranclp_into_rtranclp)
  qed blast
qed

text \<open>C27: starting a thread. Once the constructor has returned, the object holds the new thread's id and
  name, the system knows the thread by the first 15 characters of that name, the callback has moved
  from the object to the thread, the thread's \<open>GetThis\<close> is the object, and the semaphore is back at
  zero. From every state on the way, the constructor can still return and the callback still runs,
  so the two never wait for each other.\<close>

theorem thread_started:
  assumes create: "Thread_create 0 h cb name = (Inr obj, msgs)" and st: "starting self tid obj st"
  shows "(ss_ctor st = Ctor_returned \<longrightarrow>
      mId (ss_obj st) = tid \<and> mName (ss_obj st) = (if name = [] then ''UNKNOW'' else name) \<and>
      ss_os_name st = take 15 (mName (ss_obj st)) \<and> mCb (ss_obj st) = None \<and> ss_cb st = cb \<and>
      Thread_GetThis (ss_locals st) = Some self \<and> mSemaphore (ss_obj st) = 0) \<and>
    (\<exists>st'. (start_step self tid)\<^sup>*\<^sup>* st st' \<and> ss_ctor st' = Ctor_returned \<and> ss_ran st')"
proof -
  have obj: "mSemaphore obj = 0" "mName obj = (if name = [] then ''UNKNOW'' else name)" "mCb obj = cb"
    using create by (auto simp: Thread_create_def Let_def)
  have inv: "start_inv self tid obj st" using starting_inv [OF st obj(1)] .
  obtain st' where st': "(start_step self tid)\<^sup>*\<^sup>* st st'" "ss_run st' = Run_done" "ss_ctor st' = Ctor_returned"
    using start_completes [OF inv] by blast
  have "start_inv self tid obj st'"
    using st'(1) inv by (induction rule: rtranclp_induct) (auto intro: start_inv_step)
  then have "ss_ran st'" using st'(2) by (simp add: start_inv_def)
  then show ?thesis
    using inv obj st' by (auto simp: start_inv_def substr_def Thread_GetThis_def)
qed

theorem thread_started_witness:
  "(\<exists>obj. Thread_create 0 7 (Some ''cb'') ''a_long_name_for_a_thread'' = (Inr obj, []) \<and> starting 0 4711 obj (start_thread obj) \<and>
     (\<exists>st'. (start_step 0 4711)\<^sup>*\<^sup>* (start_thread obj) st' \<and> ss_ctor st' = Ctor_returned \<and> ss_ran st'))"
proof -
  obtain obj where c: "Thread_create 0 7 (Some ''cb'') ''a_long_name_for_a_thread'' = (Inr obj, [])"
    by (simp add: Thread_create_def Let_def)
  show ?thesis using c thread_started [OF c begin_start] begin_start by blast
qed

subsection \<open>Joining and detaching\<close>

text \<open>The life of an object after its construction: any number of joins, whose result codes are given,
  and then the destructor.\<close>

fun joins :: "int list \<Rightarrow> 'cb thread_object \<Rightarrow> 'cb thread_object \<times> release list" where
  "joins [] obj = (obj, [])"
| "joins (ret # rets) obj =
     (case Thread_join ret obj of
        (obj', rel, msgs, r) \<Rightarrow> (case joins rets obj' of (obj'', rel') \<Rightarrow> (obj'', rel @ rel')))"

definition lifetime_releases :: "int list \<Rightarrow> 'cb thread_object \<Rightarrow> release list" where
  "lifetime_releases rets obj = (case joins rets obj of (obj', rel) \<Rightarrow> rel @ Thread_destroy obj')"

lemma joins_released: "mThread obj = None \<Longrightarrow> joins rets obj = (obj, [])"
  by (induction rets) (simp_all add: Thread_join_def)

text \<open>A thread's handle is given back exactly once: whatever joins are tried before the object is
  destroyed, the handle is joined once, by the first join the system accepts, or detached once, by
  the destructor, if none is accepted.\<close>

theorem handle_released_once:
  assumes "Thread_create 0 h cb name = (Inr obj, msgs)"
  shows "lifetime_releases rets obj = (if 0 \<in> set rets then [Joined h] else [Detached h])"
proof -
  have "mThread obj = Some h" using assms by (auto simp: Thread_create_def Let_def)
  then show ?thesis
    by (induction rets)
      (auto simp: lifetime_releases_def Thread_destroy_def Thread_join_def joins_released split: prod.splits)
qed

theorem handle_released_once_witness:
  "(\<exists>obj. Thread_create 0 7 (None :: string option) ''t'' = (Inr obj, []) \<and> lifetime_releases [3, 0, 0] obj = [Joined 7])"
proof -
  obtain obj where c: "Thread_create 0 7 (None :: string option) ''t'' = (Inr obj, [])"
    by (simp add: Thread_create_def Let_def)
  show ?thesis using c handle_released_once [OF c, of "[3, 0, 0]"] by simp
qed

text \<open>Asking for the thread's name. On a thread that was started through the class, the static
  getter gives the last name set, by the constructor or by \<open>SetName\<close>; on any other thread, such as
  the one that runs \<open>main\<close>, it dereferences a null pointer, whatever name has been set before.\<close>

theorem static_thread_name:
  assumes "\<forall>t. t_thread tv = Some t \<longrightarrow> t < length ths"
  shows "(case Thread_SetName name tv ths of (tv', ths') \<Rightarrow>
    GetStaticThreadName tv' ths' = (if t_thread tv = None then Inl Null_deref else Inr name) \<and>
    length ths' = length ths \<and> (\<forall>t. t_thread tv \<noteq> Some t \<longrightarrow> ths' ! t = ths ! t))"
  using assms by (cases "t_thread tv") (auto simp: Thread_SetName_def GetStaticThreadName_def)

theorem static_thread_name_witness:
  "(case Thread_SetName ''main'' initial_thread_locals ([] :: string thread_object list) of (tv', ths') \<Rightarrow>
     GetStaticThreadName tv' ths' = Inl Null_deref)"
  using static_thread_name [of initial_thread_locals "[] :: string thread_object list" "''main''"]
  by (auto simp: initial_thread_locals_def split: prod.splits)

end
