(* ===== verification/ConfigEffects.thy ===== *)
theory ConfigEffects
  imports ConfigLoad Threads
begin

text \<open>
  What loading a document does to the rest of the program, through the log messages of the registry and
  the listeners of the variables: when each message and each listener keeps to a relation between states
  that can be composed, so does the whole load, and no fault leaves it.
\<close>

subsection \<open>Tame variables\<close>

text \<open>A listener is tame when it keeps to the relation and throws nothing but standard exceptions; a
  variable is when its listeners are and its conversion throws nothing else either.\<close>

definition tame_callback ::
  "('s \<Rightarrow> bool) \<Rightarrow> ('s \<Rightarrow> 's \<Rightarrow> bool) \<Rightarrow> ('u, 's) callback \<Rightarrow> bool" where
  "tame_callback ok R cb \<longleftrightarrow>
     (\<forall>old new s. ok s \<longrightarrow>
        R s (fst (cb old new s)) \<and> (\<forall>e. snd (cb old new s) = Some e \<longrightarrow> is_std_exception e))"

definition tame_var :: "('s \<Rightarrow> bool) \<Rightarrow> ('s \<Rightarrow> 's \<Rightarrow> bool) \<Rightarrow> ('u, 's) base_var \<Rightarrow> bool" where
  "tame_var ok R b \<longleftrightarrow>
     (\<forall>t e. bv_from b t = Inl e \<longrightarrow> is_std_exception e) \<and>
     (\<forall>key cb. (key, Some cb) \<in> set (cv_cbs (bv_var b)) \<longrightarrow> tame_callback ok R cb)"

lemma tame_callbackD:
  assumes "tame_callback ok R cb" "ok s" "cb old new s = (s', r)"
  shows "R s s'" and "r = Some e \<Longrightarrow> is_std_exception e"
  using assms unfolding tame_callback_def by (metis fst_conv, metis snd_conv)

lemma tame_var_frame:
  "base_FromString env t b s = (b', s', r) \<Longrightarrow> tame_var ok R b' = tame_var ok R b"
  by (simp add: tame_var_def base_FromString_frame)

lemma silent_tame:
  "cv_cbs (bv_var b) = [] \<Longrightarrow> (\<And>t e. bv_from b t = Inl e \<Longrightarrow> is_std_exception e) \<Longrightarrow> tame_var ok R b"
  by (simp add: tame_var_def)

lemma load_nodes_append:
  "load_nodes env lib (is @ js) (cfg, s) =
     (case load_nodes env lib is (cfg, s) of
        (cfg', s', Some e) \<Rightarrow> (cfg', s', Some e)
      | (cfg', s', None) \<Rightarrow> load_nodes env lib js (cfg', s'))"
  by (induction "is" arbitrary: cfg s) (auto split: prod.splits option.splits)

subsection \<open>The contract of the log messages\<close>

text \<open>The messages that the functions of \<open>thread.cpp\<close> hand to the loggers, one after the other.\<close>

definition send_messages :: "'s cfg_env \<Rightarrow> message list \<Rightarrow> 's \<Rightarrow> 's" where
  "send_messages env msgs s = fold (\<lambda>(name, level, msg). ce_log env name level msg) msgs s"

locale tame_log =
  fixes cenv :: "'s cfg_env" and ok :: "'s \<Rightarrow> bool" and R :: "'s \<Rightarrow> 's \<Rightarrow> bool"
  assumes R_refl: "ok s \<Longrightarrow> R s s"
    and R_trans: "R s s' \<Longrightarrow> R s' s'' \<Longrightarrow> R s s''"
    and R_ok: "R s s' \<Longrightarrow> ok s \<Longrightarrow> ok s'"
    and log_R: "ok s \<Longrightarrow> R s (ce_log cenv name level msg s)"
begin

lemma log_after: "ok s \<Longrightarrow> R s s1 \<Longrightarrow> R s (ce_log cenv name level msg s1)"
  using R_ok R_trans log_R by blast

lemma messages_R: "ok s \<Longrightarrow> R s (send_messages cenv msgs s)"
proof (induction msgs arbitrary: s)
  case Nil
  then show ?case by (simp add: send_messages_def R_refl)
next
  case (Cons m msgs)
  obtain name level msg where m: "m = (name, level, msg)" using prod_cases3 by blast
  have "R s (ce_log cenv name level msg s)" using log_R [OF Cons.prems] .
  then show ?case
    using Cons.IH [OF R_ok [OF _ Cons.prems]] R_trans m by (auto simp: send_messages_def)
qed

lemma names_R:
  "env = cenv \<Longrightarrow> ok s \<Longrightarrow> R s (snd (ListAllMember env lib p n s))"
  "env = cenv \<Longrightarrow> ok s \<Longrightarrow> R s (snd (ListMembers env lib p ps s))"
proof (induction env lib p n s and env lib p ps s rule: ListAllMember_ListMembers.induct)
  case (1 env lib p n s)
  then show ?case
    using log_R by (auto simp: R_refl split: ynode.splits prod.splits)
next
  case (2 env lib p s)
  then show ?case by (simp add: R_refl)
next
  case (3 env lib p k n ps s)
  obtain out s1 where o: "ListAllMember env lib (child_name p k) n s = (out, s1)" by fastforce
  obtain out' s2 where o': "ListMembers env lib p ps s1 = (out', s2)" by fastforce
  have "R s s1" using 3(1,3,4) o by (simp add: child_name_def [symmetric] del: ListAllMember.simps)
  moreover have "R s1 s2"
    using 3(2) [OF o [unfolded child_name_def, symmetric] 3(3)] R_ok [OF \<open>R s s1\<close> 3(4)] o' by simp
  ultimately have "R s s2" by (rule R_trans)
  then show ?case using o o' by (simp add: child_name_def [symmetric] del: ListAllMember.simps)
qed

lemma callbacks_R:
  "ok s \<Longrightarrow> \<forall>key cb. (key, Some cb) \<in> set cbs \<longrightarrow> tame_callback ok R cb \<Longrightarrow>
   run_callbacks cbs old new s = (s', r) \<Longrightarrow> R s s' \<and> (\<forall>e. r = Some e \<longrightarrow> is_std_exception e)"
proof (induction cbs old new s rule: run_callbacks.induct)
  case (1 old new s)
  then show ?case by (simp add: R_refl)
next
  case (2 key cbs old new s)
  then show ?case by (auto simp: R_refl)
next
  case (3 key cb cbs old new s)
  obtain s1 r1 where cb: "cb old new s = (s1, r1)" by fastforce
  have "tame_callback ok R cb" using 3(3) by auto
  note 1 = tame_callbackD [OF this 3(2) cb]
  show ?case
  proof (cases r1)
    case None
    then have "run_callbacks cbs old new s1 = (s', r)" using 3(4) cb by simp
    with 3(1) [OF cb [symmetric] None R_ok [OF 1(1) 3(2)]] 3(3)
    have "R s1 s'" "\<forall>e. r = Some e \<longrightarrow> is_std_exception e" by auto
    then show ?thesis using R_trans [OF 1(1)] by simp
  next
    case (Some e)
    then show ?thesis using 1 3(4) cb by auto
  qed
qed

lemma from_string_R:
  assumes "ok s" "tame_var ok R b" "base_FromString cenv t b s = (b', s', r)"
  shows "R s s' \<and> (\<exists>x. r = Inr x)"
proof -
  have err: "from_string_error cenv tn val v e s1 = (s2, r2) \<Longrightarrow> R s s1 \<Longrightarrow> is_std_exception e \<Longrightarrow>
      R s s2 \<and> (\<exists>x. r2 = Inr x)" for tn val v e s1 s2 r2
    using log_after [OF assms(1)] by (auto simp: from_string_error_def)
  show ?thesis
  proof (cases "bv_from b t")
    case (Inl e)
    then have "is_std_exception e" using assms(2) by (simp add: tame_var_def)
    then show ?thesis
      using Inl assms(3) err [OF _ R_refl [OF assms(1)], of "bv_type b" t "bv_var b" e s' r]
      by (auto simp: base_FromString_def FromString_def split: prod.splits)
  next
    case (Inr x)
    obtain s1 r1 where r: "run_callbacks (cv_cbs (bv_var b)) (cv_val (bv_var b)) x s = (s1, r1)" by fastforce
    have cb: "R s s1" "\<forall>e. r1 = Some e \<longrightarrow> is_std_exception e"
      using callbacks_R [OF assms(1) _ r] assms(2) by (simp_all add: tame_var_def)
    show ?thesis
      using assms(1,3) err [OF _ cb(1), of "bv_type b" t "bv_var b" "the r1" s' r] cb Inr r R_refl [of s]
      by (auto simp: base_FromString_def FromString_def SetValue_def split: prod.splits if_splits option.splits)
  qed
qed

lemma load_node_R:
  assumes "ok s" "load_node cenv lib (key, n) (cfg, s) = (cfg', s', r)"
    and "\<And>j. cf_datas cfg (to_lower key) = Some j \<Longrightarrow> tame_var ok R (cf_vars cfg ! j)"
  shows "R s s' \<and> r = None \<and> (\<forall>j. tame_var ok R (cf_vars cfg' ! j) = tame_var ok R (cf_vars cfg ! j))"
  using assms(2)
proof (cases rule: load_node_cases)
  case skip
  then show ?thesis
    using assms(1,2) R_refl [OF assms(1)] by (auto simp: load_node_def LookUpBase_def split: if_splits)
next
  case (set j b r')
  have "R s s' \<and> (\<exists>x. r' = Inr x)" using from_string_R [OF assms(1) assms(3) [OF set(2)] set(3)] .
  then show ?thesis
    using tame_var_frame [OF set(3)] by (auto simp: set(4,5) nth_update_if)
qed

lemma load_nodes_R:
  "ok s \<Longrightarrow> wf_config cfg \<Longrightarrow> load_nodes cenv lib is (cfg, s) = (cfg', s', r) \<Longrightarrow>
   (\<And>q n j. (q, n) \<in> set is \<Longrightarrow> cf_datas cfg (to_lower q) = Some j \<Longrightarrow> tame_var ok R (cf_vars cfg ! j)) \<Longrightarrow>
   R s s' \<and> r = None \<and> (\<forall>j. tame_var ok R (cf_vars cfg' ! j) = tame_var ok R (cf_vars cfg ! j))"
proof (induction "is" arbitrary: cfg s)
  case Nil
  then show ?case by (simp add: R_refl)
next
  case (Cons i "is")
  obtain key node where i: "i = (key, node)" by fastforce
  obtain cfg1 s1 r1 where l: "load_node cenv lib (key, node) (cfg, s) = (cfg1, s1, r1)"
    by (cases "load_node cenv lib (key, node) (cfg, s)") auto
  have 1: "R s s1" "r1 = None" "\<And>j. tame_var ok R (cf_vars cfg1 ! j) = tame_var ok R (cf_vars cfg ! j)"
    using load_node_R [OF Cons.prems(1) l] Cons.prems(4) i by auto
  note wf = wf_load_node [OF Cons.prems(2) l]
  have "R s1 s' \<and> r = None \<and> (\<forall>j. tame_var ok R (cf_vars cfg' ! j) = tame_var ok R (cf_vars cfg1 ! j))"
    using Cons.IH [of s1 cfg1] Cons.prems(3,4) wf 1 R_ok [OF 1(1) Cons.prems(1)] l i by auto
  then show ?case using 1 R_trans by auto
qed

end

end
