(* ===== verification/LogPattern.thy ===== *)
theory LogPattern
  imports Prelude
begin

text \<open>
  The pattern compiler of the log formatter: \<open>LogFormatter::Init\<close> of \<open>primo/log/Logger.cpp\<close>, from
  the text of a pattern to the list of format items. \<open>scan_spec\<close> is the inner loop over one
  conversion, \<open>parse_pattern\<close> the outer loop over the pattern, \<open>make_items\<close> the final loop that
  looks the conversions up. The lemmas show that both loops advance, that compiling the text of
  a well-formed sequence of pieces gives these pieces back, and what happens on malformed text.
\<close>

subsection \<open>Format items\<close>

datatype format_item =
    MessageFormatItem
  | LevelFormatItem
  | ElapseFormatItem
  | NameFormatItem
  | ThreadIdFormatItem
  | NewLineFormatItem
  | DateTimeFormatItem string
  | FilenameFormatItem
  | LineFormatItem
  | TabFormatItem
  | FiberIdFormatItem
  | ThreadNameFormatItem
  | StringFormatItem string

definition default_time_format :: string where
  "default_time_format = ''%Y-%m-%d %H:%M:%S''"

definition new_DateTimeFormatItem :: "string \<Rightarrow> format_item" where
  "new_DateTimeFormatItem format =
     DateTimeFormatItem (if format = [] then default_time_format else format)"

definition S_FormatItems :: "(string \<times> (string \<Rightarrow> format_item)) list" where
  "S_FormatItems =
     [(''m'', \<lambda>fmt. MessageFormatItem),
      (''p'', \<lambda>fmt. LevelFormatItem),
      (''r'', \<lambda>fmt. ElapseFormatItem),
      (''c'', \<lambda>fmt. NameFormatItem),
      (''t'', \<lambda>fmt. ThreadIdFormatItem),
      (''n'', \<lambda>fmt. NewLineFormatItem),
      (''d'', new_DateTimeFormatItem),
      (''f'', \<lambda>fmt. FilenameFormatItem),
      (''l'', \<lambda>fmt. LineFormatItem),
      (''T'', \<lambda>fmt. TabFormatItem),
      (''F'', \<lambda>fmt. FiberIdFormatItem),
      (''N'', \<lambda>fmt. ThreadNameFormatItem)]"

subsection \<open>The inner loop: one conversion\<close>

text \<open>
  The state of the loop is the position \<open>n\<close>, the name \<open>str\<close>, the argument \<open>fmt\<close>, the status
  \<open>iFmtStatus\<close> (0 outside braces, 1 inside) and \<open>iFmtBegin\<close>, the position of the brace; \<open>i\<close> is
  the position of the percent sign. The result is the state after the loop.
\<close>

definition rest_as_name :: "string \<Rightarrow> nat \<Rightarrow> nat \<Rightarrow> string \<Rightarrow> string" where
  "rest_as_name p i n str = (if n = length p \<and> str = [] then substr p (i + 1) (length p) else str)"

function scan_spec ::
  "string \<Rightarrow> nat \<Rightarrow> nat \<Rightarrow> string \<Rightarrow> string \<Rightarrow> nat \<Rightarrow> nat \<Rightarrow> nat \<times> string \<times> string \<times> nat" where
  "scan_spec p i n str fmt iFmtStatus iFmtBegin =
     (if n < length p then
        if iFmtStatus = 0 \<and> \<not> is_alpha (p ! n) \<and> p ! n \<noteq> CHR ''{'' \<and> p ! n \<noteq> CHR ''}''
        then (n, substr p (i + 1) (n - i - 1), fmt, iFmtStatus)
        else if iFmtStatus = 0 \<and> p ! n = CHR ''{''
        then scan_spec p i (n + 1) (substr p (i + 1) (n - i - 1)) fmt 1 n
        else if iFmtStatus = 1 \<and> p ! n = CHR ''}''
        then (n + 1, str, substr p (iFmtBegin + 1) (n - iFmtBegin - 1), 0)
        else scan_spec p i (n + 1) (rest_as_name p i (n + 1) str) fmt iFmtStatus iFmtBegin
      else (n, str, fmt, iFmtStatus))"
  by pat_completeness auto
termination
  by (relation "measure (\<lambda>(p, i, n, str, fmt, st, b). length p - n)") auto

declare scan_spec.simps [simp del]

lemma scan_spec_advances: "n \<le> fst (scan_spec p i n str fmt st b)"
proof (induction p i n str fmt st b rule: scan_spec.induct)
  case (1 p i n str fmt st b)
  then show ?case by (subst scan_spec.simps) auto
qed

lemma scan_spec_progress: "(n, r) = scan_spec p i (Suc i) str fmt st b \<Longrightarrow> i < n"
  using scan_spec_advances [of "Suc i" p i str fmt st b] by (cases "scan_spec p i (Suc i) str fmt st b") simp

lemma scan_spec_bound:
  "n \<le> length p \<Longrightarrow> fst (scan_spec p i n str fmt st b) \<le> length p"
proof (induction p i n str fmt st b rule: scan_spec.induct)
  case (1 p i n str fmt st b)
  then show ?case by (subst scan_spec.simps) auto
qed

lemma scan_spec_status:
  "st \<le> 1 \<Longrightarrow> snd (snd (snd (scan_spec p i n str fmt st b))) \<le> 1"
proof (induction p i n str fmt st b rule: scan_spec.induct)
  case (1 p i n str fmt st b)
  then show ?case by (subst scan_spec.simps) auto
qed

subsection \<open>The outer loop and the items\<close>

type_synonym token = "string \<times> string \<times> nat"

definition flush_text :: "string \<Rightarrow> token list" where
  "flush_text nstr = (if nstr = [] then [] else [(nstr, [], 0)])"

definition parse_error_line :: "string \<Rightarrow> nat \<Rightarrow> string" where
  "parse_error_line p i = ''pattern parse error: '' @ p @ '' - '' @ drop i p @ newline"

text \<open>
  The arguments are the loop variable \<open>i\<close>, the text \<open>nstr\<close> collected since the last conversion,
  the tokens \<open>vec\<close>, the flag \<open>bError\<close> and the text written to the standard output. Setting
  \<open>i = n - 1\<close> at the end of a conversion and then incrementing continues at \<open>n\<close>; after an
  unclosed brace \<open>i\<close> is unchanged, so the loop continues right behind the percent sign. As in the
  code, the branch for a doubled percent sign does not step over the second one.
\<close>

function parse_pattern ::
  "string \<Rightarrow> nat \<Rightarrow> string \<Rightarrow> token list \<Rightarrow> bool \<Rightarrow> string \<Rightarrow> token list \<times> bool \<times> string" where
  "parse_pattern p i nstr vec bError cout =
     (if i < length p then
        if p ! i \<noteq> CHR ''%'' then parse_pattern p (i + 1) (nstr @ [p ! i]) vec bError cout
        else if i + 1 < length p \<and> p ! (i + 1) = CHR ''%''
        then parse_pattern p (i + 1) (nstr @ ''%'') vec bError cout
        else (case scan_spec p i (i + 1) [] [] 0 0 of (n, str, fmt, iFmtStatus) \<Rightarrow>
          if iFmtStatus = 0
          then parse_pattern p n [] (vec @ flush_text nstr @ [(str, fmt, 1)]) bError cout
          else parse_pattern p (i + 1) nstr (vec @ [(''<<pattern_error>>'', fmt, 0)]) True
                 (cout @ parse_error_line p i))
      else (vec @ flush_text nstr, bError, cout))"
  by pat_completeness auto
termination
  by (relation "measure (\<lambda>(p, i, nstr, vec, e, out). length p - i)")
    (auto dest: scan_spec_progress)

declare parse_pattern.simps [simp del]

fun token_item :: "token \<Rightarrow> format_item \<times> bool" where
  "token_item (str, fmt, type) =
     (if type = 0 then (StringFormatItem str, False)
      else (case map_of S_FormatItems str of
              None \<Rightarrow> (StringFormatItem (''<<error_format %'' @ str @ ''>>''), True)
            | Some C \<Rightarrow> (C fmt, False)))"

definition make_items :: "token list \<Rightarrow> bool \<Rightarrow> format_item list \<times> bool" where
  "make_items vec bError =
     (map (fst \<circ> token_item) vec, bError \<or> list_ex (snd \<circ> token_item) vec)"

text \<open>A formatter after its constructor: pattern, items, error flag. The second component of
  \<open>new_LogFormatter\<close> is what the constructor writes to the standard output.\<close>

record formatter =
  fm_pattern :: string
  fm_items :: "format_item list"
  fm_error :: bool

definition new_LogFormatter :: "string \<Rightarrow> formatter \<times> string" where
  "new_LogFormatter pattern =
     (case parse_pattern pattern 0 [] [] False [] of (vec, bError, cout) \<Rightarrow>
        (case make_items vec bError of (items, err) \<Rightarrow>
           (\<lparr>fm_pattern = pattern, fm_items = items, fm_error = err\<rparr>, cout)))"

abbreviation IsError :: "formatter \<Rightarrow> bool" where
  "IsError f \<equiv> fm_error f"

lemma new_LogFormatter_pattern [simp]: "fm_pattern (fst (new_LogFormatter p)) = p"
  by (simp add: new_LogFormatter_def split: prod.splits)

subsection \<open>One iteration of each loop\<close>

lemma scan_stop:
  "n < length p \<Longrightarrow> \<not> is_alpha (p ! n) \<Longrightarrow> p ! n \<noteq> CHR ''{'' \<Longrightarrow> p ! n \<noteq> CHR ''}'' \<Longrightarrow>
   scan_spec p i n str fmt 0 b = (n, substr p (i + 1) (n - i - 1), fmt, 0)"
  by (subst scan_spec.simps) simp

lemma scan_open:
  "n < length p \<Longrightarrow> p ! n = CHR ''{'' \<Longrightarrow>
   scan_spec p i n str fmt 0 b = scan_spec p i (n + 1) (substr p (i + 1) (n - i - 1)) fmt 1 n"
  by (subst scan_spec.simps) simp

lemma scan_close:
  "n < length p \<Longrightarrow> p ! n = CHR ''}'' \<Longrightarrow>
   scan_spec p i n str fmt 1 b = (n + 1, str, substr p (b + 1) (n - b - 1), 0)"
  by (subst scan_spec.simps) simp

lemma scan_letter:
  "n < length p \<Longrightarrow> is_alpha (p ! n) \<Longrightarrow>
   scan_spec p i n str fmt 0 b = scan_spec p i (n + 1) (rest_as_name p i (n + 1) str) fmt 0 b"
  by (subst scan_spec.simps) (auto simp: is_alpha_def is_upper_def is_lower_def)

lemma scan_inside:
  "n < length p \<Longrightarrow> p ! n \<noteq> CHR ''}'' \<Longrightarrow>
   scan_spec p i n str fmt 1 b = scan_spec p i (n + 1) (rest_as_name p i (n + 1) str) fmt 1 b"
  by (subst scan_spec.simps) simp

lemma scan_end: "length p \<le> n \<Longrightarrow> scan_spec p i n str fmt st b = (n, str, fmt, st)"
  by (subst scan_spec.simps) simp

lemma parse_text:
  "i < length p \<Longrightarrow> p ! i \<noteq> CHR ''%'' \<Longrightarrow>
   parse_pattern p i nstr vec e out = parse_pattern p (i + 1) (nstr @ [p ! i]) vec e out"
  by (subst parse_pattern.simps) simp

lemma parse_percent:
  "i < length p \<Longrightarrow> p ! i = CHR ''%'' \<Longrightarrow> i + 1 < length p \<Longrightarrow> p ! (i + 1) = CHR ''%'' \<Longrightarrow>
   parse_pattern p i nstr vec e out = parse_pattern p (i + 1) (nstr @ ''%'') vec e out"
  by (subst parse_pattern.simps) simp

lemma parse_conversion:
  "i < length p \<Longrightarrow> p ! i = CHR ''%'' \<Longrightarrow> (i + 1 < length p \<Longrightarrow> p ! (i + 1) \<noteq> CHR ''%'') \<Longrightarrow>
   scan_spec p i (i + 1) [] [] 0 0 = (n, str, fmt, 0) \<Longrightarrow>
   parse_pattern p i nstr vec e out
     = parse_pattern p n [] (vec @ flush_text nstr @ [(str, fmt, 1)]) e out"
  by (subst parse_pattern.simps) auto

lemma parse_unclosed:
  "i < length p \<Longrightarrow> p ! i = CHR ''%'' \<Longrightarrow> (i + 1 < length p \<Longrightarrow> p ! (i + 1) \<noteq> CHR ''%'') \<Longrightarrow>
   scan_spec p i (i + 1) [] [] 0 0 = (n, str, fmt, 1) \<Longrightarrow>
   parse_pattern p i nstr vec e out
     = parse_pattern p (i + 1) nstr (vec @ [(''<<pattern_error>>'', fmt, 0)]) True
         (out @ parse_error_line p i)"
  by (subst parse_pattern.simps) auto

lemma parse_end:
  "length p \<le> i \<Longrightarrow> parse_pattern p i nstr vec e out = (vec @ flush_text nstr, e, out)"
  by (subst parse_pattern.simps) simp

lemmas scan_steps = scan_stop scan_open scan_close scan_letter scan_inside scan_end
lemmas parse_steps = parse_text parse_percent parse_conversion parse_unclosed parse_end

subsection \<open>Scanning the text of a conversion\<close>

lemma substr_prefix: "substr (a @ b @ c) (length a) (length b) = b"
  by (simp add: substr_def)

definition spec_boundary :: "string \<Rightarrow> bool" where
  "spec_boundary rest \<longleftrightarrow>
     (case rest of [] \<Rightarrow> True
      | c # _ \<Rightarrow> \<not> is_alpha c \<and> c \<noteq> CHR ''{'' \<and> c \<noteq> CHR ''}'')"

text \<open>
  \<open>pre\<close> is the text up to and including the percent sign, \<open>c\<close> the letters of the conversion; the
  loop has passed \<open>k\<close> of them.
\<close>

lemma scan_letters:
  assumes p: "p = pre @ c @ rest" and i: "Suc i = length pre" and c: "list_all is_alpha c"
  shows "k \<le> length c \<Longrightarrow> str = (if k = length c \<and> rest = [] then c else []) \<Longrightarrow> k < length c \<or> c \<noteq> [] \<Longrightarrow>
    scan_spec p i (length pre + k) str [] 0 0
      = scan_spec p i (length pre + length c) (if rest = [] then c else []) [] 0 0"
proof (induction "length c - k" arbitrary: k str)
  case 0
  then show ?case by simp
next
  case (Suc m)
  then have k: "k < length c" by simp
  have step: "scan_spec p i (length pre + k) str [] 0 0
      = scan_spec p i (length pre + Suc k) (rest_as_name p i (length pre + Suc k) str) [] 0 0"
    using scan_letter [of "length pre + k" p i str "[]" 0] k c
    by (simp add: p nth_append list_all_length)
  have name: "rest_as_name p i (length pre + Suc k) str
      = (if Suc k = length c \<and> rest = [] then c else [])"
    proof -
    have "length pre + Suc k = length p \<longleftrightarrow> Suc k = length c \<and> rest = []"
      using k by (cases rest) (auto simp: p)
    then show ?thesis
      using Suc.prems k i by (auto simp: rest_as_name_def p substr_def)
  qed
  show ?case unfolding step name by (rule Suc.hyps(1)) (use Suc.hyps(2) k in auto)
qed

lemma scan_plain_conversion:
  assumes p: "p = pre @ c @ rest" and i: "Suc i = length pre" and c: "list_all is_alpha c" "c \<noteq> []"
    and rest: "spec_boundary rest"
  shows "scan_spec p i (i + 1) [] [] 0 0 = (length pre + length c, c, [], 0)"
proof -
  have "scan_spec p i (i + 1) [] [] 0 0
      = scan_spec p i (length pre + length c) (if rest = [] then c else []) [] 0 0"
    using scan_letters [OF p i c(1), of 0 "[]"] c(2) i by simp
  also have "\<dots> = (length pre + length c, c, [], 0)"
  proof (cases rest)
    case Nil
    then show ?thesis by (simp add: scan_end p)
  next
    case (Cons r rs)
    have "substr p (Suc i) (length pre + length c - Suc i) = c"
      using substr_prefix [of pre c rest] i by (simp add: p)
    then show ?thesis
      using rest Cons scan_stop [of "length pre + length c" p i "[]" "[]" 0]
      by (simp add: p spec_boundary_def nth_append)
  qed
  finally show ?thesis .
qed

lemma scan_argument:
  assumes p: "p = pre @ f @ ''}'' @ rest" and f: "CHR ''}'' \<notin> set f" and str: "str \<noteq> []"
  shows "k \<le> length f \<Longrightarrow>
    scan_spec p i (length pre + k) str fmt 1 b = scan_spec p i (length pre + length f) str fmt 1 b"
proof (induction "length f - k" arbitrary: k)
  case 0
  then show ?case by simp
next
  case (Suc m)
  then have k: "k < length f" by simp
  then have "f ! k \<noteq> CHR ''}''" using f by (metis nth_mem)
  then have "scan_spec p i (length pre + k) str fmt 1 b
      = scan_spec p i (length pre + Suc k) (rest_as_name p i (length pre + Suc k) str) fmt 1 b"
    using scan_inside [of "length pre + k" p i str fmt b] k
    by (simp add: p nth_append)
  also have "rest_as_name p i (length pre + Suc k) str = str"
    using str by (simp add: rest_as_name_def)
  also have "scan_spec p i (length pre + Suc k) str fmt 1 b
      = scan_spec p i (length pre + length f) str fmt 1 b"
    by (rule Suc.hyps(1)) (use Suc.hyps(2) k in auto)
  finally show ?case .
qed

lemma scan_conversion_with_argument:
  assumes p: "p = pre @ c @ ''{'' @ f @ ''}'' @ rest" and i: "Suc i = length pre"
    and c: "list_all is_alpha c" "c \<noteq> []" and f: "CHR ''}'' \<notin> set f"
  shows "scan_spec p i (i + 1) [] [] 0 0 = (length pre + length c + length f + 2, c, f, 0)"
proof -
  let ?n = "length pre + length c"
  let ?pre = "pre @ c @ ''{''"
  have pf: "p = ?pre @ f @ ''}'' @ rest" by (simp add: p)
  have "scan_spec p i (i + 1) [] [] 0 0 = scan_spec p i ?n [] [] 0 0"
    using scan_letters [OF p i c(1), of 0 "[]"] c(2) i by simp
  also have "\<dots> = scan_spec p i (?n + 1) c [] 1 ?n"
    using scan_open [of ?n p i "[]" "[]" 0] substr_prefix [of pre c "''{'' @ f @ ''}'' @ rest"] i
    by (simp add: p nth_append)
  also have "\<dots> = scan_spec p i (?n + 1 + length f) c [] 1 ?n"
    using scan_argument [OF pf f c(2), of 0 i "[]" ?n] by simp
  also have "\<dots> = (?n + 1 + length f + 1, c, substr p (?n + 1) (?n + 1 + length f - ?n - 1), 0)"
    by (rule scan_close) (simp_all add: p nth_append)
  also have "substr p (?n + 1) (?n + 1 + length f - ?n - 1) = f"
    using substr_prefix [of ?pre f "''}'' @ rest"] by (simp add: p)
  finally show ?thesis by (simp add: add.assoc add.commute)
qed

subsection \<open>Compiling the text of a sequence of pieces\<close>

text \<open>
  The abstract syntax of a pattern: literal text, and conversions with or without an argument in
  braces. \<open>wf_pieces\<close> holds of the sequences whose text can be read back: a literal is non-empty,
  has no percent sign and is not followed by another literal, a conversion is made of letters, its
  argument has no closing brace, and the text after a conversion without argument does not start
  with a letter or a brace.
\<close>

datatype piece = Lit string | Conv string "string option"

fun piece_text :: "piece \<Rightarrow> string" where
  "piece_text (Lit s) = s"
| "piece_text (Conv c None) = ''%'' @ c"
| "piece_text (Conv c (Some f)) = ''%'' @ c @ ''{'' @ f @ ''}''"

definition pieces_text :: "piece list \<Rightarrow> string" where
  "pieces_text ps = concat (map piece_text ps)"

fun piece_token :: "piece \<Rightarrow> token" where
  "piece_token (Lit s) = (s, [], 0)"
| "piece_token (Conv c f) = (c, (case f of None \<Rightarrow> [] | Some a \<Rightarrow> a), 1)"

fun starts_with_lit :: "piece list \<Rightarrow> bool" where
  "starts_with_lit (Lit s # ps) = True"
| "starts_with_lit _ = False"

fun wf_pieces :: "piece list \<Rightarrow> bool" where
  "wf_pieces [] = True"
| "wf_pieces (Lit s # ps) =
     (s \<noteq> [] \<and> CHR ''%'' \<notin> set s \<and> \<not> starts_with_lit ps \<and> wf_pieces ps)"
| "wf_pieces (Conv c None # ps) =
     (c \<noteq> [] \<and> list_all is_alpha c \<and> spec_boundary (pieces_text ps) \<and> wf_pieces ps)"
| "wf_pieces (Conv c (Some f) # ps) =
     (c \<noteq> [] \<and> list_all is_alpha c \<and> CHR ''}'' \<notin> set f \<and> wf_pieces ps)"

lemma pieces_text_simps [simp]:
  "pieces_text [] = []"
  "pieces_text (q # ps) = piece_text q @ pieces_text ps"
  by (simp_all add: pieces_text_def)

lemma percent_not_alpha: "\<not> is_alpha (CHR ''%'')"
  by (simp add: is_alpha_def is_upper_def is_lower_def)

lemma parse_literal:
  assumes "CHR ''%'' \<notin> set s"
  shows "parse_pattern (pre @ s @ rest) (length pre) nstr vec e out
       = parse_pattern (pre @ s @ rest) (length pre + length s) (nstr @ s) vec e out"
  using assms
proof (induction s arbitrary: pre nstr)
  case Nil
  then show ?case by simp
next
  case (Cons a s)
  have "parse_pattern (pre @ (a # s) @ rest) (length pre) nstr vec e out
      = parse_pattern ((pre @ [a]) @ s @ rest) (length (pre @ [a])) (nstr @ [a]) vec e out"
    using Cons.prems by (subst parse_text) (auto simp: nth_append)
  also have "\<dots> = parse_pattern ((pre @ [a]) @ s @ rest) (length (pre @ [a]) + length s)
      ((nstr @ [a]) @ s) vec e out"
    by (rule Cons.IH) (use Cons.prems in simp)
  finally show ?case by simp
qed

lemma parse_conversion_piece:
  assumes wf: "wf_pieces (Conv c f # ps)"
  shows "parse_pattern (pre @ pieces_text (Conv c f # ps)) (length pre) nstr vec e out
       = parse_pattern ((pre @ piece_text (Conv c f)) @ pieces_text ps)
           (length (pre @ piece_text (Conv c f))) []
           (vec @ flush_text nstr @ [piece_token (Conv c f)]) e out"
proof -
  let ?p = "pre @ pieces_text (Conv c f # ps)"
  obtain a c' where c: "c = a # c'" "is_alpha a"
    using wf by (cases c; cases f) auto
  have i: "Suc (length pre) = length (pre @ ''%'')" by simp
  have scan: "scan_spec ?p (length pre) (length pre + 1) [] [] 0 0
      = (length (pre @ piece_text (Conv c f)), c, (case f of None \<Rightarrow> [] | Some a \<Rightarrow> a), 0)"
  proof (cases f)
    case None
    then show ?thesis
      using scan_plain_conversion [of ?p "pre @ ''%''" c "pieces_text ps", OF _ i] wf by simp
  next
    case (Some g)
    then show ?thesis
      using scan_conversion_with_argument [of ?p "pre @ ''%''" c g "pieces_text ps", OF _ i] wf
      by simp
  qed
  have "a \<noteq> CHR ''%''" using c(2) percent_not_alpha by auto
  then show ?thesis
    using parse_conversion [OF _ _ _ scan, of nstr vec e out] c(1)
    by (cases f) (simp_all add: nth_append)
qed

lemma parse_pieces:
  "wf_pieces ps \<Longrightarrow> (starts_with_lit ps \<Longrightarrow> nstr = []) \<Longrightarrow>
   parse_pattern (pre @ pieces_text ps) (length pre) nstr vec e out
     = (vec @ flush_text nstr @ map piece_token ps, e, out)"
proof (induction ps arbitrary: pre nstr vec)
  case Nil
  then show ?case by (simp add: parse_end)
next
  case (Cons q ps)
  show ?case
  proof (cases q)
    case (Lit s)
    have "parse_pattern (pre @ pieces_text (q # ps)) (length pre) nstr vec e out
        = parse_pattern ((pre @ s) @ pieces_text ps) (length (pre @ s)) s vec e out"
      using Cons.prems parse_literal [of s pre "pieces_text ps" nstr vec e out]
      by (simp add: Lit)
    also have "\<dots> = (vec @ flush_text s @ map piece_token ps, e, out)"
      by (rule Cons.IH) (use Cons.prems Lit in auto)
    finally show ?thesis using Cons.prems Lit by (simp add: flush_text_def)
  next
    case (Conv c f)
    have wf: "wf_pieces ps" using Cons.prems(1) Conv by (cases f) auto
    show ?thesis
      unfolding Conv parse_conversion_piece [OF Cons.prems(1) [unfolded Conv]]
      by (subst Cons.IH [OF wf]) (simp_all add: flush_text_def)
  qed
qed

definition known_conversion :: "piece \<Rightarrow> bool" where
  "known_conversion q = (case q of Lit s \<Rightarrow> True | Conv c f \<Rightarrow> c \<in> set (map fst S_FormatItems))"

definition piece_item :: "piece \<Rightarrow> format_item" where
  "piece_item q = fst (token_item (piece_token q))"

lemma token_item_known:
  "snd (token_item (piece_token q)) \<longleftrightarrow> \<not> known_conversion q"
  by (cases q) (auto simp: known_conversion_def map_of_eq_None_iff split: option.splits
      dest: map_of_SomeD intro: rev_image_eqI)

text \<open>C23: compiling a pattern is the inverse of writing it: for every well-formed sequence of pieces,
  the constructor of \<open>LogFormatter\<close> run on its text makes exactly one item per piece, in order,
  writes nothing to the standard output, and raises the error flag exactly when some conversion
  is not in the table.\<close>

theorem compile_pieces:
  assumes "wf_pieces ps"
  shows "new_LogFormatter (pieces_text ps)
       = (\<lparr>fm_pattern = pieces_text ps, fm_items = map piece_item ps,
           fm_error = list_ex (\<lambda>q. \<not> known_conversion q) ps\<rparr>, [])"
proof -
  have "parse_pattern (pieces_text ps) 0 [] [] False [] = (map piece_token ps, False, [])"
    using parse_pieces [OF assms, of "[]" "[]" "[]" False "[]"] by (simp add: flush_text_def)
  then show ?thesis
    by (simp add: new_LogFormatter_def make_items_def piece_item_def comp_def token_item_known
        list_ex_iff)
qed

theorem compile_pieces_witness:
  "wf_pieces [Conv ''d'' (Some ''%H''), Lit ''[x] '', Conv ''q'' None, Conv ''m'' None] \<and>
   new_LogFormatter ''%d{%H}[x] %q%m''
     = (\<lparr>fm_pattern = ''%d{%H}[x] %q%m'',
         fm_items = [DateTimeFormatItem ''%H'', StringFormatItem ''[x] '',
                     StringFormatItem ''<<error_format %q>>'', MessageFormatItem],
         fm_error = True\<rparr>, [])"
proof -
  let ?ps = "[Conv ''d'' (Some ''%H''), Lit ''[x] '', Conv ''q'' None, Conv ''m'' None]"
  have wf: "wf_pieces ?ps" by code_simp
  show ?thesis
    using wf compile_pieces [OF wf]
    by (simp add: piece_item_def known_conversion_def S_FormatItems_def new_DateTimeFormatItem_def)
qed

subsection \<open>Errors persist, and the doubled percent sign\<close>

lemma parse_pattern_rule [case_names at_end plain conversion unclosed]:
  assumes "\<And>i nstr vec e out. length p \<le> i \<Longrightarrow> P i nstr vec e out (vec @ flush_text nstr, e, out)"
    and "\<And>i nstr vec e out r. i < length p \<Longrightarrow> P (i + 1) (nstr @ [p ! i]) vec e out r \<Longrightarrow> P i nstr vec e out r"
    and "\<And>i n nstr str fmt vec e out r. i < n \<Longrightarrow> n \<le> length p \<Longrightarrow>
      P n [] (vec @ flush_text nstr @ [(str, fmt, 1)]) e out r \<Longrightarrow> P i nstr vec e out r"
    and "\<And>i nstr fmt vec e out r. i < length p \<Longrightarrow>
      P (i + 1) nstr (vec @ [(''<<pattern_error>>'', fmt, 0)]) True (out @ parse_error_line p i) r \<Longrightarrow> P i nstr vec e out r"
  shows "P i nstr vec e out (parse_pattern p i nstr vec e out)"
proof (induction "length p - i" arbitrary: i nstr vec e out rule: less_induct)
  case less
  show ?case
  proof (cases "i < length p")
    case False
    then show ?thesis using assms(1) by (simp add: parse_end)
  next
    case i: True
    obtain n str fmt st where sc: "scan_spec p i (i + 1) [] [] 0 0 = (n, str, fmt, st)"
      by (cases "scan_spec p i (i + 1) [] [] 0 0") auto
    have n: "i < n" "n \<le> length p" and st: "st \<le> 1"
      using scan_spec_progress [of n "(str, fmt, st)" p i "[]" "[]" 0 0] scan_spec_bound [of "i + 1" p i "[]" "[]" 0 0]
        scan_spec_status [of 0 p i "i + 1" "[]" "[]" 0] sc i by simp_all
    consider "p ! i \<noteq> CHR ''%'' \<or> i + 1 < length p \<and> p ! (i + 1) = CHR ''%''"
      | "p ! i = CHR ''%''" "i + 1 < length p \<Longrightarrow> p ! (i + 1) \<noteq> CHR ''%''" "st = 0"
      | "p ! i = CHR ''%''" "i + 1 < length p \<Longrightarrow> p ! (i + 1) \<noteq> CHR ''%''" "st = 1"
      using st by fastforce
    then show ?thesis
    proof cases
      case 1
      then have "parse_pattern p i nstr vec e out = parse_pattern p (i + 1) (nstr @ [p ! i]) vec e out"
        using parse_text [OF i] parse_percent [OF i] by (cases "p ! i = CHR ''%''") simp_all
      then show ?thesis using less [of "i + 1"] i assms(2) by simp
    next
      case 2
      have "P n [] (vec @ flush_text nstr @ [(str, fmt, 1)]) e out
          (parse_pattern p n [] (vec @ flush_text nstr @ [(str, fmt, 1)]) e out)" using less i n by simp
      from assms(3) [OF n this] show ?thesis using parse_conversion [OF i 2(1,2)] sc 2(3) by simp
    next
      case 3
      have "P (i + 1) nstr (vec @ [(''<<pattern_error>>'', fmt, 0)]) True (out @ parse_error_line p i)
          (parse_pattern p (i + 1) nstr (vec @ [(''<<pattern_error>>'', fmt, 0)]) True (out @ parse_error_line p i))"
        using less i by simp
      from assms(4) [OF i this] show ?thesis using parse_unclosed [OF i 3(1,2)] sc 3(3) by simp
    qed
  qed
qed

lemma parse_pattern_extends:
  assumes "parse_pattern p i nstr vec e out = (vec', e', out')"
  shows "(\<exists>ts. vec' = vec @ ts) \<and> (e \<longrightarrow> e') \<and> (\<not> e' \<longrightarrow> out' = out)"
proof -
  have "case parse_pattern p i nstr vec e out of (vec', e', out') \<Rightarrow>
    (\<exists>ts. vec' = vec @ ts) \<and> (e \<longrightarrow> e') \<and> (\<not> e' \<longrightarrow> out' = out)"
    by (rule parse_pattern_rule) auto
  then show ?thesis using assms by simp
qed

lemma accepted_pattern_is_silent:
  "\<not> fm_error (fst (new_LogFormatter p)) \<Longrightarrow> snd (new_LogFormatter p) = []"
  using parse_pattern_extends [of p 0 "[]" "[]" False "[]"]
  by (auto simp: new_LogFormatter_def make_items_def split: prod.splits)

lemma unknown_token_error:
  "(str, fmt, 1) \<in> set vec \<Longrightarrow> map_of S_FormatItems str = None \<Longrightarrow> snd (make_items vec e)"
  by (force simp: make_items_def list_ex_iff)

text \<open>The doubled percent sign is not an escape: text without percent signs, then two percent
  signs, then anything that starts with neither a letter, a brace nor a percent sign (or nothing at
  all) is rejected, because the second sign is read again as the start of a conversion with an empty
  name.\<close>

theorem double_percent_rejected:
  assumes "CHR ''%'' \<notin> set s" and "spec_boundary rest" and "take 1 rest \<noteq> ''%''"
  shows "fm_error (fst (new_LogFormatter (s @ ''%%'' @ rest)))"
proof -
  let ?p = "s @ ''%%'' @ rest"
  let ?i = "length s + 1"
  have sc: "scan_spec ?p ?i (?i + 1) [] [] 0 0 = (?i + 1, [], [], 0)"
  proof (cases rest)
    case Nil
    then show ?thesis by (simp add: scan_end)
  next
    case (Cons r rs)
    then show ?thesis using assms(2) scan_stop [of "?i + 1" ?p ?i "[]" "[]" 0]
      by (simp add: spec_boundary_def nth_append substr_def)
  qed
  have "parse_pattern ?p 0 [] [] False [] = parse_pattern ?p (length s) s [] False []"
    using parse_literal [OF assms(1), of "[]" "''%%'' @ rest" "[]"] by simp
  also have "\<dots> = parse_pattern ?p ?i (s @ ''%'') [] False []"
    by (rule parse_percent) (simp_all add: nth_append)
  also have "\<dots> = parse_pattern ?p (?i + 1) [] (flush_text (s @ ''%'') @ [([], [], 1)]) False []"
    using parse_conversion [OF _ _ _ sc, of "s @ ''%''" "[]" False "[]"] assms(3)
    by (cases rest) (auto simp: nth_append)
  finally obtain vec e out ts where
    "parse_pattern ?p 0 [] [] False [] = (flush_text (s @ ''%'') @ ([], [], 1) # ts, e, out)"
    using parse_pattern_extends
      [of ?p "?i + 1" "[]" "flush_text (s @ ''%'') @ [([], [], 1)]" False "[]"]
    by (cases "parse_pattern ?p 0 [] [] False []") auto
  then show ?thesis
    using unknown_token_error [of "[]" "[]" "flush_text (s @ ''%'') @ ([], [], 1) # ts" e]
    by (auto simp: new_LogFormatter_def S_FormatItems_def split: prod.splits)
qed

theorem double_percent_rejected_witness:
  "fm_error (fst (new_LogFormatter (''load 100'' @ ''%%'' @ '' done'')))"
  by (rule double_percent_rejected) code_simp+

subsection \<open>How large a compiled pattern is\<close>

text \<open>Every token uses up at least one character, of the pending text or of the rest of the pattern, and
  so does every message.\<close>

definition pending :: "string \<Rightarrow> nat" where
  "pending nstr = (if nstr = [] then 0 else 1)"

definition sized :: "string \<Rightarrow> nat \<Rightarrow> string \<Rightarrow> token list \<Rightarrow> string \<Rightarrow> token list \<times> bool \<times> string \<Rightarrow> bool" where
  "sized p i nstr vec out r \<longleftrightarrow> (case r of (vec', e', out') \<Rightarrow>
     length vec' \<le> length vec + pending nstr + (length p - i) \<and>
     length out' \<le> length out + (length p - i) * (2 * length p + 25))"

lemma sized_step:
  assumes "sized p j nstr1 vec1 out1 r" "i < j" "j \<le> length p"
    and "length vec1 + pending nstr1 < length vec + pending nstr + (j - i) + 1"
    and "length out1 \<le> length out + (2 * length p + 25)"
  shows "sized p i nstr vec out r"
proof -
  define B where "B = 2 * length p + 25"
  have "B \<le> (j - i) * B" using assms(2) by (cases "j - i") simp_all
  moreover have "(length p - i) * B = (length p - j) * B + (j - i) * B"
    using assms(2,3) by (simp flip: add_mult_distrib)
  ultimately have "length out1 + (length p - j) * B \<le> length out + (length p - i) * B"
    using assms(5) unfolding B_def [symmetric] by linarith
  moreover have "length vec1 + pending nstr1 + (length p - j) \<le> length vec + pending nstr + (length p - i)"
    using assms(2-4) by simp
  ultimately show ?thesis using assms(1) by (cases r) (simp add: sized_def flip: B_def)
qed

lemma parse_pattern_size: "sized p i nstr vec out (parse_pattern p i nstr vec e out)"
proof (rule parse_pattern_rule [where P = "\<lambda>i nstr vec e out r. sized p i nstr vec out r" and p = p], goal_cases)
  case 1
  then show ?case by (simp add: sized_def flush_text_def pending_def)
next
  case 2
  show ?case by (rule sized_step [OF 2(2)]) (use 2(1) in \<open>simp_all add: pending_def\<close>)
next
  case 3
  show ?case by (rule sized_step [OF 3(3)]) (use 3(1,2) in \<open>auto simp: pending_def flush_text_def\<close>)
next
  case 4
  show ?case by (rule sized_step [OF 4(2)]) (use 4(1) in \<open>simp_all add: parse_error_line_def newline_def\<close>)
qed

text \<open>C24: compiling a pattern takes no more room than the pattern calls for, whatever its text: the
  formatter has at most as many items as the pattern has characters, and the messages about
  unclosed braces, each of which quotes the pattern and its rest, are together at most quadratic in
  its length; an accepted pattern gives no message.\<close>

theorem compiled_size:
  "length (fm_items (fst (new_LogFormatter p))) \<le> length p \<and>
   length (snd (new_LogFormatter p)) \<le> length p * (2 * length p + 25) \<and>
   (snd (new_LogFormatter p) \<noteq> [] \<longrightarrow> fm_error (fst (new_LogFormatter p)))"
  using parse_pattern_size [of p 0 "[]" "[]" "[]" False] accepted_pattern_is_silent [of p]
  by (auto simp: new_LogFormatter_def make_items_def sized_def pending_def split: prod.splits)

theorem compiled_size_witness:
  "snd (new_LogFormatter ''%d{%c'') \<noteq> [] \<and> length (fm_items (fst (new_LogFormatter ''%d{%c''))) \<le> 5 \<and>
   fm_error (fst (new_LogFormatter ''%d{%c''))"
proof -
  have "snd (new_LogFormatter ''%d{%c'') \<noteq> []" by code_simp
  then show ?thesis using compiled_size [of "''%d{%c''"] by simp
qed

end
