(* ===== verification/LogEvent.thy ===== *)
theory LogEvent
  imports LogLevel LogPattern
begin

text \<open>
  Log events and the rendering of an event by a formatter: the classes \<open>LogEvent\<close> and
  \<open>LogFormatter\<close> (its \<open>format\<close> and the \<open>FormatItem\<close> classes) of \<open>primo/log/Logger.h\<close> and
  \<open>primo/log/Logger.cpp\<close>. A logger is named by its number in the store of loggers (theory
  \<open>LogSystem\<close>); the functions here take the map from numbers to names.
\<close>

record log_event =
  ev_file :: string
  ev_line :: u32
  ev_elapse :: u32
  ev_thread_id :: u32
  ev_fiber_id :: u32
  ev_time :: u64
  ev_thread_name :: string
  ev_content :: string
  ev_logger :: nat
  ev_level :: level

definition new_LogEvent ::
  "nat \<Rightarrow> level \<Rightarrow> string \<Rightarrow> u32 \<Rightarrow> u32 \<Rightarrow> u32 \<Rightarrow> u32 \<Rightarrow> u64 \<Rightarrow> string \<Rightarrow> log_event" where
  "new_LogEvent logger level file line elapse thread_id fiber_id time thread_name =
     \<lparr>ev_file = file, ev_line = line, ev_elapse = elapse, ev_thread_id = thread_id,
      ev_fiber_id = fiber_id, ev_time = time, ev_thread_name = thread_name, ev_content = [],
      ev_logger = logger, ev_level = level\<rparr>"

text \<open>Writing to the event's stream appends to its content.\<close>

definition event_write :: "string \<Rightarrow> log_event \<Rightarrow> log_event" where
  "event_write s ev = ev\<lparr>ev_content := ev_content ev @ s\<rparr>"

text \<open>\<open>LogEvent::format\<close>: \<open>vasprintf\<close> is a parameter, \<open>None\<close> being its error result \<open>-1\<close>.\<close>

definition event_format ::
  "(string \<Rightarrow> 'args \<Rightarrow> string option) \<Rightarrow> string \<Rightarrow> 'args \<Rightarrow> log_event \<Rightarrow> log_event" where
  "event_format vasprintf fmt arg ev =
     (case vasprintf fmt arg of None \<Rightarrow> ev | Some buf \<Rightarrow> event_write buf ev)"

text \<open>
  \<open>FormatItem::format\<close>. \<open>strftime\<close> stands for \<open>localtime_r\<close> followed by \<open>strftime\<close> into the buffer
  of 64 bytes; \<open>names\<close> gives the name of a logger. The level printed is the one passed down with
  the event, the logger name is the one of the event's own logger.
\<close>

fun item_format ::
  "(string \<Rightarrow> u64 \<Rightarrow> string) \<Rightarrow> (nat \<Rightarrow> string) \<Rightarrow> level \<Rightarrow> log_event \<Rightarrow> format_item \<Rightarrow> string" where
  "item_format strftime names level ev MessageFormatItem = ev_content ev"
| "item_format strftime names level ev LevelFormatItem = level_to_string level"
| "item_format strftime names level ev ElapseFormatItem = show_nat (unat (ev_elapse ev))"
| "item_format strftime names level ev NameFormatItem = names (ev_logger ev)"
| "item_format strftime names level ev ThreadIdFormatItem = show_nat (unat (ev_thread_id ev))"
| "item_format strftime names level ev FiberIdFormatItem = show_nat (unat (ev_fiber_id ev))"
| "item_format strftime names level ev ThreadNameFormatItem = ev_thread_name ev"
| "item_format strftime names level ev (DateTimeFormatItem fmt) = strftime fmt (ev_time ev)"
| "item_format strftime names level ev FilenameFormatItem = ev_file ev"
| "item_format strftime names level ev LineFormatItem = show_nat (unat (ev_line ev))"
| "item_format strftime names level ev NewLineFormatItem = newline"
| "item_format strftime names level ev (StringFormatItem s) = s"
| "item_format strftime names level ev TabFormatItem = tab"

definition formatter_format ::
  "(string \<Rightarrow> u64 \<Rightarrow> string) \<Rightarrow> (nat \<Rightarrow> string) \<Rightarrow> formatter \<Rightarrow> level \<Rightarrow> log_event \<Rightarrow> string" where
  "formatter_format strftime names fm level ev =
     concat (map (item_format strftime names level ev) (fm_items fm))"

subsection \<open>The default pattern\<close>

text \<open>The pattern every \<open>Logger\<close> is created with.\<close>

definition default_pattern :: string where
  "default_pattern = ''%d{%Y-%m-%d %H:%M:%S}%T%t%T%N%T%F%T[%p]%T[%c]%T%f:%l%T%m%n''"

definition default_pieces :: "piece list" where
  "default_pieces =
     [Conv ''d'' (Some ''%Y-%m-%d %H:%M:%S''), Conv ''T'' None, Conv ''t'' None, Conv ''T'' None,
      Conv ''N'' None, Conv ''T'' None, Conv ''F'' None, Conv ''T'' None, Lit ''['',
      Conv ''p'' None, Lit '']'', Conv ''T'' None, Lit ''['', Conv ''c'' None, Lit '']'',
      Conv ''T'' None, Conv ''f'' None, Lit '':'', Conv ''l'' None, Conv ''T'' None,
      Conv ''m'' None, Conv ''n'' None]"

definition default_formatter :: formatter where
  "default_formatter = fst (new_LogFormatter default_pattern)"

lemma default_pieces_text: "pieces_text default_pieces = default_pattern"
  by (simp add: default_pieces_def default_pattern_def)

lemma default_pieces_wf: "wf_pieces default_pieces"
  by code_simp

lemma default_tokens:
  "parse_pattern default_pattern 0 [] [] False [] = (map piece_token default_pieces, False, [])"
  using parse_pieces [OF default_pieces_wf, of "[]" "[]" "[]" False "[]"]
  by (simp add: flush_text_def default_pieces_text)

lemma default_formatter_eq:
  "new_LogFormatter default_pattern
     = (\<lparr>fm_pattern = default_pattern, fm_items = map piece_item default_pieces, fm_error = False\<rparr>, [])"
proof -
  have "list_all known_conversion default_pieces" by code_simp
  then show ?thesis
    by (simp add: new_LogFormatter_def default_tokens make_items_def piece_item_def comp_def
        token_item_known list_ex_iff list_all_iff)
qed

lemma default_formatter_valid [simp]: "fm_error default_formatter = False"
  by (simp add: default_formatter_def default_formatter_eq)

text \<open>The line a logger writes by default: the default pattern compiles without error, and
  rendering an event with it gives the date, thread id, thread name, fiber id, level, logger name,
  file, line and content, separated by tabs as the pattern says, and a newline.\<close>

theorem default_line:
  "\<not> fm_error default_formatter \<and>
   formatter_format strftime names default_formatter level ev =
     strftime ''%Y-%m-%d %H:%M:%S'' (ev_time ev) @ tab @ show_nat (unat (ev_thread_id ev)) @ tab @
     ev_thread_name ev @ tab @ show_nat (unat (ev_fiber_id ev)) @ tab @
     ''['' @ level_to_string level @ '']'' @ tab @ ''['' @ names (ev_logger ev) @ '']'' @ tab @
     ev_file ev @ '':'' @ show_nat (unat (ev_line ev)) @ tab @ ev_content ev @ newline"
  by (simp add: default_formatter_def default_formatter_eq formatter_format_def default_pieces_def
      piece_item_def S_FormatItems_def new_DateTimeFormatItem_def)

end
