(* ===== verification/LogSystem.thy ===== *)
theory LogSystem
  imports LogEvent StdMap Yaml
begin

text \<open>
  Appenders, loggers and the logger manager: \<open>LogAppender\<close>, \<open>StdOutAppender\<close>, \<open>FileAppender\<close>,
  \<open>Logger\<close> and \<open>LoggerMgr\<close> of \<open>primo/log/Logger.h\<close> and \<open>primo/log/Logger.cpp\<close>. Loggers and appenders
  are shared by pointer, so they live in the two stores of \<open>log_state\<close> and are named by their
  index; formatters are never changed once built and are kept by value (\<open>None\<close> is the null
  pointer). A logger's spin lock is not recursive: \<open>logger_log\<close> carries the loggers whose lock the
  calling thread holds and a second lock of one of them is the fault \<open>Deadlock\<close>.
\<close>

subsection \<open>File streams\<close>

text \<open>
  \<open>std::ofstream\<close>: whether a file is open, whether the stream is in a failed state, and what this
  stream has written since it opened the file. Opening for output empties the file; which files
  can be opened is a parameter.
\<close>

record ofstream =
  os_open :: bool
  os_fail :: bool
  os_data :: string

definition new_ofstream :: ofstream where
  "new_ofstream = \<lparr>os_open = False, os_fail = False, os_data = []\<rparr>"

definition os_close :: "ofstream \<Rightarrow> ofstream" where
  "os_close os = (if os_open os then os\<lparr>os_open := False\<rparr> else os\<lparr>os_fail := True\<rparr>)"

definition os_open_file :: "(string \<Rightarrow> bool) \<Rightarrow> string \<Rightarrow> ofstream \<Rightarrow> ofstream" where
  "os_open_file can_open name os =
     (if os_open os \<or> \<not> can_open name then os\<lparr>os_fail := True\<rparr>
      else \<lparr>os_open = True, os_fail = False, os_data = []\<rparr>)"

definition os_write :: "string \<Rightarrow> ofstream \<Rightarrow> ofstream" where
  "os_write s os =
     (if os_fail os then os
      else if os_open os \<or> s = [] then os\<lparr>os_data := os_data os @ s\<rparr>
      else os\<lparr>os_fail := True\<rparr>)"

subsection \<open>Appenders\<close>

datatype sink =
    StdOutAppender
  | FileAppender (fa_name: string) (fa_stream: ofstream) (fa_last: u64)

record appender =
  ap_level :: level
  ap_has_formatter :: bool
  ap_formatter :: "formatter option"
  ap_sink :: sink

record log_env =
  le_strftime :: "string \<Rightarrow> u64 \<Rightarrow> string"
  le_can_open :: "string \<Rightarrow> bool"

definition new_StdOutAppender :: appender where
  "new_StdOutAppender =
     \<lparr>ap_level = DEBUG, ap_has_formatter = False, ap_formatter = None, ap_sink = StdOutAppender\<rparr>"

definition ReOpen :: "log_env \<Rightarrow> string \<Rightarrow> ofstream \<Rightarrow> ofstream" where
  "ReOpen env name os =
     (let os = (if os_fail os then os else os_close os)
      in os_open_file (le_can_open env) name os)"

text \<open>The constructor opens the file; \<open>mLastTime\<close> is not initialised, its value is the argument
  \<open>junk\<close>.\<close>

definition new_FileAppender :: "log_env \<Rightarrow> u64 \<Rightarrow> string \<Rightarrow> appender" where
  "new_FileAppender env junk name =
     \<lparr>ap_level = DEBUG, ap_has_formatter = False, ap_formatter = None,
      ap_sink = FileAppender name (ReOpen env name new_ofstream) junk\<rparr>"

definition appender_set_level :: "level \<Rightarrow> appender \<Rightarrow> appender" where
  "appender_set_level l ap = ap\<lparr>ap_level := l\<rparr>"

definition appender_GetLevel :: "appender \<Rightarrow> level" where
  [simp]: "appender_GetLevel ap = ap_level ap"

text \<open>\<open>FileAppender::SetName\<close> and \<open>GetName\<close>: the open file stays the one under the old name.\<close>

fun file_SetName :: "string \<Rightarrow> sink \<Rightarrow> sink" where
  "file_SetName name (FileAppender _ os t) = FileAppender name os t"
| "file_SetName name StdOutAppender = StdOutAppender"

definition file_GetName :: "sink \<Rightarrow> string" where
  [simp]: "file_GetName s = fa_name s"

definition appender_GetFormatter :: "appender \<Rightarrow> formatter option" where
  [simp]: "appender_GetFormatter ap = ap_formatter ap"

definition appender_set_formatter :: "formatter option \<Rightarrow> appender \<Rightarrow> appender" where
  "appender_set_formatter val ap = ap\<lparr>ap_formatter := val, ap_has_formatter := (val \<noteq> None)\<rparr>"

text \<open>The virtual \<open>Log\<close> of the two appenders: the appender afterwards and what is written to the
  standard output. The formatter is dereferenced without a check.\<close>

definition stdout_log ::
  "log_env \<Rightarrow> (nat \<Rightarrow> string) \<Rightarrow> level \<Rightarrow> log_event \<Rightarrow> appender \<Rightarrow> (appender \<times> string) outcome" where
  "stdout_log env names level ev ap =
     (if ap_level ap \<le> level then
        (case ap_formatter ap of
           None \<Rightarrow> Inl Null_deref
         | Some fm \<Rightarrow> Inr (ap, formatter_format (le_strftime env) names fm level ev @ newline))
      else Inr (ap, []))"

definition file_log ::
  "log_env \<Rightarrow> (nat \<Rightarrow> string) \<Rightarrow> level \<Rightarrow> log_event \<Rightarrow> string \<Rightarrow> ofstream \<Rightarrow> u64 \<Rightarrow> appender
     \<Rightarrow> (appender \<times> string) outcome" where
  "file_log env names level ev name os mLastTime ap =
     (if ap_level ap \<le> level then
        (let now = ev_time ev;
             (os, mLastTime) = (if mLastTime + 3 \<le> now then (ReOpen env name os, now) else (os, mLastTime))
         in case ap_formatter ap of
              None \<Rightarrow> Inl Null_deref
            | Some fm \<Rightarrow>
                (let os = os_write (formatter_format (le_strftime env) names fm level ev) os
                 in Inr (ap\<lparr>ap_sink := FileAppender name os mLastTime\<rparr>,
                         if os_fail os then ''error'' @ newline else [])))
      else Inr (ap, []))"

definition appender_log ::
  "log_env \<Rightarrow> (nat \<Rightarrow> string) \<Rightarrow> level \<Rightarrow> log_event \<Rightarrow> appender \<Rightarrow> (appender \<times> string) outcome" where
  "appender_log env names level ev ap =
     (case ap_sink ap of
        StdOutAppender \<Rightarrow> stdout_log env names level ev ap
      | FileAppender name os mLastTime \<Rightarrow> file_log env names level ev name os mLastTime ap)"

text \<open>The YAML node each appender describes itself with.\<close>

definition level_entry :: "string \<Rightarrow> level \<Rightarrow> (string \<times> ynode) list" where
  "level_entry key l = (if l = UNKNOW then [] else [(key, YScalar (level_to_string l))])"

definition appender_node :: "appender \<Rightarrow> ynode" where
  "appender_node ap = ymap
     ([(''type'', YScalar (case ap_sink ap of
          StdOutAppender \<Rightarrow> ''StdOutAppender'' | FileAppender _ _ _ \<Rightarrow> ''FileAppender''))] @
      level_entry ''level'' (ap_level ap) @
      (case ap_formatter ap of
         Some fm \<Rightarrow> if ap_has_formatter ap then [(''formatter'', YScalar (fm_pattern fm))] else []
       | None \<Rightarrow> []))"

definition appender_ToYamlString :: "yaml_lib \<Rightarrow> appender \<Rightarrow> string" where
  "appender_ToYamlString lib ap = y_dump lib (appender_node ap)"

subsection \<open>Loggers and the manager\<close>

record logger =
  lg_name :: string
  lg_level :: level
  lg_appenders :: "nat list"
  lg_formatter :: "formatter option"
  lg_root :: "nat option"

record log_state =
  ls_loggers :: "logger list"
  ls_appenders :: "appender list"
  ls_mgr :: "(string \<times> nat) list"
  ls_root :: nat
  ls_cout :: string

definition new_Logger :: "string \<Rightarrow> logger" where
  "new_Logger name =
     \<lparr>lg_name = name, lg_level = INFO, lg_appenders = [],
      lg_formatter = Some default_formatter, lg_root = None\<rparr>"

definition logger_name :: "log_state \<Rightarrow> nat \<Rightarrow> string" where
  "logger_name st lid = lg_name (ls_loggers st ! lid)"

definition upd_logger :: "nat \<Rightarrow> (logger \<Rightarrow> logger) \<Rightarrow> log_state \<Rightarrow> log_state" where
  "upd_logger lid f st = st\<lparr>ls_loggers := (ls_loggers st)[lid := f (ls_loggers st ! lid)]\<rparr>"

definition upd_appender :: "nat \<Rightarrow> (appender \<Rightarrow> appender) \<Rightarrow> log_state \<Rightarrow> log_state" where
  "upd_appender aid f st = st\<lparr>ls_appenders := (ls_appenders st)[aid := f (ls_appenders st ! aid)]\<rparr>"

definition add_cout :: "string \<Rightarrow> log_state \<Rightarrow> log_state" where
  "add_cout s st = st\<lparr>ls_cout := ls_cout st @ s\<rparr>"

definition alloc_appender :: "appender \<Rightarrow> log_state \<Rightarrow> nat \<times> log_state" where
  "alloc_appender ap st = (length (ls_appenders st), st\<lparr>ls_appenders := ls_appenders st @ [ap]\<rparr>)"

definition AddAppender :: "nat \<Rightarrow> nat \<Rightarrow> log_state \<Rightarrow> log_state" where
  "AddAppender lid aid st =
     (let lg = ls_loggers st ! lid;
          st = (if appender_GetFormatter (ls_appenders st ! aid) = None
                then upd_appender aid (\<lambda>ap. ap\<lparr>ap_formatter := lg_formatter lg\<rparr>) st else st)
      in upd_logger lid (\<lambda>lg. lg\<lparr>lg_appenders := lg_appenders lg @ [aid]\<rparr>) st)"

definition DelAppender :: "nat \<Rightarrow> nat \<Rightarrow> log_state \<Rightarrow> log_state" where
  "DelAppender lid aid st = upd_logger lid (\<lambda>lg. lg\<lparr>lg_appenders := remove1 aid (lg_appenders lg)\<rparr>) st"

definition ClearAppenders :: "nat \<Rightarrow> log_state \<Rightarrow> log_state" where
  "ClearAppenders lid st = upd_logger lid (\<lambda>lg. lg\<lparr>lg_appenders := []\<rparr>) st"

definition logger_SetName :: "nat \<Rightarrow> string \<Rightarrow> log_state \<Rightarrow> log_state" where
  "logger_SetName lid name st = upd_logger lid (\<lambda>lg. lg\<lparr>lg_name := name\<rparr>) st"

definition GetFormatterPattern :: "nat \<Rightarrow> log_state \<Rightarrow> string outcome" where
  "GetFormatterPattern lid st =
     (case lg_formatter (ls_loggers st ! lid) of None \<Rightarrow> Inl Null_deref | Some fm \<Rightarrow> Inr (fm_pattern fm))"

definition logger_SetLevel :: "nat \<Rightarrow> level \<Rightarrow> log_state \<Rightarrow> log_state" where
  "logger_SetLevel lid l st = upd_logger lid (\<lambda>lg. lg\<lparr>lg_level := l\<rparr>) st"

definition inherit_formatter :: "formatter option \<Rightarrow> appender \<Rightarrow> appender" where
  "inherit_formatter val ap = (if ap_has_formatter ap then ap else ap\<lparr>ap_formatter := val\<rparr>)"

definition logger_SetFormatter :: "nat \<Rightarrow> formatter option \<Rightarrow> log_state \<Rightarrow> log_state" where
  "logger_SetFormatter lid val st =
     (let st = upd_logger lid (\<lambda>lg. lg\<lparr>lg_formatter := val\<rparr>) st
      in foldl (\<lambda>st aid. upd_appender aid (inherit_formatter val) st) st
           (lg_appenders (ls_loggers st ! lid)))"

definition logger_SetFormatter_pattern :: "nat \<Rightarrow> string \<Rightarrow> log_state \<Rightarrow> log_state" where
  "logger_SetFormatter_pattern lid val st =
     (case new_LogFormatter val of (new_val, cout) \<Rightarrow>
        (let st = add_cout cout st
         in if fm_error new_val
            then add_cout (''Logger SetFormatter name = '' @ logger_name st lid @ '' value = '' @ val
                             @ '' invalid formatter'' @ newline) st
            else logger_SetFormatter lid (Some new_val) st))"

text \<open>The loop of \<open>Logger::Log\<close> over the appenders.\<close>

fun log_appenders ::
  "log_env \<Rightarrow> nat list \<Rightarrow> level \<Rightarrow> log_event \<Rightarrow> log_state \<Rightarrow> log_state outcome" where
  "log_appenders env [] level ev st = Inr st"
| "log_appenders env (aid # aids) level ev st =
     obind (appender_log env (logger_name st) level ev (ls_appenders st ! aid))
       (\<lambda>(ap, out). log_appenders env aids level ev (add_cout out (upd_appender aid (\<lambda>_. ap) st)))"

text \<open>\<open>Logger::Log\<close>: the level is tested before the lock is taken; a logger without appenders passes
  the event on to the root logger while it holds its own lock.\<close>

function logger_log ::
  "log_env \<Rightarrow> nat list \<Rightarrow> nat \<Rightarrow> level \<Rightarrow> log_event \<Rightarrow> log_state \<Rightarrow> log_state outcome" where
  "logger_log env held lid level ev st =
     (if lid < length (ls_loggers st) then
        (let lg = ls_loggers st ! lid in
         if lg_level lg \<le> level then
           if lid \<in> set held then Inl Deadlock
           else if lg_appenders lg \<noteq> [] then log_appenders env (lg_appenders lg) level ev st
           else (case lg_root lg of
                   None \<Rightarrow> Inr st
                 | Some r \<Rightarrow> logger_log env (lid # held) r level ev st)
         else Inr st)
      else Inl Null_deref)"
  by pat_completeness auto
termination
proof (relation "measure (\<lambda>(env, held, lid, level, ev, st).
    card ({..<length (ls_loggers st)} - set held))", goal_cases)
  case (2 env held lid level ev st x r)
  then have "{..<length (ls_loggers st)} - set (lid # held)
      \<subset> {..<length (ls_loggers st)} - set held" by auto
  then show ?case by (auto intro: psubset_card_mono)
qed simp

declare logger_log.simps [simp del]

abbreviation Log :: "log_env \<Rightarrow> nat \<Rightarrow> level \<Rightarrow> log_event \<Rightarrow> log_state \<Rightarrow> log_state outcome" where
  "Log env lid level ev st \<equiv> logger_log env [] lid level ev st"

text \<open>\<open>Logger::debug\<close> to \<open>Logger::fatal\<close>.\<close>

definition logger_debug :: "log_env \<Rightarrow> nat \<Rightarrow> log_event \<Rightarrow> log_state \<Rightarrow> log_state outcome" where
  "logger_debug env lid ev st = Log env lid DEBUG ev st"
definition logger_info :: "log_env \<Rightarrow> nat \<Rightarrow> log_event \<Rightarrow> log_state \<Rightarrow> log_state outcome" where
  "logger_info env lid ev st = Log env lid INFO ev st"
definition logger_warn :: "log_env \<Rightarrow> nat \<Rightarrow> log_event \<Rightarrow> log_state \<Rightarrow> log_state outcome" where
  "logger_warn env lid ev st = Log env lid WARN ev st"
definition logger_error :: "log_env \<Rightarrow> nat \<Rightarrow> log_event \<Rightarrow> log_state \<Rightarrow> log_state outcome" where
  "logger_error env lid ev st = Log env lid ERROR ev st"
definition logger_fatal :: "log_env \<Rightarrow> nat \<Rightarrow> log_event \<Rightarrow> log_state \<Rightarrow> log_state outcome" where
  "logger_fatal env lid ev st = Log env lid FATAL ev st"

end
