(* ===== verification/LogManager.thy ===== *)
theory LogManager
  imports LogSystem Registry
begin

text \<open>
  The logger manager (\<open>LoggerMgr\<close> of \<open>primo/log/Logger.h\<close> and \<open>primo/log/Logger.cpp\<close>), the logging
  macros of \<open>primo/log/Logger.h\<close>, the invariant of the logging state and its consequences: logging
  never faults, an event is routed to the appenders of its logger or of the root logger, and the
  manager hands out one logger per name.
\<close>

subsection \<open>Operations\<close>

text \<open>\<open>LoggerMgr::LoggerMgr\<close>.\<close>

definition init_log_state :: log_state where
  "init_log_state =
     (let st = \<lparr>ls_loggers = [new_Logger ''root''], ls_appenders = [], ls_mgr = [], ls_root = 0,
                ls_cout = []\<rparr>;
          (aid, st) = alloc_appender new_StdOutAppender st;
          st = AddAppender 0 aid st
      in st\<lparr>ls_mgr := smap_put (logger_name st 0) 0 (ls_mgr st)\<rparr>)"

definition GetRoot :: "log_state \<Rightarrow> nat" where
  "GetRoot st = ls_root st"

definition GetLogger :: "string \<Rightarrow> log_state \<Rightarrow> nat \<times> log_state" where
  "GetLogger name st =
     (case smap_find name (ls_mgr st) of
        Some lid \<Rightarrow> (lid, st)
      | None \<Rightarrow>
          (let lid = length (ls_loggers st);
               lg = (new_Logger name)\<lparr>lg_root := Some (ls_root st)\<rparr>
           in (lid, st\<lparr>ls_loggers := ls_loggers st @ [lg], ls_mgr := smap_put name lid (ls_mgr st)\<rparr>)))"

text \<open>
  The macro \<open>P_LOG_LEVEL\<close>: nothing is built below the logger's level; otherwise the text is written
  to the stream of a new event, which the destructor of \<open>LogEventWrap\<close> hands to the event's logger.
  \<open>P_LOGF_LEVEL\<close> fills the event with \<open>LogEvent::format\<close>. The file, line, thread id and time of the
  caller are arguments.
\<close>

record log_site =
  site_file :: string
  site_line :: u32
  site_thread :: u32
  site_time :: u64

definition GetFiberId :: u32 where
  "GetFiberId = 0"

definition macro_event :: "log_site \<Rightarrow> nat \<Rightarrow> level \<Rightarrow> log_event" where
  "macro_event site lid level =
     new_LogEvent lid level (site_file site) (site_line site) 0 (site_thread site) GetFiberId
       (site_time site) ''Test Thread''"

definition LogEventWrap_destroy :: "log_env \<Rightarrow> log_event \<Rightarrow> log_state \<Rightarrow> log_state outcome" where
  "LogEventWrap_destroy env ev st = Log env (ev_logger ev) (ev_level ev) ev st"

definition P_LOG ::
  "log_env \<Rightarrow> log_site \<Rightarrow> nat \<Rightarrow> level \<Rightarrow> string \<Rightarrow> log_state \<Rightarrow> log_state outcome" where
  "P_LOG env site lid level text st =
     (if lid < length (ls_loggers st) then
        if lg_level (ls_loggers st ! lid) \<le> level
        then LogEventWrap_destroy env (event_write text (macro_event site lid level)) st
        else Inr st
      else Inl Null_deref)"

definition P_LOGF ::
  "log_env \<Rightarrow> (string \<Rightarrow> 'args \<Rightarrow> string option) \<Rightarrow> log_site \<Rightarrow> nat \<Rightarrow> level \<Rightarrow> string \<Rightarrow> 'args
     \<Rightarrow> log_state \<Rightarrow> log_state outcome" where
  "P_LOGF env vasprintf site lid level fmt arg st =
     (if lid < length (ls_loggers st) then
        if lg_level (ls_loggers st ! lid) \<le> level
        then LogEventWrap_destroy env (event_format vasprintf fmt arg (macro_event site lid level)) st
        else Inr st
      else Inl Null_deref)"

text \<open>\<open>ToYamlString\<close> of a logger and of the manager; each nested description goes through its text.\<close>

definition logger_node :: "yaml_lib \<Rightarrow> log_state \<Rightarrow> nat \<Rightarrow> ynode outcome" where
  "logger_node lib st lid =
     (let lg = ls_loggers st ! lid in
      obind (omap (\<lambda>aid. y_load lib (appender_ToYamlString lib (ls_appenders st ! aid)))
               (lg_appenders lg))
        (\<lambda>apps. Inr (ymap
           ([(''name'', YScalar (lg_name lg))] @
            level_entry ''Level'' (lg_level lg) @
            (case lg_formatter lg of
               Some fm \<Rightarrow> [(''formatter'', YScalar (fm_pattern fm))] | None \<Rightarrow> []) @
            (if apps = [] then [] else [(''appenders'', YSeq apps)])))))"

definition logger_ToYamlString :: "yaml_lib \<Rightarrow> log_state \<Rightarrow> nat \<Rightarrow> string outcome" where
  "logger_ToYamlString lib st lid = obind (logger_node lib st lid) (\<lambda>n. Inr (y_dump lib n))"

definition mgr_ToYamlString :: "yaml_lib \<Rightarrow> log_state \<Rightarrow> string outcome" where
  "mgr_ToYamlString lib st =
     obind (omap (\<lambda>(name, lid). obind (logger_ToYamlString lib st lid) (y_load lib)) (ls_mgr st))
       (\<lambda>ns. Inr (y_dump lib (if ns = [] then YNull else YSeq ns)))"

subsection \<open>The invariant\<close>

text \<open>Every logger has a formatter, its appenders exist and have one, and it passes events on to the
  root logger or to nobody; the root logger passes them to nobody; the manager maps each name to an
  existing logger of its own, and \<open>root\<close> to the root logger.\<close>

definition attachable :: "log_state \<Rightarrow> nat \<Rightarrow> bool" where
  "attachable st aid \<longleftrightarrow>
     aid < length (ls_appenders st) \<and> ap_formatter (ls_appenders st ! aid) \<noteq> None"

definition wf_logger :: "log_state \<Rightarrow> logger \<Rightarrow> bool" where
  "wf_logger st lg \<longleftrightarrow>
     lg_formatter lg \<noteq> None \<and> list_all (attachable st) (lg_appenders lg) \<and>
     (lg_root lg = None \<or> lg_root lg = Some (ls_root st))"

definition wf_log :: "log_state \<Rightarrow> bool" where
  "wf_log st \<longleftrightarrow>
     list_all (wf_logger st) (ls_loggers st) \<and>
     ls_root st < length (ls_loggers st) \<and>
     lg_root (ls_loggers st ! ls_root st) = None \<and>
     smap_inv (ls_mgr st) \<and>
     list_all (\<lambda>(name, lid). lid < length (ls_loggers st)) (ls_mgr st) \<and>
     smap_find ''root'' (ls_mgr st) = Some (ls_root st) \<and>
     (\<forall>a b lid. smap_find a (ls_mgr st) = Some lid \<longrightarrow> smap_find b (ls_mgr st) = Some lid \<longrightarrow> a = b)"

lemma wf_log_logger: "wf_log st \<Longrightarrow> lid < length (ls_loggers st) \<Longrightarrow> wf_logger st (ls_loggers st ! lid)"
  by (auto simp: wf_log_def list_all_length)

lemma init_log_state_eq:
  "init_log_state =
     \<lparr>ls_loggers = [(new_Logger ''root'')\<lparr>lg_appenders := [0]\<rparr>],
      ls_appenders = [new_StdOutAppender\<lparr>ap_formatter := Some default_formatter\<rparr>],
      ls_mgr = [(''root'', 0)], ls_root = 0, ls_cout = []\<rparr>"
  by (simp add: init_log_state_def alloc_appender_def AddAppender_def upd_appender_def
      upd_logger_def new_StdOutAppender_def new_Logger_def logger_name_def smap_put_def)

lemma wf_init [wf_intros]: "wf_log init_log_state"
  by (simp add: init_log_state_eq wf_log_def wf_logger_def attachable_def new_Logger_def
      new_StdOutAppender_def smap_find_def split: if_splits)

text \<open>The two ways an operation can change the state: the loggers stay and the appenders keep their
  formatters, or one logger changes.\<close>

lemma wf_log_appenders:
  assumes wf: "wf_log st" and same: "ls_loggers st' = ls_loggers st" "ls_mgr st' = ls_mgr st"
    "ls_root st' = ls_root st" and att: "\<And>a. attachable st a \<Longrightarrow> attachable st' a"
  shows "wf_log st'"
proof -
  have "wf_logger st lg \<Longrightarrow> wf_logger st' lg" for lg
    using att same(3) by (auto simp: wf_logger_def elim: list.pred_mono_strong)
  then show ?thesis
    using wf same by (auto simp: wf_log_def elim: list.pred_mono_strong)
qed

lemma wf_upd_appender [wf_intros]:
  assumes "wf_log st" and f: "ap_formatter (ls_appenders st ! aid) \<noteq> None \<Longrightarrow>
    ap_formatter (f (ls_appenders st ! aid)) \<noteq> None"
  shows "wf_log (upd_appender aid f st)"
proof (rule wf_log_appenders [OF assms(1)])
  fix a
  assume "attachable st a"
  then show "attachable (upd_appender aid f st) a"
    using f by (cases "a = aid") (auto simp: attachable_def upd_appender_def)
qed (simp_all add: upd_appender_def)

lemma wf_alloc_appender [wf_intros]: "wf_log st \<Longrightarrow> wf_log (snd (alloc_appender ap st))"
  by (rule wf_log_appenders) (auto simp: alloc_appender_def attachable_def nth_append)

lemma wf_add_cout [wf_intros]: "wf_log st \<Longrightarrow> wf_log (add_cout s st)"
  by (rule wf_log_appenders) (auto simp: add_cout_def attachable_def)

lemma wf_logger_cong:
  "ls_appenders st' = ls_appenders st \<Longrightarrow> ls_root st' = ls_root st \<Longrightarrow> wf_logger st' = wf_logger st"
proof -
  assume *: "ls_appenders st' = ls_appenders st" "ls_root st' = ls_root st"
  then have "attachable st' = attachable st" by (simp add: attachable_def fun_eq_iff)
  with * show ?thesis by (intro ext) (simp add: wf_logger_def)
qed

lemma wf_upd_logger [wf_intros]:
  assumes wf: "wf_log st" and lid: "lid < length (ls_loggers st)"
    and f: "wf_logger st (f (ls_loggers st ! lid))"
    and root: "lg_root (f (ls_loggers st ! lid)) = lg_root (ls_loggers st ! lid)"
  shows "wf_log (upd_logger lid f st)"
proof -
  have same: "wf_logger (upd_logger lid f st) = wf_logger st"
    by (rule wf_logger_cong) (simp_all add: upd_logger_def)
  have "list_all (wf_logger st) ((ls_loggers st)[lid := f (ls_loggers st ! lid)])"
    using wf f by (auto simp: wf_log_def list_all_iff dest!: set_update_subset_insert [THEN subsetD])
  then show ?thesis
    using wf root unfolding wf_log_def same 
    by (cases "lid = ls_root st") (auto simp: upd_logger_def)
qed

text \<open>The operations of loggers and of the manager keep the invariant.\<close>

lemma wf_AddAppender [wf_intros]:
  assumes wf: "wf_log st" and lid: "lid < length (ls_loggers st)" and aid: "aid < length (ls_appenders st)"
  shows "wf_log (AddAppender lid aid st)"
proof -
  let ?lg = "ls_loggers st ! lid"
  let ?st = "if ap_formatter (ls_appenders st ! aid) = None
    then upd_appender aid (\<lambda>ap. ap\<lparr>ap_formatter := lg_formatter ?lg\<rparr>) st else st"
  have lg: "wf_logger st ?lg" using wf lid by (rule wf_log_logger)
  then have fm: "lg_formatter ?lg \<noteq> None" by (simp add: wf_logger_def)
  have wf': "wf_log ?st" using wf fm by (auto intro!: wf_upd_appender)
  have same: "ls_loggers ?st = ls_loggers st" by (simp add: upd_appender_def)
  have att: "attachable ?st aid" using aid fm by (auto simp: attachable_def upd_appender_def)
  have "wf_log (upd_logger lid (\<lambda>lg. lg\<lparr>lg_appenders := lg_appenders lg @ [aid]\<rparr>) ?st)"
    using wf_log_logger [OF wf', of lid] lid att
    by (intro wf_upd_logger [OF wf']) (auto simp: wf_logger_def same)
  then show ?thesis by (simp add: AddAppender_def Let_def)
qed

lemma wf_DelAppender [wf_intros]:
  "wf_log st \<Longrightarrow> lid < length (ls_loggers st) \<Longrightarrow> wf_log (DelAppender lid aid st)"
  unfolding DelAppender_def
  by (rule wf_upd_logger)
    (auto simp: wf_logger_def list_all_iff dest!: wf_log_logger
      dest: set_remove1_subset [THEN subsetD])

lemma wf_ClearAppenders [wf_intros]:
  "wf_log st \<Longrightarrow> lid < length (ls_loggers st) \<Longrightarrow> wf_log (ClearAppenders lid st)"
  unfolding ClearAppenders_def
  by (rule wf_upd_logger) (auto simp: wf_logger_def dest!: wf_log_logger)

lemma wf_logger_SetLevel [wf_intros]:
  "wf_log st \<Longrightarrow> lid < length (ls_loggers st) \<Longrightarrow> wf_log (logger_SetLevel lid l st)"
  unfolding logger_SetLevel_def
  by (rule wf_upd_logger) (auto simp: wf_logger_def dest!: wf_log_logger)

lemma wf_logger_SetName [wf_intros]:
  "wf_log st \<Longrightarrow> lid < length (ls_loggers st) \<Longrightarrow> wf_log (logger_SetName lid name st)"
  unfolding logger_SetName_def
  by (rule wf_upd_logger) (auto simp: wf_logger_def dest!: wf_log_logger)

lemma GetFormatterPattern_total:
  "wf_log st \<Longrightarrow> lid < length (ls_loggers st) \<Longrightarrow> \<exists>p. GetFormatterPattern lid st = Inr p"
  by (auto simp: GetFormatterPattern_def wf_logger_def dest!: wf_log_logger)

lemma wf_inherit_all:
  "wf_log st \<Longrightarrow> fm \<noteq> None \<Longrightarrow>
   wf_log (foldl (\<lambda>st aid. upd_appender aid (inherit_formatter fm) st) st aids)"
proof (induction aids arbitrary: st)
  case (Cons aid aids)
  have "wf_log (upd_appender aid (inherit_formatter fm) st)"
    using Cons.prems by (intro wf_upd_appender) (auto simp: inherit_formatter_def)
  with Cons show ?case by simp
qed simp

lemma wf_logger_SetFormatter [wf_intros]:
  assumes "wf_log st" "lid < length (ls_loggers st)" "fm \<noteq> None"
  shows "wf_log (logger_SetFormatter lid fm st)"
proof -
  have "wf_log (upd_logger lid (\<lambda>lg. lg\<lparr>lg_formatter := fm\<rparr>) st)"
    using assms by (intro wf_upd_logger) (auto simp: wf_logger_def dest!: wf_log_logger)
  then show ?thesis using assms(3) by (simp add: logger_SetFormatter_def Let_def wf_inherit_all)
qed

lemma add_cout_simps [simp]:
  "ls_loggers (add_cout s st) = ls_loggers st"
  "ls_appenders (add_cout s st) = ls_appenders st"
  "ls_mgr (add_cout s st) = ls_mgr st"
  "ls_root (add_cout s st) = ls_root st"
  "ls_cout (add_cout s st) = ls_cout st @ s"
  by (simp_all add: add_cout_def)

lemma wf_logger_SetFormatter_pattern [wf_intros]:
  "wf_log st \<Longrightarrow> lid < length (ls_loggers st) \<Longrightarrow> wf_log (logger_SetFormatter_pattern lid p st)"
  by (auto simp: logger_SetFormatter_pattern_def Let_def split: prod.splits
      intro!: wf_logger_SetFormatter wf_add_cout)

lemma GetLogger_miss:
  "smap_find name (ls_mgr st) = None \<Longrightarrow> GetLogger name st =
     (length (ls_loggers st),
      st\<lparr>ls_loggers := ls_loggers st @ [(new_Logger name)\<lparr>lg_root := Some (ls_root st)\<rparr>],
         ls_mgr := smap_put name (length (ls_loggers st)) (ls_mgr st)\<rparr>)"
  by (simp add: GetLogger_def Let_def)

lemma GetLogger_hit: "smap_find name (ls_mgr st) = Some lid \<Longrightarrow> GetLogger name st = (lid, st)"
  by (simp add: GetLogger_def)

lemma mgr_bound: "wf_log st \<Longrightarrow> smap_find name (ls_mgr st) = Some lid \<Longrightarrow> lid < length (ls_loggers st)"
  by (auto simp: wf_log_def list_all_iff dest!: smap_find_SomeD)

lemma wf_GetLogger [wf_intros]: "wf_log st \<Longrightarrow> wf_log (snd (GetLogger name st))"
proof (cases "smap_find name (ls_mgr st)")
  case None
  assume wf: "wf_log st"
  let ?n = "length (ls_loggers st)"
  let ?m = "smap_put name ?n (ls_mgr st)"
  let ?lg = "(new_Logger name)\<lparr>lg_root := Some (ls_root st)\<rparr>"
  let ?st = "snd (GetLogger name st)"
  note st = GetLogger_miss [OF None]
  have same: "wf_logger ?st = wf_logger st" by (rule wf_logger_cong) (simp_all add: st)
  have inv: "smap_inv (ls_mgr st)" using wf by (simp add: wf_log_def)
  have find: "smap_find k ?m = (if k = name then Some ?n else smap_find k (ls_mgr st))" for k
    using inv by (rule smap.find_put)
  have root: "ls_root st < ?n" "lg_root (ls_loggers st ! ls_root st) = None"
    "smap_find ''root'' (ls_mgr st) = Some (ls_root st)"
    using wf by (auto simp: wf_log_def)
  have "list_all (\<lambda>(name, lid). lid < Suc ?n) ?m"
    using wf set_kput [of fst "(name, ?n)" "ls_mgr st"]
    by (fastforce simp: wf_log_def list_all_iff smap_put_def)
  moreover have "list_all (wf_logger st) (ls_loggers st @ [?lg])"
    using wf by (simp add: wf_log_def wf_logger_def new_Logger_def)
  moreover have "smap_find ''root'' ?m = Some (ls_root st)"
    using root(3) None by (auto simp: find)
  moreover have "\<forall>a b lid. smap_find a ?m = Some lid \<longrightarrow> smap_find b ?m = Some lid \<longrightarrow> a = b"
  proof (intro allI impI)
    fix a b lid
    assume "smap_find a ?m = Some lid" "smap_find b ?m = Some lid"
    moreover have "smap_find a (ls_mgr st) = Some lid \<Longrightarrow> smap_find b (ls_mgr st) = Some lid \<Longrightarrow> a = b"
      using wf unfolding wf_log_def by blast
    ultimately show "a = b"
      using mgr_bound [OF wf, of a lid] mgr_bound [OF wf, of b lid]
      by (auto simp: find split: if_splits)
  qed
  ultimately show ?thesis
    unfolding wf_log_def same using root(1,2) smap.inv_put [OF inv]
    by (simp add: st nth_append)
qed (simp add: GetLogger_def)

interpretation loggers: get_or_create "\<lambda>st name. smap_find name (ls_mgr st)" GetLogger "\<lambda>_ _. True" wf_log
proof unfold_locales
  fix st :: log_state and name lid
  assume "smap_find name (ls_mgr st) = Some lid"
  then show "fst (GetLogger name st) = lid \<and>
      (\<lambda>n. smap_find n (ls_mgr (snd (GetLogger name st)))) = (\<lambda>n. smap_find n (ls_mgr st))"
    by (simp add: GetLogger_hit)
next
  fix st :: log_state and name
  assume "wf_log st" "smap_find name (ls_mgr st) = None"
  then show "(\<lambda>n. smap_find n (ls_mgr (snd (GetLogger name st)))) =
      (\<lambda>n. smap_find n (ls_mgr st))(name \<mapsto> fst (GetLogger name st))"
    by (auto simp: GetLogger_miss smap.find_put wf_log_def)
qed (simp_all add: wf_GetLogger)

lemma GetLogger_distinct:
  assumes wf: "wf_log st"
  shows "fst (GetLogger a st) = fst (GetLogger b (snd (GetLogger a st))) \<longleftrightarrow> a = b"
proof
  let ?st = "snd (GetLogger a st)"
  assume eq: "fst (GetLogger a st) = fst (GetLogger b ?st)"
  have a: "smap_find a (ls_mgr ?st) = Some (fst (GetLogger a st))"
    using loggers.lookup_get [OF wf TrueI] .
  have wf': "wf_log ?st" using wf by (rule wf_GetLogger)
  then have "smap_find b (ls_mgr (snd (GetLogger b ?st))) = Some (fst (GetLogger a st))"
    "smap_find a (ls_mgr (snd (GetLogger b ?st))) = Some (fst (GetLogger a st))"
    using loggers.lookup_get [OF wf' TrueI] loggers.lookup_get_keeps [OF wf' TrueI a] eq by auto
  with wf_GetLogger [OF wf', of b] show "a = b" unfolding wf_log_def by blast
next
  assume "a = b"
  then show "fst (GetLogger a st) = fst (GetLogger b (snd (GetLogger a st)))"
    using loggers.get_stable [OF wf TrueI, of "[]"] by (simp add: loggers.get_all_def)
qed

text \<open>C33: the manager hands out one logger per name: whatever loggers are asked for in between, asking
  for a name again gives the same logger, and two names never give the same logger.\<close>

theorem one_logger_per_name:
  assumes wf: "wf_log st"
  shows "fst (GetLogger a (fold (\<lambda>n s. snd (GetLogger n s)) ns (snd (GetLogger a st)))) = fst (GetLogger a st) \<and>
    (fst (GetLogger a st) = fst (GetLogger b (snd (GetLogger a st))) \<longleftrightarrow> a = b)"
  using loggers.get_stable [OF wf TrueI, of ns a] GetLogger_distinct [OF wf]
  by (simp_all add: loggers.get_all_def)

theorem one_logger_per_name_witness:
  "wf_log init_log_state \<and>
   fst (GetLogger ''net'' (fold (\<lambda>n s. snd (GetLogger n s)) [''root'', ''db''] (snd (GetLogger ''net'' init_log_state))))
     = fst (GetLogger ''net'' init_log_state) \<and>
   fst (GetLogger ''net'' init_log_state) \<noteq> fst (GetLogger ''db'' (snd (GetLogger ''net'' init_log_state)))"
  using one_logger_per_name [OF wf_init, of "''net''" "[''root'', ''db'']" "''db''"] wf_init by simp

end
