(* ===== verification/LogRouting.thy ===== *)
theory LogRouting
  imports LogManager
begin

text \<open>
  What logging does on a well-formed state: which appenders an event reaches (\<open>route\<close>), what each of
  them writes (\<open>delivery\<close>), what a file holds, and how a logger's formatter reaches its appenders.
\<close>

subsection \<open>One appender\<close>

definition delivery ::
  "log_env \<Rightarrow> (nat \<Rightarrow> string) \<Rightarrow> level \<Rightarrow> log_event \<Rightarrow> appender \<Rightarrow> appender \<times> string" where
  "delivery env names level ev ap =
     (case appender_log env names level ev ap of Inl e \<Rightarrow> (ap, []) | Inr r \<Rightarrow> r)"

lemma appender_log_delivery:
  "ap_formatter ap \<noteq> None \<Longrightarrow> appender_log env names level ev ap = Inr (delivery env names level ev ap)"
  by (auto simp: appender_log_def stdout_log_def file_log_def delivery_def Let_def
      split: sink.splits prod.splits)

lemma appender_log_formatter:
  "appender_log env names level ev ap = Inr (ap', out) \<Longrightarrow> ap_formatter ap' = ap_formatter ap"
  by (auto simp: appender_log_def stdout_log_def file_log_def Let_def
      split: sink.splits if_splits option.splits prod.splits)

lemma delivery_formatter [simp]:
  "ap_formatter (fst (delivery env names level ev ap)) = ap_formatter ap"
  by (cases "appender_log env names level ev ap")
    (auto simp: delivery_def dest: appender_log_formatter)

lemma delivery_below_level: "\<not> ap_level ap \<le> level \<Longrightarrow> delivery env names level ev ap = (ap, [])"
  by (auto simp: delivery_def appender_log_def stdout_log_def file_log_def split: sink.splits)

subsection \<open>The appenders of a logger\<close>

definition deliver_all ::
  "log_env \<Rightarrow> nat list \<Rightarrow> level \<Rightarrow> log_event \<Rightarrow> log_state \<Rightarrow> log_state" where
  "deliver_all env aids level ev st =
     (let d = (\<lambda>a. delivery env (logger_name st) level ev (ls_appenders st ! a))
      in st\<lparr>ls_appenders := map (\<lambda>a. if a \<in> set aids then fst (d a) else ls_appenders st ! a)
                               [0 ..< length (ls_appenders st)],
            ls_cout := ls_cout st @ concat (map (\<lambda>a. snd (d a)) aids)\<rparr>)"

lemma upd_appender_simps [simp]:
  "ls_loggers (upd_appender aid f st) = ls_loggers st"
  "ls_mgr (upd_appender aid f st) = ls_mgr st"
  "ls_root (upd_appender aid f st) = ls_root st"
  "ls_cout (upd_appender aid f st) = ls_cout st"
  "length (ls_appenders (upd_appender aid f st)) = length (ls_appenders st)"
  by (simp_all add: upd_appender_def)

lemma logger_name_cong: "ls_loggers st' = ls_loggers st \<Longrightarrow> logger_name st' = logger_name st"
  by (simp add: logger_name_def fun_eq_iff)

lemma log_appenders_total:
  "wf_log st \<Longrightarrow> list_all (attachable st) aids \<Longrightarrow>
   \<exists>st'. log_appenders env aids level ev st = Inr st' \<and> wf_log st'"
proof (induction aids arbitrary: st)
  case (Cons a aids)
  let ?r = "delivery env (logger_name st) level ev (ls_appenders st ! a)"
  let ?st = "add_cout (snd ?r) (upd_appender a (\<lambda>_. fst ?r) st)"
  from Cons.prems have a: "ap_formatter (ls_appenders st ! a) \<noteq> None"
    by (simp add: attachable_def)
  have "wf_log ?st" using Cons.prems a by (intro wf_add_cout wf_upd_appender) simp_all
  moreover have "attachable st b \<Longrightarrow> attachable ?st b" for b
    using a by (cases "b = a") (auto simp: attachable_def upd_appender_def)
  then have "list_all (attachable ?st) aids" using Cons.prems(2) by (auto simp: list_all_iff)
  ultimately show ?case
    using Cons.IH [of ?st] a by (simp add: appender_log_delivery case_prod_beta)
qed simp

lemma log_appenders_deliver:
  "distinct aids \<Longrightarrow> list_all (attachable st) aids \<Longrightarrow>
   log_appenders env aids level ev st = Inr (deliver_all env aids level ev st)"
proof (induction aids arbitrary: st)
  case Nil
  have "map ((!) (ls_appenders st)) [0 ..< length (ls_appenders st)] = ls_appenders st"
    by (rule map_nth)
  then show ?case by (simp add: deliver_all_def)
next
  case (Cons a aids)
  let ?r = "delivery env (logger_name st) level ev (ls_appenders st ! a)"
  let ?st = "add_cout (snd ?r) (upd_appender a (\<lambda>_. fst ?r) st)"
  from Cons.prems have a: "a < length (ls_appenders st)" "ap_formatter (ls_appenders st ! a) \<noteq> None"
    by (simp_all add: attachable_def)
  have same: "ls_appenders ?st ! b = ls_appenders st ! b" if "b \<noteq> a" for b
    using that by (simp add: upd_appender_def)
  have names: "logger_name ?st = logger_name st" by (rule logger_name_cong) simp
  have notin: "a \<notin> set aids" using Cons.prems(1) by simp
  have "list_all (attachable ?st) aids"
    using Cons.prems notin by (auto simp: list_all_iff attachable_def upd_appender_def nth_list_update)
  then have "log_appenders env (a # aids) level ev st = Inr (deliver_all env aids level ev ?st)"
    using Cons.IH [of ?st] Cons.prems(1) a(2)
    by (simp add: appender_log_delivery case_prod_beta)
  also have "deliver_all env aids level ev ?st = deliver_all env (a # aids) level ev st"
  proof -
    have out: "map (\<lambda>b. snd (delivery env (logger_name ?st) level ev (ls_appenders ?st ! b))) aids
        = map (\<lambda>b. snd (delivery env (logger_name st) level ev (ls_appenders st ! b))) aids"
      unfolding names using notin same by (intro map_cong refl) metis
    have aps: "map (\<lambda>b. if b \<in> set aids then fst (delivery env (logger_name ?st) level ev (ls_appenders ?st ! b))
            else ls_appenders ?st ! b) [0 ..< length (ls_appenders ?st)]
        = map (\<lambda>b. if b \<in> set (a # aids) then fst (delivery env (logger_name st) level ev (ls_appenders st ! b))
            else ls_appenders st ! b) [0 ..< length (ls_appenders st)]"
      using notin same a(1) unfolding names
      by (intro map_cong) (auto simp: upd_appender_def nth_list_update)
    show ?thesis
      unfolding deliver_all_def Let_def out aps by (simp add: upd_appender_def add_cout_def)
  qed
  finally show ?case .
qed

subsection \<open>Routing\<close>

text \<open>The appenders an event of a level sent to a logger reaches: its own, or the root logger's when it
  has none; each logger on the way must let the level through.\<close>

definition route :: "log_state \<Rightarrow> nat \<Rightarrow> level \<Rightarrow> nat list" where
  "route st lid level =
     (let lg = ls_loggers st ! lid; rt = ls_loggers st ! ls_root st in
      if \<not> lg_level lg \<le> level then []
      else if lg_appenders lg \<noteq> [] then lg_appenders lg
      else if lg_root lg = None then []
      else if lg_level rt \<le> level then lg_appenders rt
      else [])"

lemma Log_route:
  assumes wf: "wf_log st" and lid: "lid < length (ls_loggers st)"
  shows "Log env lid level ev st = log_appenders env (route st lid level) level ev st"
proof -
  have lg: "wf_logger st (ls_loggers st ! lid)" using wf lid by (rule wf_log_logger)
  have root: "ls_root st < length (ls_loggers st)" "lg_root (ls_loggers st ! ls_root st) = None"
    using wf by (auto simp: wf_log_def)
  have "lg_root (ls_loggers st ! lid) = Some r \<Longrightarrow> r = ls_root st \<and> ls_root st \<noteq> lid" for r
    using lg root(2) by (auto simp: wf_logger_def)
  then show ?thesis
    using lid root by (auto simp: logger_log.simps [of env "[]" lid] logger_log.simps [of env "[lid]"]
        route_def Let_def split: option.splits)
qed

lemma route_attachable:
  assumes "wf_log st" "lid < length (ls_loggers st)"
  shows "list_all (attachable st) (route st lid level)"
  using wf_log_logger [OF assms] wf_log_logger [OF assms(1), of "ls_root st"] assms(1)
  by (auto simp: route_def Let_def wf_logger_def wf_log_def)

lemma log_appenders_same:
  "log_appenders env aids level ev st = Inr st' \<Longrightarrow>
   ls_loggers st' = ls_loggers st \<and> ls_mgr st' = ls_mgr st \<and> ls_root st' = ls_root st"
  by (induction aids arbitrary: st) (auto simp: obind_Inr_iff split: prod.splits)

text \<open>Logging always returns, and the loggers stay as they are.\<close>

lemma Log_total:
  assumes "wf_log st" "lid < length (ls_loggers st)"
  shows "\<exists>st'. Log env lid level ev st = Inr st' \<and> wf_log st' \<and>
    ls_loggers st' = ls_loggers st \<and> ls_mgr st' = ls_mgr st \<and> ls_root st' = ls_root st"
  using log_appenders_total [OF assms(1) route_attachable [OF assms]] log_appenders_same
  unfolding Log_route [OF assms] by blast

lemma Log_deliver:
  assumes "wf_log st" "lid < length (ls_loggers st)" "distinct (route st lid level)"
  shows "Log env lid level ev st = Inr (deliver_all env (route st lid level) level ev st)"
  using Log_route [OF assms(1,2)] log_appenders_deliver [OF assms(3) route_attachable [OF assms(1,2)]]
  by simp

lemma macro_event_simps [simp]:
  "ev_logger (event_write s (macro_event site lid level)) = lid"
  "ev_level (event_write s (macro_event site lid level)) = level"
  by (simp_all add: event_write_def macro_event_def new_LogEvent_def)

lemma P_LOG_is_Log:
  "lid < length (ls_loggers st) \<Longrightarrow> P_LOG env site lid level s st =
     (if lg_level (ls_loggers st ! lid) \<le> level
      then Log env lid level (event_write s (macro_event site lid level)) st else Inr st)"
  by (simp add: P_LOG_def LogEventWrap_destroy_def)

lemma P_LOG_total:
  assumes "wf_log st" "lid < length (ls_loggers st)"
  shows "\<exists>st'. P_LOG env site lid level s st = Inr st' \<and> wf_log st' \<and>
    ls_loggers st' = ls_loggers st \<and> ls_mgr st' = ls_mgr st \<and> ls_root st' = ls_root st"
  using Log_total [OF assms, of env level] assms by (simp add: P_LOG_is_Log)

text \<open>C1: logging never faults: in a well-formed state, sending any event at any level to any logger
  returns (no spin lock is taken twice, no null formatter is dereferenced) and leaves the state
  well-formed.\<close>

theorem log_total:
  assumes "wf_log st" and "lid < length (ls_loggers st)"
  shows "\<exists>st'. Log env lid level ev st = Inr st' \<and> wf_log st'"
  using Log_total [OF assms] by blast

theorem log_total_witness:
  "wf_log init_log_state \<and> (\<forall>env ev. \<exists>st'. Log env 0 ERROR ev init_log_state = Inr st' \<and> wf_log st')"
  using log_total [OF wf_init, of 0] wf_init by (simp add: init_log_state_eq)

text \<open>C2: logging delivers: when no appender is attached twice, an event sent to a logger is written
  once by every appender of its route, in order, by no other appender, and nothing else of the
  logging state changes.\<close>

theorem log_delivers:
  assumes "wf_log st" and "lid < length (ls_loggers st)" and "distinct (route st lid level)"
  shows "Log env lid level ev st = Inr (deliver_all env (route st lid level) level ev st)"
  using assms by (rule Log_deliver)

theorem log_delivers_witness:
  "route init_log_state 0 WARN = [0] \<and>
   (\<forall>env ev. Log env 0 WARN ev init_log_state = Inr (deliver_all env [0] WARN ev init_log_state))"
proof -
  have r: "route init_log_state 0 WARN = [0]"
    by (simp add: route_def init_log_state_eq new_Logger_def less_eq_level_def)
  then show ?thesis
    using log_delivers [OF wf_init, of 0 WARN] by (simp add: init_log_state_eq)
qed

subsection \<open>The default set-up\<close>

definition default_text :: "log_env \<Rightarrow> string \<Rightarrow> log_site \<Rightarrow> level \<Rightarrow> string \<Rightarrow> string" where
  "default_text env name site level text =
     le_strftime env ''%Y-%m-%d %H:%M:%S'' (site_time site) @ tab @
     show_nat (unat (site_thread site)) @ tab @ ''Test Thread'' @ tab @ ''0'' @ tab @
     ''['' @ level_to_string level @ '']'' @ tab @ ''['' @ name @ '']'' @ tab @
     site_file site @ '':'' @ show_nat (unat (site_line site)) @ tab @ text @ newline"

lemma stdout_delivery:
  assumes "ap_sink ap = StdOutAppender" "ap_formatter ap = Some default_formatter" "ap_level ap \<le> level"
  shows "delivery env names level (event_write text (macro_event site lid level)) ap
       = (ap, default_text env (names lid) site level text @ newline)"
  using assms default_line
  by (simp add: delivery_def appender_log_def stdout_log_def default_text_def macro_event_def
      event_write_def new_LogEvent_def GetFiberId_def show_nat.simps [of 0] digit_char_def)

lemma GetLogger_init:
  "GetLogger name init_log_state =
     (if name = ''root'' then (0, init_log_state)
      else (1, init_log_state\<lparr>ls_loggers := ls_loggers init_log_state @ [(new_Logger name)\<lparr>lg_root := Some 0\<rparr>],
                             ls_mgr := smap_put name 1 [(''root'', 0)]\<rparr>))"
  by (simp add: GetLogger_def init_log_state_eq smap_find_def Let_def)

text \<open>C34: out of the box, a message logged through the macros at any logger name is printed on the
  standard output once, as the default line with that logger's name, when its level is at least
  INFO, and has no effect otherwise; a logger that was just created prints through the root
  logger.\<close>

theorem fresh_logger_prints:
  "(case GetLogger name init_log_state of (lid, st) \<Rightarrow>
      P_LOG env site lid level text st =
        Inr (if INFO \<le> level
             then add_cout (default_text env name site level text @ newline) st
             else st))"
proof -
  obtain lid st where g: "GetLogger name init_log_state = (lid, st)" by fastforce
  let ?ev = "event_write text (macro_event site lid level)"
  have wf: "wf_log st" using wf_GetLogger [OF wf_init, of name] g by simp
  have st: "lid < length (ls_loggers st)" "lg_level (ls_loggers st ! lid) = INFO"
    "logger_name st lid = name" "ls_appenders st = ls_appenders init_log_state"
    using g [unfolded GetLogger_init]
    by (auto simp: init_log_state_eq new_Logger_def logger_name_def split: if_splits)
  show ?thesis
  proof (cases "INFO \<le> level")
    case True
    have r: "route st lid level = [0]"
      using True g [unfolded GetLogger_init]
      by (auto simp: route_def init_log_state_eq new_Logger_def split: if_splits)
    have "ap_level (ls_appenders st ! 0) \<le> level"
      using True by (simp add: st init_log_state_eq new_StdOutAppender_def less_eq_level_def)
    then have d: "delivery env (logger_name st) level ?ev (ls_appenders st ! 0)
        = (ls_appenders st ! 0, default_text env name site level text @ newline)"
      using stdout_delivery [of "ls_appenders st ! 0" level env "logger_name st" "text" site lid] st
      by (simp add: init_log_state_eq new_StdOutAppender_def)
    have "deliver_all env [0] level ?ev st
        = add_cout (default_text env name site level text @ newline) st"
      using d st(4) by (simp add: deliver_all_def Let_def add_cout_def init_log_state_eq)
    then show ?thesis
      using Log_deliver [OF wf st(1), of level env ?ev] r True st g
      by (simp add: P_LOG_is_Log)
  next
    case False
    then show ?thesis using st g by (simp add: P_LOG_def)
  qed
qed

subsection \<open>Files\<close>

text \<open>C35: what a file appender writes: with its stream open and good and the file openable, an event
  that passes the level adds its rendering to the file, and nothing goes to the standard output;
  but when three seconds have passed since the last reopening (in 64-bit arithmetic), the file is
  opened again, which empties it, so that only the new rendering is left and the event's time
  becomes the time of the last reopening.\<close>

theorem file_appender_contents:
  assumes "ap_sink ap = FileAppender name os t" and "ap_formatter ap = Some fm"
    and "os_open os" and "\<not> os_fail os" and "le_can_open env name" and "ap_level ap \<le> level"
  shows "appender_log env names level ev ap =
    (let msg = formatter_format (le_strftime env) names fm level ev;
         due = (t + 3 \<le> ev_time ev)
     in Inr (ap\<lparr>ap_sink := FileAppender name
                  \<lparr>os_open = True, os_fail = False,
                   os_data = (if due then [] else os_data os) @ msg\<rparr>
                  (if due then ev_time ev else t)\<rparr>, []))"
  using assms
  by (cases os) (simp add: appender_log_def file_log_def Let_def ReOpen_def os_close_def
      os_open_file_def os_write_def)

theorem file_appender_contents_witness:
  "appender_log \<lparr>le_strftime = (\<lambda>f t. []), le_can_open = (\<lambda>n. True)\<rparr> (\<lambda>l. ''x'') INFO
     (new_LogEvent 0 INFO [] 0 0 0 0 8 [])
     \<lparr>ap_level = DEBUG, ap_has_formatter = True,
      ap_formatter = Some \<lparr>fm_pattern = ''new'', fm_items = [StringFormatItem ''new''], fm_error = False\<rparr>,
      ap_sink = FileAppender ''a.txt'' \<lparr>os_open = True, os_fail = False, os_data = ''old''\<rparr> 5\<rparr>
   = Inr (\<lparr>ap_level = DEBUG, ap_has_formatter = True,
      ap_formatter = Some \<lparr>fm_pattern = ''new'', fm_items = [StringFormatItem ''new''], fm_error = False\<rparr>,
      ap_sink = FileAppender ''a.txt'' \<lparr>os_open = True, os_fail = False, os_data = ''new''\<rparr> 8\<rparr>, [])"
  by (subst file_appender_contents [where name = "''a.txt''" and t = 5 and
        os = "\<lparr>os_open = True, os_fail = False, os_data = ''old''\<rparr>" and
        fm = "\<lparr>fm_pattern = ''new'', fm_items = [StringFormatItem ''new''], fm_error = False\<rparr>"])
    (simp_all add: less_eq_level_def new_LogEvent_def formatter_format_def)

subsection \<open>Formatters\<close>

lemma inherit_all_nth:
  "a < length (ls_appenders st) \<Longrightarrow>
   ls_appenders (foldl (\<lambda>st aid. upd_appender aid (inherit_formatter val) st) st aids) ! a
     = (if a \<in> set aids then inherit_formatter val (ls_appenders st ! a) else ls_appenders st ! a)"
proof (induction aids arbitrary: st)
  case (Cons aid aids)
  have "inherit_formatter val (inherit_formatter val ap) = inherit_formatter val ap" for ap
    by (simp add: inherit_formatter_def)
  with Cons show ?case by (cases "a = aid") (auto simp: upd_appender_def)
qed simp

lemma inherit_all_same:
  "length (ls_appenders (foldl (\<lambda>st aid. upd_appender aid (inherit_formatter val) st) st aids))
     = length (ls_appenders st)"
  "ls_loggers (foldl (\<lambda>st aid. upd_appender aid (inherit_formatter val) st) st aids) = ls_loggers st"
  "ls_cout (foldl (\<lambda>st aid. upd_appender aid (inherit_formatter val) st) st aids) = ls_cout st"
  by (induction aids arbitrary: st) simp_all

text \<open>Setting a logger's pattern: a pattern that does not compile changes no logger and no appender;
  one that does becomes the logger's formatter and the formatter of exactly those of its appenders
  that were not given one of their own.\<close>

theorem set_formatter_pattern:
  assumes lid: "lid < length (ls_loggers st)"
  shows "let st' = logger_SetFormatter_pattern lid p st; fm = fst (new_LogFormatter p) in
    if fm_error fm
    then ls_loggers st' = ls_loggers st \<and> ls_appenders st' = ls_appenders st
    else ls_loggers st' = (ls_loggers st)[lid := (ls_loggers st ! lid)\<lparr>lg_formatter := Some fm\<rparr>] \<and>
      ls_appenders st' = map (\<lambda>a. let ap = ls_appenders st ! a in
          if a \<in> set (lg_appenders (ls_loggers st ! lid)) \<and> \<not> ap_has_formatter ap
          then ap\<lparr>ap_formatter := Some fm\<rparr> else ap) [0 ..< length (ls_appenders st)]"
proof (cases "fm_error (fst (new_LogFormatter p))")
  case True
  then show ?thesis
    by (cases "new_LogFormatter p") (simp add: logger_SetFormatter_pattern_def Let_def)
next
  case False
  define st' where "st' = logger_SetFormatter_pattern lid p st"
  define fm where "fm = fst (new_LogFormatter p)"
  let ?st = "upd_logger lid (\<lambda>lg. lg\<lparr>lg_formatter := Some fm\<rparr>) (add_cout (snd (new_LogFormatter p)) st)"
  let ?aids = "lg_appenders (ls_loggers st ! lid)"
  have st': "st' = foldl (\<lambda>st aid. upd_appender aid (inherit_formatter (Some fm)) st) ?st ?aids"
    using False lid
    by (cases "new_LogFormatter p")
      (simp add: st'_def fm_def logger_SetFormatter_pattern_def logger_SetFormatter_def Let_def
        upd_logger_def)
  have aps: "ls_appenders ?st = ls_appenders st" by (simp add: upd_logger_def)
  have "ls_appenders st' = map (\<lambda>a. let ap = ls_appenders st ! a in
      if a \<in> set ?aids \<and> \<not> ap_has_formatter ap then ap\<lparr>ap_formatter := Some fm\<rparr> else ap)
      [0 ..< length (ls_appenders st)]"
    by (rule nth_equalityI)
      (auto simp: st' inherit_all_same inherit_all_nth aps inherit_formatter_def Let_def)
  moreover have "ls_loggers st' = (ls_loggers st)[lid := (ls_loggers st ! lid)\<lparr>lg_formatter := Some fm\<rparr>]"
    unfolding st' inherit_all_same(2) by (simp add: upd_logger_def)
  ultimately show ?thesis using False unfolding st'_def fm_def by (simp add: Let_def)
qed

theorem set_formatter_pattern_witness:
  "fm_error (fst (new_LogFormatter ''%%'')) \<and>
   ls_loggers (logger_SetFormatter_pattern 0 ''%%'' init_log_state) = ls_loggers init_log_state"
proof -
  have e: "fm_error (fst (new_LogFormatter ''%%''))" by code_simp
  show ?thesis
    using e set_formatter_pattern [of 0 init_log_state "''%%''"]
    by (simp add: Let_def init_log_state_eq)
qed

end
