(* ===== verification/LogConfig.thy ===== *)
theory LogConfig
  imports LogRouting
begin

text \<open>
  The configuration of the loggers, the last part of \<open>primo/log/Logger.cpp\<close>: the definitions
  \<open>LogDefine\<close> and \<open>LogAppenderDefine\<close>, their conversions from and to text, and the listener that
  \<open>LogIniter\<close> registers on the variable \<open>logs\<close>, which brings the loggers in line with a new set of
  definitions. A set of definitions is ordered by name (theory \<open>StdMap\<close>).
\<close>

record log_appender_define =
  ad_type :: int                \<comment> \<open>1: file, 2: standard output\<close>
  ad_level :: level
  ad_formatter :: string
  ad_file :: string

record log_define =
  ld_name :: string
  ld_level :: level
  ld_formatter :: string
  ld_appenders :: "log_appender_define list"

definition new_LogAppenderDefine :: log_appender_define where
  "new_LogAppenderDefine = \<lparr>ad_type = 0, ad_level = UNKNOW, ad_formatter = [], ad_file = []\<rparr>"

definition log_define_IsValid :: "log_define \<Rightarrow> bool" where
  "log_define_IsValid d \<longleftrightarrow> ld_name d \<noteq> []"

subsection \<open>From text\<close>

text \<open>
  The conversions print on the standard output and can throw: a call yields what it printed and its
  outcome. \<open>quiet\<close> is a call that prints nothing.
\<close>

type_synonym 'a printing = "string \<times> 'a outcome"

definition quiet :: "'a outcome \<Rightarrow> 'a printing" where
  "quiet r = ([], r)"

definition prints :: "string \<Rightarrow> 'a \<Rightarrow> 'a printing" where
  "prints out x = (out @ newline, Inr x)"

definition pbind :: "'a printing \<Rightarrow> ('a \<Rightarrow> 'b printing) \<Rightarrow> 'b printing" where
  "pbind m k = (case m of
       (out, Inl e) \<Rightarrow> (out, Inl e)
     | (out, Inr x) \<Rightarrow> (case k x of (out', r) \<Rightarrow> (out @ out', r)))"

lemma pbind_simps [simp]:
  "pbind (quiet (Inr x)) k = k x"
  "pbind (quiet (Inl e)) k = quiet (Inl e)"
  by (simp_all add: pbind_def quiet_def)

lemma pbind_Inr:
  "snd (pbind m k) = Inr y \<longleftrightarrow> (\<exists>x. snd m = Inr x \<and> snd (k x) = Inr y)"
  by (auto simp: pbind_def split: prod.splits sum.splits)

text \<open>
  \<open>appender_from_node\<close> is the body of the loop over the appenders; \<open>None\<close> is \<open>continue\<close>. As in the
  code, the formatter of a file appender is read from the key \<open>file\<close>, and the key \<open>level\<close> of an
  appender is not read.
\<close>

definition as_string_or :: "yaml_lib \<Rightarrow> string \<Rightarrow> ynode \<Rightarrow> string outcome" where
  "as_string_or lib dflt n = (if is_defined n then y_as_string lib n else Inr dflt)"

definition get_string ::
  "yaml_lib \<Rightarrow> ynode \<Rightarrow> string \<Rightarrow> string \<Rightarrow> string outcome" where
  "get_string lib n key dflt = obind (node_get lib n key) (as_string_or lib dflt)"

definition appender_from_node :: "yaml_lib \<Rightarrow> ynode \<Rightarrow> log_appender_define option printing" where
  "appender_from_node lib apd =
     pbind (quiet (node_get lib apd ''type'')) (\<lambda>tn.
     if \<not> is_defined tn
     then prints (''log config error: appender type is null, '' @ y_dump lib apd) None
     else pbind (quiet (y_as_string lib tn)) (\<lambda>type.
       if type = ''FileAppender'' then
         pbind (quiet (node_get lib apd ''file'')) (\<lambda>fn.
         if \<not> is_defined fn
         then prints (''log config error: fileappender file is null, '' @ y_dump lib apd) None
         else pbind (quiet (y_as_string lib fn)) (\<lambda>file.
           pbind (quiet (node_get lib apd ''formatter'')) (\<lambda>fmn.
           pbind (quiet (if is_defined fmn then get_string lib apd ''file'' [] else Inr [])) (\<lambda>fm.
           quiet (Inr (Some (new_LogAppenderDefine\<lparr>ad_type := 1, ad_file := file, ad_formatter := fm\<rparr>)))))))
       else if type = ''StdOutAppender'' then
         pbind (quiet (get_string lib apd ''formatter'' [])) (\<lambda>fm.
         quiet (Inr (Some (new_LogAppenderDefine\<lparr>ad_type := 2, ad_formatter := fm\<rparr>))))
       else prints (''log config error: appender type is invalid, '' @ y_dump lib apd) None))"

fun appenders_from_nodes :: "yaml_lib \<Rightarrow> ynode list \<Rightarrow> log_appender_define list printing" where
  "appenders_from_nodes lib [] = quiet (Inr [])"
| "appenders_from_nodes lib (n # ns) =
     pbind (appender_from_node lib n) (\<lambda>a.
     pbind (appenders_from_nodes lib ns) (\<lambda>as.
     quiet (Inr (case a of None \<Rightarrow> as | Some a \<Rightarrow> a # as))))"

definition log_define_from_node :: "yaml_lib \<Rightarrow> ynode \<Rightarrow> log_define printing" where
  "log_define_from_node lib n =
     pbind (quiet (node_get lib n ''name'')) (\<lambda>nn.
     if \<not> is_defined nn
     then (''Log config error: name is null, '' @ y_dump lib n @ newline,
           Inl (Throw (Logic_error ''log config name is null'')))
     else pbind (quiet (y_as_string lib nn)) (\<lambda>name.
       pbind (quiet (get_string lib n ''level'' [])) (\<lambda>level.
       pbind (quiet (get_string lib n ''formatter'' [])) (\<lambda>fm.
       pbind (quiet (node_get lib n ''appenders'')) (\<lambda>an.
       pbind (quiet (if is_defined an then node_elements lib an else Inr [])) (\<lambda>ans.
       pbind (appenders_from_nodes lib ans) (\<lambda>as.
       quiet (Inr \<lparr>ld_name = name, ld_level = level_from_string level, ld_formatter = fm,
                    ld_appenders = as\<rparr>))))))))"

definition log_define_from_string :: "yaml_lib \<Rightarrow> string \<Rightarrow> log_define printing" where
  "log_define_from_string lib str = pbind (quiet (y_load lib str)) (log_define_from_node lib)"

subsection \<open>To text\<close>

definition appender_define_node :: "log_appender_define \<Rightarrow> ynode" where
  "appender_define_node a =
     (let kvs =
        (if ad_type a = 1 then [(''type'', YScalar ''FileAppender''), (''file'', YScalar (ad_file a))]
         else if ad_type a = 2 then [(''type'', YScalar ''StdOutAppender'')]
         else []) @
        level_entry ''level'' (ad_level a) @
        (if ad_formatter a = [] then [] else [(''formatter'', YScalar (ad_formatter a))])
      in if kvs = [] then YNull else ymap kvs)"

definition log_define_node :: "log_define \<Rightarrow> ynode" where
  "log_define_node i = ymap
     ([(''name'', YScalar (ld_name i))] @
      level_entry ''level'' (ld_level i) @
      (if ld_formatter i = [] then [] else [(''formatter'', YScalar (ld_formatter i))]) @
      (if ld_appenders i = [] then []
       else [(''appenders'', YSeq (map appender_define_node (ld_appenders i)))]))"

definition log_define_to_string :: "yaml_lib \<Rightarrow> log_define \<Rightarrow> string outcome" where
  "log_define_to_string lib i = Inr (y_dump lib (log_define_node i))"

subsection \<open>The round trip\<close>

text \<open>What is left of an appender's definition after writing and reading it.\<close>

definition reread_appender :: "log_appender_define \<Rightarrow> log_appender_define" where
  "reread_appender a =
     (if ad_type a = 1
      then a\<lparr>ad_level := UNKNOW, ad_formatter := (if ad_formatter a = [] then [] else ad_file a)\<rparr>
      else a\<lparr>ad_level := UNKNOW, ad_file := []\<rparr>)"

definition known_appender :: "log_appender_define \<Rightarrow> bool" where
  "known_appender a \<longleftrightarrow> ad_type a = 1 \<or> ad_type a = 2"

lemmas node_simps = is_defined_def as_string_or_def get_string_def node_get_ymap scalars_convert_def

lemma appender_reread:
  assumes lib: "scalars_convert lib" and a: "known_appender a"
  shows "appender_from_node lib (appender_define_node a) = quiet (Inr (Some (reread_appender a)))"
proof -
  have sc: "y_as_string lib (YScalar s) = Inr s" for s using lib by (simp add: scalars_convert_def)
  show ?thesis
    using a
    by (cases a) (auto simp: known_appender_def appender_from_node_def appender_define_node_def
        node_get_ymap [OF lib] sc is_defined_def get_string_def as_string_or_def level_entry_def
        reread_appender_def new_LogAppenderDefine_def)
qed

lemma appenders_reread:
  assumes lib: "scalars_convert lib"
  shows "list_all known_appender as \<Longrightarrow>
    appenders_from_nodes lib (map appender_define_node as) = quiet (Inr (map reread_appender as))"
  by (induction as) (simp_all add: appender_reread [OF lib])

text \<open>C36: writing a logger definition and reading it back. When the document survives printing and
  reading and scalars convert to their text, the name, level and formatter of the logger and the
  number, order, kind and file of its appenders come back, and nothing is printed; but every
  appender loses its level, and a file appender that has a formatter gets its file name as
  formatter.\<close>

theorem log_define_reread:
  assumes lib: "scalars_convert lib" and doc: "survives lib (log_define_node d)"
    and known: "list_all known_appender (ld_appenders d)"
  shows "pbind (quiet (log_define_to_string lib d)) (log_define_from_string lib)
    = quiet (Inr (d\<lparr>ld_appenders := map reread_appender (ld_appenders d)\<rparr>))"
proof -
  have sc: "y_as_string lib (YScalar s) = Inr s" for s using lib by (simp add: scalars_convert_def)
  have lvl: "level_from_string (level_to_string l) = l" "level_from_string [] = UNKNOW" for l
    by (cases l) (simp_all add: level_from_string_def)
  have "log_define_from_node lib (log_define_node d)
      = quiet (Inr (d\<lparr>ld_appenders := map reread_appender (ld_appenders d)\<rparr>))"
    using appenders_reread [OF lib known]
    by (cases d) (simp add: log_define_from_node_def log_define_node_def node_get_ymap [OF lib] sc
        is_defined_def get_string_def as_string_or_def level_entry_def lvl)
  then show ?thesis
    using doc by (simp add: log_define_to_string_def log_define_from_string_def survives_def)
qed

theorem log_define_reread_witness:
  "(let d = \<lparr>ld_name = ''app'', ld_level = WARN, ld_formatter = [],
             ld_appenders = [\<lparr>ad_type = 1, ad_level = ERROR, ad_formatter = ''%m'', ad_file = ''a.txt''\<rparr>]\<rparr>;
        lib = \<lparr>y_load = \<lambda>s. Inr (log_define_node d), y_dump = \<lambda>n. [],
               y_as_string = \<lambda>n. Inr (scalar_text n), y_map_at = \<lambda>ps i. YUndef\<rparr>
    in pbind (quiet (log_define_to_string lib d)) (log_define_from_string lib)
     = quiet (Inr \<lparr>ld_name = ''app'', ld_level = WARN, ld_formatter = [],
         ld_appenders = [\<lparr>ad_type = 1, ad_level = UNKNOW, ad_formatter = ''a.txt'', ad_file = ''a.txt''\<rparr>]\<rparr>))"
  unfolding Let_def
  by (subst log_define_reread)
    (simp_all add: scalars_convert_def survives_def known_appender_def reread_appender_def)

end
