(* ===== verification/LogApply.thy ===== *)
theory LogApply
  imports LogConfig
begin

text \<open>
  The listener that \<open>LogIniter\<close> of \<open>primo/log/Logger.cpp\<close> registers on the configuration variable
  \<open>logs\<close>: it brings the loggers in line with a new set of definitions. Sets of definitions are
  ordered by name. The main result is that the loggers named in the new set and changed by it end up
  as defined, those of the old set that are gone are silenced, and all others stay as they were.
\<close>

subsection \<open>The listener\<close>

text \<open>The appender a definition asks for; a type other than the two known ones leaves the pointer null.
  \<open>junk\<close> gives the uninitialised \<open>mLastTime\<close> of each file appender.\<close>

definition appender_of_define :: "log_env \<Rightarrow> u64 \<Rightarrow> log_appender_define \<Rightarrow> appender option" where
  "appender_of_define env junk a =
     (if ad_type a = 1 then Some (new_FileAppender env junk (ad_file a))
      else if ad_type a = 2 then Some new_StdOutAppender
      else None)"

definition set_define_formatter ::
  "string \<Rightarrow> log_appender_define \<Rightarrow> appender \<Rightarrow> appender \<times> string" where
  "set_define_formatter name a ap =
     (if ad_formatter a = [] then (ap, [])
      else (case new_LogFormatter (ad_formatter a) of (fmt, cout) \<Rightarrow>
              if \<not> fm_error fmt then (appender_set_formatter (Some fmt) ap, cout)
              else (ap, cout @ ''log.name='' @ name @ '' appender type='' @ show_int (ad_type a)
                      @ '' formatter='' @ ad_formatter a @ '' is invalid'' @ newline)))"

definition apply_appender ::
  "log_env \<Rightarrow> (nat \<Rightarrow> u64) \<Rightarrow> string \<Rightarrow> nat \<Rightarrow> log_appender_define \<Rightarrow> log_state \<Rightarrow> log_state outcome" where
  "apply_appender env junk name lid a st =
     (case appender_of_define env (junk (length (ls_appenders st))) a of
        None \<Rightarrow> Inl Null_deref
      | Some ap \<Rightarrow>
          (case set_define_formatter name a (appender_set_level (ad_level a) ap) of (ap, cout) \<Rightarrow>
             (case alloc_appender ap (add_cout cout st) of (aid, st) \<Rightarrow> Inr (AddAppender lid aid st))))"

fun apply_appenders ::
  "log_env \<Rightarrow> (nat \<Rightarrow> u64) \<Rightarrow> string \<Rightarrow> nat \<Rightarrow> log_appender_define list \<Rightarrow> log_state \<Rightarrow> log_state outcome" where
  "apply_appenders env junk name lid [] st = Inr st"
| "apply_appenders env junk name lid (a # as) st =
     obind (apply_appender env junk name lid a st) (apply_appenders env junk name lid as)"

definition apply_define ::
  "log_env \<Rightarrow> (nat \<Rightarrow> u64) \<Rightarrow> log_define \<Rightarrow> log_state \<Rightarrow> log_state outcome" where
  "apply_define env junk i st =
     (case GetLogger (ld_name i) st of (lid, st) \<Rightarrow>
        let st = logger_SetLevel lid (ld_level i) st;
            st = (if ld_formatter i \<noteq> [] then logger_SetFormatter_pattern lid (ld_formatter i) st else st);
            st = ClearAppenders lid st
        in apply_appenders env junk (ld_name i) lid (ld_appenders i) st)"

text \<open>The loop over the new definitions, and the loop over the old ones.\<close>

fun apply_new ::
  "log_env \<Rightarrow> (nat \<Rightarrow> u64) \<Rightarrow> log_define list \<Rightarrow> log_define list \<Rightarrow> log_state \<Rightarrow> log_state outcome" where
  "apply_new env junk old_value [] st = Inr st"
| "apply_new env junk old_value (i # is) st =
     (if kfind ld_name (ld_name i) old_value = Some i then apply_new env junk old_value is st
      else obind (apply_define env junk i st) (apply_new env junk old_value is))"

definition silence_logger :: "string \<Rightarrow> log_state \<Rightarrow> log_state" where
  "silence_logger name st =
     (case GetLogger name st of (lid, st) \<Rightarrow> ClearAppenders lid (logger_SetLevel lid UNKNOW st))"

fun remove_old :: "log_define list \<Rightarrow> log_define list \<Rightarrow> log_state \<Rightarrow> log_state" where
  "remove_old new_value [] st = st"
| "remove_old new_value (i # is) st =
     remove_old new_value is
       (if kfind ld_name (ld_name i) new_value = None then silence_logger (ld_name i) st else st)"

definition on_logs_changed ::
  "log_env \<Rightarrow> (nat \<Rightarrow> u64) \<Rightarrow> log_site \<Rightarrow> log_define list \<Rightarrow> log_define list \<Rightarrow> log_state
     \<Rightarrow> log_state outcome" where
  "on_logs_changed env junk site old_value new_value st =
     obind (P_LOG env site (GetRoot st) INFO ''on_logger_conf_changed'' st) (\<lambda>st.
     obind (apply_new env junk old_value new_value st) (\<lambda>st.
     Inr (remove_old new_value old_value st)))"

subsection \<open>What a definition asks for\<close>

text \<open>The logger of a name; an appender as its definition asks, given the formatter of its logger; a
  logger as its definition asks. Formatters that do not compile count as absent.\<close>

definition named :: "log_state \<Rightarrow> string \<Rightarrow> logger option" where
  "named st name = map_option (\<lambda>lid. ls_loggers st ! lid) (smap_find name (ls_mgr st))"

definition compiled :: "string \<Rightarrow> formatter option" where
  "compiled p =
     (if p = [] \<or> fm_error (fst (new_LogFormatter p)) then None else Some (fst (new_LogFormatter p)))"

definition realises :: "formatter option \<Rightarrow> log_appender_define \<Rightarrow> appender \<Rightarrow> bool" where
  "realises fm a ap \<longleftrightarrow>
     ap_level ap = ad_level a \<and>
     (case ap_sink ap of StdOutAppender \<Rightarrow> ad_type a = 2
      | FileAppender name _ _ \<Rightarrow> ad_type a = 1 \<and> name = ad_file a) \<and>
     (case compiled (ad_formatter a) of
        None \<Rightarrow> ap_formatter ap = fm \<and> \<not> ap_has_formatter ap
      | Some p \<Rightarrow> ap_formatter ap = Some p \<and> ap_has_formatter ap)"

definition configured :: "log_state \<Rightarrow> log_define \<Rightarrow> logger \<Rightarrow> bool" where
  "configured st d lg \<longleftrightarrow>
     lg_level lg = ld_level d \<and>
     (compiled (ld_formatter d) \<noteq> None \<longrightarrow> lg_formatter lg = compiled (ld_formatter d)) \<and>
     list_all2 (\<lambda>aid a. realises (lg_formatter lg) a (ls_appenders st ! aid))
       (lg_appenders lg) (ld_appenders d)"

lemma upd_logger_simps [simp]:
  "ls_appenders (upd_logger lid f st) = ls_appenders st"
  "ls_mgr (upd_logger lid f st) = ls_mgr st"
  "ls_root (upd_logger lid f st) = ls_root st"
  "ls_loggers (upd_logger lid f st) = (ls_loggers st)[lid := f (ls_loggers st ! lid)]"
  by (simp_all add: upd_logger_def)

subsection \<open>One appender, one logger\<close>

lemma define_appender_realises:
  assumes a: "known_appender a" and fm: "fm \<noteq> None"
  obtains ap where "appender_of_define env j a = Some ap"
    "realises fm a
       (let ap = fst (set_define_formatter name a (appender_set_level (ad_level a) ap))
        in if ap_formatter ap = None then ap\<lparr>ap_formatter := fm\<rparr> else ap)"
proof -
  obtain ap where ap: "appender_of_define env j a = Some ap" "ap_formatter ap = None"
    "\<not> ap_has_formatter ap"
    "case ap_sink ap of StdOutAppender \<Rightarrow> ad_type a = 2 | FileAppender name _ _ \<Rightarrow> ad_type a = 1 \<and> name = ad_file a"
    using a by (auto simp: known_appender_def appender_of_define_def new_FileAppender_def
        new_StdOutAppender_def)
  then show thesis
    by (intro that [of ap])
      (auto simp: realises_def set_define_formatter_def appender_set_level_def compiled_def
        appender_set_formatter_def Let_def split: prod.splits)
qed

lemma apply_appender_effect:
  assumes wf: "wf_log st" and lid: "lid < length (ls_loggers st)" and a: "known_appender a"
  shows "\<exists>st' ap. apply_appender env junk name lid a st = Inr st' \<and> wf_log st' \<and>
    ls_appenders st' = ls_appenders st @ [ap] \<and> realises (lg_formatter (ls_loggers st ! lid)) a ap \<and>
    ls_loggers st' = (ls_loggers st)[lid := (ls_loggers st ! lid)\<lparr>lg_appenders :=
      lg_appenders (ls_loggers st ! lid) @ [length (ls_appenders st)]\<rparr>] \<and>
    ls_mgr st' = ls_mgr st \<and> ls_root st' = ls_root st"
proof -
  let ?lg = "ls_loggers st ! lid" and ?n = "length (ls_appenders st)"
  have fm: "lg_formatter ?lg \<noteq> None"
    using wf_log_logger [OF wf lid] by (simp add: wf_logger_def)
  obtain ap where ap: "appender_of_define env (junk ?n) a = Some ap"
    "realises (lg_formatter ?lg) a
       (let ap = fst (set_define_formatter name a (appender_set_level (ad_level a) ap))
        in if ap_formatter ap = None then ap\<lparr>ap_formatter := lg_formatter ?lg\<rparr> else ap)"
    using define_appender_realises [OF a fm] .
  obtain ap' cout where s: "set_define_formatter name a (appender_set_level (ad_level a) ap) = (ap', cout)"
    by fastforce
  let ?st = "snd (alloc_appender ap' (add_cout cout st))"
  have st: "ls_loggers ?st = ls_loggers st" "ls_mgr ?st = ls_mgr st" "ls_root ?st = ls_root st"
    "ls_appenders ?st = ls_appenders st @ [ap']"
    by (simp_all add: alloc_appender_def)
  have eq: "apply_appender env junk name lid a st = Inr (AddAppender lid ?n ?st)"
    using ap(1) s by (simp add: apply_appender_def alloc_appender_def)
  have "wf_log (AddAppender lid ?n ?st)"
    using wf lid st by (intro wf_AddAppender wf_alloc_appender wf_add_cout) simp_all
  moreover have "ls_appenders (AddAppender lid ?n ?st) = ls_appenders st @
      [if ap_formatter ap' = None then ap'\<lparr>ap_formatter := lg_formatter ?lg\<rparr> else ap']"
    by (simp add: AddAppender_def Let_def upd_appender_def st nth_append)
  moreover have "ls_loggers (AddAppender lid ?n ?st)
      = (ls_loggers st)[lid := ?lg\<lparr>lg_appenders := lg_appenders ?lg @ [?n]\<rparr>]"
    "ls_mgr (AddAppender lid ?n ?st) = ls_mgr st" "ls_root (AddAppender lid ?n ?st) = ls_root st"
    by (simp_all add: AddAppender_def Let_def st)
  ultimately show ?thesis using eq ap(2) s by (auto simp: Let_def)
qed

lemma apply_appenders_effect:
  "wf_log st \<Longrightarrow> lid < length (ls_loggers st) \<Longrightarrow> list_all known_appender as \<Longrightarrow>
   \<exists>st' aps. apply_appenders env junk name lid as st = Inr st' \<and> wf_log st' \<and>
     ls_appenders st' = ls_appenders st @ aps \<and>
     list_all2 (realises (lg_formatter (ls_loggers st ! lid))) as aps \<and>
     ls_loggers st' = (ls_loggers st)[lid := (ls_loggers st ! lid)\<lparr>lg_appenders :=
       lg_appenders (ls_loggers st ! lid)
         @ [length (ls_appenders st) ..< length (ls_appenders st) + length aps]\<rparr>] \<and>
     ls_mgr st' = ls_mgr st \<and> ls_root st' = ls_root st"
proof (induction as arbitrary: st)
  case (Cons a as)
  let ?lg = "ls_loggers st ! lid"
  obtain st1 ap where 1: "apply_appender env junk name lid a st = Inr st1" "wf_log st1"
    "ls_appenders st1 = ls_appenders st @ [ap]" "realises (lg_formatter ?lg) a ap"
    "ls_loggers st1 = (ls_loggers st)[lid := ?lg\<lparr>lg_appenders := lg_appenders ?lg @ [length (ls_appenders st)]\<rparr>]"
    "ls_mgr st1 = ls_mgr st" "ls_root st1 = ls_root st"
    using apply_appender_effect [of st lid a env junk name] Cons.prems by auto
  have lid: "lid < length (ls_loggers st1)" using 1(5) Cons.prems(2) by simp
  then obtain st' aps where 2: "apply_appenders env junk name lid as st1 = Inr st'" "wf_log st'"
    "ls_appenders st' = ls_appenders st1 @ aps"
    "list_all2 (realises (lg_formatter (ls_loggers st1 ! lid))) as aps"
    "ls_loggers st' = (ls_loggers st1)[lid := (ls_loggers st1 ! lid)\<lparr>lg_appenders :=
       lg_appenders (ls_loggers st1 ! lid)
         @ [length (ls_appenders st1) ..< length (ls_appenders st1) + length aps]\<rparr>]"
    "ls_mgr st' = ls_mgr st1" "ls_root st' = ls_root st1"
    using Cons.IH [OF 1(2)] Cons.prems(3) by auto
  have "ls_loggers st' = (ls_loggers st)[lid := ?lg\<lparr>lg_appenders := lg_appenders ?lg
      @ [length (ls_appenders st) ..< length (ls_appenders st) + length (ap # aps)]\<rparr>]"
    using 1(3,5) 2(5) Cons.prems(2) by (simp add: upt_conv_Cons del: upt_Suc)
  then show ?case
    using 1 2 Cons.prems(2) by (intro exI [of _ st'] exI [of _ "ap # aps"]) auto
qed auto

lemma GetLogger_same [simp]:
  "ls_appenders (snd (GetLogger name st)) = ls_appenders st"
  "ls_root (snd (GetLogger name st)) = ls_root st"
  "ls_cout (snd (GetLogger name st)) = ls_cout st"
  by (simp_all add: GetLogger_def Let_def split: option.splits)

lemma GetLogger_named:
  assumes wf: "wf_log st" and g: "GetLogger name st = (lid, st')"
  shows "lid < length (ls_loggers st')" "smap_find name (ls_mgr st') = Some lid"
    "n \<noteq> name \<Longrightarrow> named st' n = named st n"
    "named st name = None \<Longrightarrow> lg_appenders (ls_loggers st' ! lid) = []"
    "named st name = Some lg \<Longrightarrow> ls_loggers st' ! lid = lg"
proof -
  have wf': "wf_log st'" using wf_GetLogger [OF wf, of name] g by simp
  have inv: "smap_inv (ls_mgr st)" using wf by (simp add: wf_log_def)
  show find: "smap_find name (ls_mgr st') = Some lid"
    using loggers.lookup_get [OF wf TrueI, of name] g by simp
  then show "lid < length (ls_loggers st')" by (rule mgr_bound [OF wf'])
  have miss: "smap_find name (ls_mgr st) = None \<Longrightarrow>
      lid = length (ls_loggers st) \<and>
      ls_loggers st' = ls_loggers st @ [(new_Logger name)\<lparr>lg_root := Some (ls_root st)\<rparr>] \<and>
      ls_mgr st' = smap_put name (length (ls_loggers st)) (ls_mgr st)"
    using g by (auto simp: GetLogger_miss)
  show "named st' n = named st n" if "n \<noteq> name"
  proof (cases "smap_find name (ls_mgr st)")
    case None
    with miss that show ?thesis
      using mgr_bound [OF wf, of n]
      by (cases "smap_find n (ls_mgr st)") (simp_all add: named_def smap.find_put [OF inv] nth_append)
  next
    case (Some l)
    with g show ?thesis by (simp add: GetLogger_hit)
  qed
  show "named st name = None \<Longrightarrow> lg_appenders (ls_loggers st' ! lid) = []"
    using miss by (simp add: named_def nth_append new_Logger_def)
  show "named st name = Some lg \<Longrightarrow> ls_loggers st' ! lid = lg"
    using g by (auto simp: named_def GetLogger_hit)
qed

lemma mgr_inj:
  "wf_log st \<Longrightarrow> smap_find a (ls_mgr st) = Some lid \<Longrightarrow> smap_find b (ls_mgr st) = Some lid \<Longrightarrow> a = b"
  unfolding wf_log_def by blast

lemma named_upd_logger:
  assumes wf: "wf_log st" and find: "smap_find name (ls_mgr st) = Some lid"
    and same: "ls_mgr st' = ls_mgr st" "ls_loggers st' = (ls_loggers st)[lid := lg]"
  shows "named st' n = (if n = name then Some lg else named st n)"
proof (cases "smap_find n (ls_mgr st)")
  case None
  then show ?thesis using find same by (auto simp: named_def)
next
  case (Some l)
  then have "l = lid \<longleftrightarrow> n = name" using mgr_inj [OF wf _ find] find by (metis option.inject)
  then show ?thesis using Some find same mgr_bound [OF wf find] by (auto simp: named_def)
qed

lemma SetFormatter_pattern_effect:
  assumes "lid < length (ls_loggers st)" and p: "p \<noteq> []"
  shows "let st' = logger_SetFormatter_pattern lid p st; lg = ls_loggers st ! lid in
    ls_loggers st' = (ls_loggers st)[lid := (case compiled p of None \<Rightarrow> lg | Some fm \<Rightarrow> lg\<lparr>lg_formatter := Some fm\<rparr>)] \<and>
    length (ls_appenders st') = length (ls_appenders st) \<and>
    (\<forall>aid < length (ls_appenders st). aid \<notin> set (lg_appenders lg) \<longrightarrow>
       ls_appenders st' ! aid = ls_appenders st ! aid) \<and>
    ls_mgr st' = ls_mgr st \<and> ls_root st' = ls_root st"
proof -
  have mgr: "ls_mgr (foldl (\<lambda>st aid. upd_appender aid (inherit_formatter val) st) st aids) = ls_mgr st"
    "ls_root (foldl (\<lambda>st aid. upd_appender aid (inherit_formatter val) st) st aids) = ls_root st"
    for val aids st by (induction aids arbitrary: st) simp_all
  show ?thesis
    using assms
    by (cases "new_LogFormatter p")
      (simp add: logger_SetFormatter_pattern_def logger_SetFormatter_def compiled_def Let_def
        inherit_all_same inherit_all_nth mgr)
qed

text \<open>The appenders of the logger of a name, and what applying a definition may change besides that
  logger: appenders it had before.\<close>

definition own_appenders :: "log_state \<Rightarrow> string \<Rightarrow> nat set" where
  "own_appenders st name = (case named st name of None \<Rightarrow> {} | Some lg \<Rightarrow> set (lg_appenders lg))"

lemma own_appenders_bound: "wf_log st \<Longrightarrow> aid \<in> own_appenders st name \<Longrightarrow> aid < length (ls_appenders st)"
  using mgr_bound [of st name]
  by (auto simp: own_appenders_def named_def wf_logger_def list_all_iff attachable_def
      dest!: wf_log_logger split: option.splits)

text \<open>The logger of a definition before its appenders are made: fetched, with level and formatter, and
  without appenders.\<close>

definition prepared :: "log_define \<Rightarrow> nat \<Rightarrow> log_state \<Rightarrow> log_state" where
  "prepared d lid st =
     (let st = logger_SetLevel lid (ld_level d) st;
          st = (if ld_formatter d \<noteq> [] then logger_SetFormatter_pattern lid (ld_formatter d) st else st)
      in ClearAppenders lid st)"

definition prepared_logger :: "log_define \<Rightarrow> logger \<Rightarrow> logger" where
  "prepared_logger d lg = lg\<lparr>lg_level := ld_level d,
     lg_formatter := (case compiled (ld_formatter d) of None \<Rightarrow> lg_formatter lg | Some fm \<Rightarrow> Some fm),
     lg_appenders := []\<rparr>"

lemma no_appenders: "lg_appenders (prepared_logger d lg) = []"
  by (simp add: prepared_logger_def)

lemma prepared_effect:
  assumes wf: "wf_log st" and lid: "lid < length (ls_loggers st)"
  shows "wf_log (prepared d lid st)" "ls_mgr (prepared d lid st) = ls_mgr st"
    "length (ls_appenders (prepared d lid st)) = length (ls_appenders st)"
    "aid < length (ls_appenders st) \<Longrightarrow> aid \<notin> set (lg_appenders (ls_loggers st ! lid)) \<Longrightarrow>
       ls_appenders (prepared d lid st) ! aid = ls_appenders st ! aid"
    "ls_loggers (prepared d lid st) = (ls_loggers st)[lid := prepared_logger d (ls_loggers st ! lid)]"
proof -
  define st2 where "st2 = logger_SetLevel lid (ld_level d) st"
  define st3 where "st3 = (if ld_formatter d \<noteq> [] then logger_SetFormatter_pattern lid (ld_formatter d) st2 else st2)"
  have eq: "prepared d lid st = ClearAppenders lid st3" by (simp add: prepared_def st2_def st3_def Let_def)
  let ?lg = "ls_loggers st ! lid"
  have 2: "wf_log st2" "ls_loggers st2 = (ls_loggers st)[lid := ?lg\<lparr>lg_level := ld_level d\<rparr>]"
    "ls_appenders st2 = ls_appenders st" "ls_mgr st2 = ls_mgr st"
    using wf_logger_SetLevel [OF wf lid] by (simp_all add: st2_def logger_SetLevel_def)
  have 3: "wf_log st3" "ls_mgr st3 = ls_mgr st" "length (ls_appenders st3) = length (ls_appenders st)"
    "\<And>aid. aid < length (ls_appenders st) \<Longrightarrow> aid \<notin> set (lg_appenders ?lg) \<Longrightarrow>
       ls_appenders st3 ! aid = ls_appenders st ! aid"
    "ls_loggers st3 = (ls_loggers st)[lid := ?lg\<lparr>lg_level := ld_level d,
       lg_formatter := (case compiled (ld_formatter d) of None \<Rightarrow> lg_formatter ?lg | Some fm \<Rightarrow> Some fm)\<rparr>]"
    using SetFormatter_pattern_effect [of lid st2 "ld_formatter d"] 2 lid
      wf_logger_SetFormatter_pattern [of st2 lid "ld_formatter d"]
    by (simp_all add: st3_def Let_def compiled_def split: option.splits if_splits)
  show "wf_log (prepared d lid st)" "ls_mgr (prepared d lid st) = ls_mgr st"
    "length (ls_appenders (prepared d lid st)) = length (ls_appenders st)"
    "aid < length (ls_appenders st) \<Longrightarrow> aid \<notin> set (lg_appenders (ls_loggers st ! lid)) \<Longrightarrow>
       ls_appenders (prepared d lid st) ! aid = ls_appenders st ! aid"
    "ls_loggers (prepared d lid st) = (ls_loggers st)[lid := prepared_logger d (ls_loggers st ! lid)]"
    using wf_ClearAppenders [of st3 lid] 3 lid by (simp_all add: eq ClearAppenders_def prepared_logger_def)
qed

lemma apply_define_effect:
  assumes wf: "wf_log st" and known: "list_all known_appender (ld_appenders d)"
  shows "\<exists>st' lg. apply_define env junk d st = Inr st' \<and> wf_log st' \<and>
    named st' (ld_name d) = Some lg \<and> configured st' d lg \<and>
    set (lg_appenders lg) \<subseteq> {length (ls_appenders st) ..< length (ls_appenders st')} \<and>
    (\<forall>n. n \<noteq> ld_name d \<longrightarrow> named st' n = named st n) \<and>
    length (ls_appenders st) \<le> length (ls_appenders st') \<and>
    (\<forall>aid < length (ls_appenders st). aid \<notin> own_appenders st (ld_name d) \<longrightarrow>
       ls_appenders st' ! aid = ls_appenders st ! aid)"
proof -
  obtain lid st1 where g: "GetLogger (ld_name d) st = (lid, st1)" by fastforce
  note named1 = GetLogger_named [OF wf g]
  have wf1: "wf_log st1" and aps1: "ls_appenders st1 = ls_appenders st"
    using wf_GetLogger [OF wf, of "ld_name d"] GetLogger_same(1) [of "ld_name d" st] g by simp_all
  let ?st = "prepared d lid st1" and ?lg = "prepared_logger d (ls_loggers st1 ! lid)"
  note p = prepared_effect [OF wf1 named1(1), where d = d]
  have own: "set (lg_appenders (ls_loggers st1 ! lid)) = own_appenders st (ld_name d)"
    using named1(1,4,5) by (cases "named st (ld_name d)") (simp_all add: own_appenders_def)
  obtain st' aps where 5: "apply_appenders env junk (ld_name d) lid (ld_appenders d) ?st = Inr st'"
    "wf_log st'" "ls_appenders st' = ls_appenders ?st @ aps"
    "list_all2 (realises (lg_formatter ?lg)) (ld_appenders d) aps"
    "ls_loggers st' = (ls_loggers st1)[lid := ?lg\<lparr>lg_appenders :=
       [length (ls_appenders st) ..< length (ls_appenders st) + length aps]\<rparr>]"
    "ls_mgr st' = ls_mgr st1"
    using apply_appenders_effect [of ?st lid "ld_appenders d" env junk "ld_name d"] p known named1(1) aps1
    by (auto simp: no_appenders)
  have eq: "apply_define env junk d st = Inr st'"
    using g 5(1) unfolding prepared_def apply_define_def by (simp add: Let_def)
  let ?lg' = "?lg\<lparr>lg_appenders := [length (ls_appenders st) ..< length (ls_appenders st) + length aps]\<rparr>"
  note named' = named_upd_logger [OF wf1 named1(2) 5(6,5)]
  have "length aps = length (ld_appenders d)" using 5(4) by (simp add: list_all2_lengthD)
  then have "configured st' d ?lg'"
    using 5(4) p(3) aps1 unfolding configured_def 5(3)
    by (simp add: prepared_logger_def list_all2_conv_all_nth nth_append split: option.splits)
  then show ?thesis
    using eq 5(2,3) named' named1(3) p(3,4) own aps1
    by (intro exI [of _ st'] exI [of _ ?lg']) (simp add: nth_append)
qed

subsection \<open>The two loops\<close>

text \<open>The definitions a new set changes, with respect to the old one.\<close>

definition changed :: "log_define list \<Rightarrow> log_define list \<Rightarrow> log_define set" where
  "changed old new = {d \<in> set new. kfind ld_name (ld_name d) old \<noteq> Some d}"

lemma changed_simps [simp]:
  "changed old [] = {}"
  "changed old (d # ds) =
     (if kfind ld_name (ld_name d) old = Some d then changed old ds else insert d (changed old ds))"
  by (auto simp: changed_def)

lemma configured_cong:
  "configured st d lg \<Longrightarrow> (\<And>aid. aid \<in> set (lg_appenders lg) \<Longrightarrow> ls_appenders st' ! aid = ls_appenders st ! aid) \<Longrightarrow>
   configured st' d lg"
  by (auto simp: configured_def elim!: list.rel_mono_strong)

lemma apply_new_effect:
  "wf_log st \<Longrightarrow> \<forall>d \<in> set new. list_all known_appender (ld_appenders d) \<Longrightarrow> distinct (map ld_name new) \<Longrightarrow>
   \<exists>st'. apply_new env junk old new st = Inr st' \<and> wf_log st' \<and>
     (\<forall>n. n \<notin> ld_name ` changed old new \<longrightarrow> named st' n = named st n) \<and>
     (\<forall>d \<in> changed old new. \<exists>lg. named st' (ld_name d) = Some lg \<and> configured st' d lg \<and>
        set (lg_appenders lg) \<subseteq> {length (ls_appenders st) ..< length (ls_appenders st')}) \<and>
     length (ls_appenders st) \<le> length (ls_appenders st') \<and>
     (\<forall>aid < length (ls_appenders st).
        (\<forall>d \<in> changed old new. aid \<notin> own_appenders st (ld_name d)) \<longrightarrow>
        ls_appenders st' ! aid = ls_appenders st ! aid)"
proof (induction new arbitrary: st)
  case (Cons d ds)
  show ?case
  proof (cases "kfind ld_name (ld_name d) old = Some d")
    case True
    with Cons.IH [of st] Cons.prems show ?thesis by simp
  next
    case False
    from Cons.prems have fresh: "ld_name d \<notin> ld_name ` changed old ds" by (auto simp: changed_def)
    obtain st1 lg where 1: "apply_define env junk d st = Inr st1" "wf_log st1"
      "named st1 (ld_name d) = Some lg" "configured st1 d lg"
      "set (lg_appenders lg) \<subseteq> {length (ls_appenders st) ..< length (ls_appenders st1)}"
      "\<And>n. n \<noteq> ld_name d \<Longrightarrow> named st1 n = named st n"
      "length (ls_appenders st) \<le> length (ls_appenders st1)"
      "\<And>aid. aid < length (ls_appenders st) \<Longrightarrow> aid \<notin> own_appenders st (ld_name d) \<Longrightarrow>
         ls_appenders st1 ! aid = ls_appenders st ! aid"
      using apply_define_effect [of st d env junk] Cons.prems by auto
    obtain st' where 2: "apply_new env junk old ds st1 = Inr st'" "wf_log st'"
      "\<And>n. n \<notin> ld_name ` changed old ds \<Longrightarrow> named st' n = named st1 n"
      "\<And>d. d \<in> changed old ds \<Longrightarrow> \<exists>lg. named st' (ld_name d) = Some lg \<and> configured st' d lg \<and>
         set (lg_appenders lg) \<subseteq> {length (ls_appenders st1) ..< length (ls_appenders st')}"
      "length (ls_appenders st1) \<le> length (ls_appenders st')"
      "\<And>aid. aid < length (ls_appenders st1) \<Longrightarrow>
         \<forall>d \<in> changed old ds. aid \<notin> own_appenders st1 (ld_name d) \<Longrightarrow>
         ls_appenders st' ! aid = ls_appenders st1 ! aid"
      using Cons.IH [OF 1(2)] Cons.prems by auto
    have own: "own_appenders st1 (ld_name d') = own_appenders st (ld_name d')" if "d' \<in> changed old ds" for d'
    proof -
      have "ld_name d' \<noteq> ld_name d" using that fresh by (metis imageI)
      then show ?thesis by (simp add: own_appenders_def 1(6))
    qed
    have "ls_appenders st' ! aid = ls_appenders st1 ! aid" if "aid \<in> set (lg_appenders lg)" for aid
      using that 1(5) own_appenders_bound [OF Cons.prems(1)] by (intro 2(6)) (fastforce simp: own)+
    then have "configured st' d lg" by (rule configured_cong [OF 1(4)])
    moreover have "named st' (ld_name d) = Some lg" using 2(3) [OF fresh] 1(3) by simp
    moreover have "set (lg_appenders lg) \<subseteq> {length (ls_appenders st) ..< length (ls_appenders st')}"
      using 1(5) 2(5) by fastforce
    moreover have "\<exists>lg. named st' (ld_name d') = Some lg \<and> configured st' d' lg \<and>
        set (lg_appenders lg) \<subseteq> {length (ls_appenders st) ..< length (ls_appenders st')}"
      if "d' \<in> changed old ds" for d'
      using 2(4) [OF that] 1(7) by fastforce
    moreover have "ls_appenders st' ! aid = ls_appenders st ! aid"
      if "aid < length (ls_appenders st)" "\<forall>d' \<in> changed old (d # ds). aid \<notin> own_appenders st (ld_name d')" for aid
      using that False 1(7) 1(8) [of aid] 2(6) [of aid] own by simp
    ultimately show ?thesis
      using False 1(1,6,7) 2(1,2,3,5) by (intro exI [of _ st']) simp
  qed
qed simp

lemma silence_effect:
  assumes wf: "wf_log st"
  shows "wf_log (silence_logger name st) \<and> ls_appenders (silence_logger name st) = ls_appenders st \<and>
    (\<exists>lg. named (silence_logger name st) name = Some lg \<and> lg_level lg = UNKNOW \<and> lg_appenders lg = []) \<and>
    (\<forall>n. n \<noteq> name \<longrightarrow> named (silence_logger name st) n = named st n)"
proof -
  obtain lid st1 where g: "GetLogger name st = (lid, st1)" by fastforce
  note named1 = GetLogger_named [OF wf g]
  have wf1: "wf_log st1" and aps: "ls_appenders st1 = ls_appenders st"
    using wf_GetLogger [OF wf, of name] GetLogger_same(1) [of name st] g by simp_all
  let ?lg = "(ls_loggers st1 ! lid)\<lparr>lg_level := UNKNOW, lg_appenders := []\<rparr>"
  have st': "silence_logger name st = ClearAppenders lid (logger_SetLevel lid UNKNOW st1)"
    using g by (simp add: silence_logger_def)
  have "wf_log (silence_logger name st)"
    unfolding st' using wf1 named1(1)
    by (intro wf_ClearAppenders wf_logger_SetLevel) (simp_all add: logger_SetLevel_def)
  moreover have "named (silence_logger name st) n = (if n = name then Some ?lg else named st1 n)" for n
    unfolding st' using named1(1)
    by (intro named_upd_logger [OF wf1 named1(2)]) (simp_all add: ClearAppenders_def logger_SetLevel_def)
  ultimately show ?thesis
    using named1(3) aps by (simp add: st' ClearAppenders_def logger_SetLevel_def)
qed

lemma remove_old_effect:
  "wf_log st \<Longrightarrow>
   wf_log (remove_old new old st) \<and> ls_appenders (remove_old new old st) = ls_appenders st \<and>
   (\<forall>n. if n \<in> ld_name ` set old \<and> kfind ld_name n new = None
        then \<exists>lg. named (remove_old new old st) n = Some lg \<and> lg_level lg = UNKNOW \<and> lg_appenders lg = []
        else named (remove_old new old st) n = named st n)"
proof (induction old arbitrary: st)
  case (Cons d ds)
  let ?st = "if kfind ld_name (ld_name d) new = None then silence_logger (ld_name d) st else st"
  have s: "wf_log ?st" "ls_appenders ?st = ls_appenders st"
    "\<And>n. n \<noteq> ld_name d \<Longrightarrow> named ?st n = named st n"
    "kfind ld_name (ld_name d) new \<noteq> None \<Longrightarrow> named ?st n = named st n"
    "kfind ld_name (ld_name d) new = None \<Longrightarrow>
       \<exists>lg. named ?st (ld_name d) = Some lg \<and> lg_level lg = UNKNOW \<and> lg_appenders lg = []" for n
    using silence_effect [OF Cons.prems, of "ld_name d"] Cons.prems by auto
  show ?case
  proof (intro conjI allI)
    fix n
    have IH: "if n \<in> ld_name ` set ds \<and> kfind ld_name n new = None
      then \<exists>lg. named (remove_old new ds ?st) n = Some lg \<and> lg_level lg = UNKNOW \<and> lg_appenders lg = []
      else named (remove_old new ds ?st) n = named ?st n"
      using Cons.IH [OF s(1)] by blast
    show "if n \<in> ld_name ` set (d # ds) \<and> kfind ld_name n new = None
      then \<exists>lg. named (remove_old new (d # ds) st) n = Some lg \<and> lg_level lg = UNKNOW \<and> lg_appenders lg = []
      else named (remove_old new (d # ds) st) n = named st n"
    proof (cases "n = ld_name d")
      case True
      with IH s(4,5) show ?thesis
        unfolding remove_old.simps by (cases "kfind ld_name (ld_name d) new") (simp_all split: if_splits)
    next
      case False
      with IH s(3) show ?thesis unfolding remove_old.simps by (simp split: if_splits)
    qed
  qed (use Cons.IH [OF s(1)] s(2) in simp_all)
qed simp

subsection \<open>The listener as a whole\<close>

lemma P_LOG_keeps_loggers:
  assumes "wf_log st" "lid < length (ls_loggers st)"
  obtains st' where "P_LOG env site lid level msg st = Inr st'" "wf_log st'" "named st' = named st"
  using P_LOG_total [OF assms, of env site level msg] by (fastforce simp: named_def)

text \<open>The loggers of two states, name by name, before and after a change of the definitions.\<close>

definition brought_in_line ::
  "log_define list \<Rightarrow> log_define list \<Rightarrow> log_state \<Rightarrow> log_state \<Rightarrow> bool" where
  "brought_in_line old new st st' \<longleftrightarrow>
     (\<forall>name. case kfind ld_name name new of
       Some d \<Rightarrow> if kfind ld_name name old = Some d then named st' name = named st name
                 else \<exists>lg. named st' name = Some lg \<and> configured st' d lg
     | None \<Rightarrow> if kfind ld_name name old \<noteq> None
               then \<exists>lg. named st' name = Some lg \<and> lg_level lg = UNKNOW \<and> lg_appenders lg = []
               else named st' name = named st name)"

lemma configuration_applies:
  assumes wf: "wf_log st" and new: "ksorted ld_name new"
    and known: "\<forall>d \<in> set new. list_all known_appender (ld_appenders d)"
  shows "\<exists>st'. on_logs_changed env junk site old new st = Inr st' \<and> wf_log st' \<and>
    brought_in_line old new st st'"
proof -
  have root: "GetRoot st < length (ls_loggers st)" using wf by (simp add: GetRoot_def wf_log_def)
  obtain st1 where 1: "P_LOG env site (GetRoot st) INFO ''on_logger_conf_changed'' st = Inr st1"
    "wf_log st1" "named st1 = named st"
    by (rule P_LOG_keeps_loggers [OF wf root])
  obtain st2 where 2: "apply_new env junk old new st1 = Inr st2" "wf_log st2"
    "\<And>n. n \<notin> ld_name ` changed old new \<Longrightarrow> named st2 n = named st1 n"
    "\<And>d. d \<in> changed old new \<Longrightarrow> \<exists>lg. named st2 (ld_name d) = Some lg \<and> configured st2 d lg"
    using apply_new_effect [OF 1(2) known ksorted_distinct [OF new]] by fast
  let ?st' = "remove_old new old st2"
  note 3 = remove_old_effect [OF 2(2), of new old]
  have conf: "configured st2 d lg \<Longrightarrow> configured ?st' d lg" for d lg
    using 3 by (auto intro: configured_cong)
  have old: "n \<in> ld_name ` set old \<longleftrightarrow> kfind ld_name n old \<noteq> None" for n
    by (simp add: kfind_None_iff)
  have "case kfind ld_name name new of
       Some d \<Rightarrow> if kfind ld_name name old = Some d then named ?st' name = named st name
                 else \<exists>lg. named ?st' name = Some lg \<and> configured ?st' d lg
     | None \<Rightarrow> if kfind ld_name name old \<noteq> None
               then \<exists>lg. named ?st' name = Some lg \<and> lg_level lg = UNKNOW \<and> lg_appenders lg = []
               else named ?st' name = named st name" for name
  proof (cases "kfind ld_name name new")
    case None
    then have "name \<notin> ld_name ` changed old new" by (auto simp: kfind_None_iff changed_def)
    then have "named st2 name = named st name" using 2(3) 1(3) by simp
    then show ?thesis using 3 None old [of name] by simp
  next
    case (Some d)
    note d = kfind_SomeD [OF this]
    have "named ?st' name = named st2 name" using 3 Some by simp
    moreover have "name \<notin> ld_name ` changed old new" if "kfind ld_name name old = Some d"
      using that Some kfind_member [OF new] by (fastforce simp: changed_def)
    moreover have "d \<in> changed old new" if "kfind ld_name name old \<noteq> Some d"
      using that d by (auto simp: changed_def)
    ultimately show ?thesis
      using Some d 2(3) 2(4) [of d] 1(3) conf by auto
  qed
  then show ?thesis using 1(1) 2(1) 3 by (intro exI [of _ ?st']) (simp add: on_logs_changed_def brought_in_line_def)
qed

text \<open>Applying a configuration. When the appenders of the new definitions are files and standard
  outputs, the listener returns and keeps the logging state well-formed; for every name, the logger
  of that name ends up as its new definition asks if the old set had no definition of that name or
  a different one, with level UNKNOW and without appenders if only the old set had one, and
  exactly as it was in all other cases.\<close>

theorem configuration_applied:
  assumes wf: "wf_log st" and new: "ksorted ld_name new"
    and known: "\<forall>d \<in> set new. list_all known_appender (ld_appenders d)"
  shows "\<exists>st'. on_logs_changed env junk site old new st = Inr st' \<and> wf_log st' \<and>
    brought_in_line old new st st'"
  by (rule configuration_applies [OF assms])

theorem configuration_applied_witness:
  "(let d = \<lparr>ld_name = ''net'', ld_level = WARN, ld_formatter = [],
             ld_appenders = [\<lparr>ad_type = 2, ad_level = ERROR, ad_formatter = [], ad_file = []\<rparr>]\<rparr>
    in \<forall>env junk site. \<exists>st'. on_logs_changed env junk site [] [d] init_log_state = Inr st' \<and>
         (\<exists>lg. named st' ''net'' = Some lg \<and> configured st' d lg))"
proof -
  let ?d = "\<lparr>ld_name = ''net'', ld_level = WARN, ld_formatter = [],
    ld_appenders = [\<lparr>ad_type = 2, ad_level = ERROR, ad_formatter = [], ad_file = []\<rparr>]\<rparr>"
  have "\<exists>st'. on_logs_changed env junk site [] [?d] init_log_state = Inr st' \<and>
      (\<exists>lg. named st' ''net'' = Some lg \<and> configured st' ?d lg)" for env junk site
    using configuration_applied [OF wf_init, of "[?d]" env junk site "[]"]
    by (auto simp: known_appender_def brought_in_line_def dest!: spec [of _ "''net''"])
  then show ?thesis by (simp only: Let_def) blast
qed

text \<open>Definitions read from a document only ask for known appenders, so applying them never
  dereferences the null appender pointer.\<close>

lemma appender_from_node_known:
  "snd (appender_from_node lib n) = Inr (Some a) \<Longrightarrow> known_appender a"
  by (auto simp: appender_from_node_def pbind_Inr prints_def quiet_def known_appender_def
      split: if_splits)

lemma appenders_from_nodes_known:
  "snd (appenders_from_nodes lib ns) = Inr as \<Longrightarrow> list_all known_appender as"
  by (induction ns arbitrary: as)
    (auto simp: pbind_Inr quiet_def dest: appender_from_node_known split: option.splits)

lemma log_define_from_string_known:
  "snd (log_define_from_string lib t) = Inr d \<Longrightarrow> list_all known_appender (ld_appenders d)"
  by (auto simp: log_define_from_string_def log_define_from_node_def pbind_Inr quiet_def
      dest: appenders_from_nodes_known split: if_splits)

end
