(* ===== verification/Casts.thy ===== *)
theory Casts
  imports Yaml StdMap
begin

text \<open>
  The conversions between values and text of \<open>primo/config.h\<close>: the partial specialisations of
  \<open>LexicalCast\<close> for the containers of the C++ library. Each takes the conversion of the element type
  as an argument, as the templates do. An ordered set is the list of its elements in iteration
  order, an ordered map a list of pairs; the unordered containers are a set and a map, and printing
  them takes the list \<open>it\<close> of their elements in the unspecified order in which they are visited.
\<close>

subsection \<open>Sequences and sets\<close>

text \<open>The loop the sequence conversions share: element \<open>i\<close> of the document is printed and
  converted.\<close>

definition elements_from_string ::
  "yaml_lib \<Rightarrow> (string \<Rightarrow> 'a outcome) \<Rightarrow> string \<Rightarrow> 'a list outcome" where
  "elements_from_string lib elem v =
     obind (y_load lib v) (\<lambda>node.
       omap (\<lambda>i. obind (node_at lib node i) (\<lambda>n. elem (y_dump lib n))) [0 ..< node_size node])"

definition elements_to_string ::
  "yaml_lib \<Rightarrow> ('a \<Rightarrow> string outcome) \<Rightarrow> 'a list \<Rightarrow> string outcome" where
  "elements_to_string lib elem v =
     obind (omap (\<lambda>i. obind (elem i) (y_load lib)) v) (\<lambda>ns. Inr (y_dump lib (YSeq ns)))"

definition vector_from_string :: "yaml_lib \<Rightarrow> (string \<Rightarrow> 'a outcome) \<Rightarrow> string \<Rightarrow> 'a list outcome" where
  "vector_from_string lib elem v = elements_from_string lib elem v"

definition vector_to_string :: "yaml_lib \<Rightarrow> ('a \<Rightarrow> string outcome) \<Rightarrow> 'a list \<Rightarrow> string outcome" where
  "vector_to_string lib elem v = elements_to_string lib elem v"

definition list_from_string :: "yaml_lib \<Rightarrow> (string \<Rightarrow> 'a outcome) \<Rightarrow> string \<Rightarrow> 'a list outcome" where
  "list_from_string lib elem v = elements_from_string lib elem v"

definition list_to_string :: "yaml_lib \<Rightarrow> ('a \<Rightarrow> string outcome) \<Rightarrow> 'a list \<Rightarrow> string outcome" where
  "list_to_string lib elem v = elements_to_string lib elem v"

text \<open>\<open>std::set<T>\<close>; \<open>key\<close> is the part of an element its \<open>operator<\<close> compares.\<close>

definition set_from_string ::
  "('a \<Rightarrow> 'k :: linorder) \<Rightarrow> yaml_lib \<Rightarrow> (string \<Rightarrow> 'a outcome) \<Rightarrow> string \<Rightarrow> 'a list outcome" where
  "set_from_string key lib elem v =
     obind (elements_from_string lib elem v) (\<lambda>xs. Inr (kset_of_list key xs))"

definition set_to_string :: "yaml_lib \<Rightarrow> ('a \<Rightarrow> string outcome) \<Rightarrow> 'a list \<Rightarrow> string outcome" where
  "set_to_string lib elem v = elements_to_string lib elem v"

definition unordered_set_from_string ::
  "yaml_lib \<Rightarrow> (string \<Rightarrow> 'a outcome) \<Rightarrow> string \<Rightarrow> 'a set outcome" where
  "unordered_set_from_string lib elem v =
     obind (elements_from_string lib elem v) (\<lambda>xs. Inr (set xs))"

definition unordered_set_to_string ::
  "yaml_lib \<Rightarrow> ('a \<Rightarrow> string outcome) \<Rightarrow> 'a list \<Rightarrow> string outcome" where
  "unordered_set_to_string lib elem it = elements_to_string lib elem it"

subsection \<open>Maps\<close>

text \<open>Iterating a node yields the pairs of a map; an element of a sequence has no key, and asking for
  its text throws.\<close>

fun node_pairs :: "ynode \<Rightarrow> (ynode \<times> ynode) list outcome" where
  "node_pairs (YMap ps) = Inr ps"
| "node_pairs (YSeq (n # ns)) = Inl (Throw (Yaml_exception ''invalid node''))"
| "node_pairs _ = Inr []"

definition pairs_from_string ::
  "yaml_lib \<Rightarrow> (string \<Rightarrow> 'a outcome) \<Rightarrow> string \<Rightarrow> (string \<times> 'a) list outcome" where
  "pairs_from_string lib elem v =
     obind (y_load lib v) (\<lambda>node. obind (node_pairs node) (\<lambda>ps.
       omap (\<lambda>(k, n). obind (elem (y_dump lib n)) (\<lambda>x. Inr (scalar_text k, x))) ps))"

definition pairs_to_string ::
  "yaml_lib \<Rightarrow> ('a \<Rightarrow> string outcome) \<Rightarrow> (string \<times> 'a) list \<Rightarrow> string outcome" where
  "pairs_to_string lib elem v =
     obind (omap (\<lambda>(k, x). obind (obind (elem x) (y_load lib)) (\<lambda>n. Inr (k, n))) v)
       (\<lambda>kns. Inr (y_dump lib (ymap kns)))"

definition map_from_string ::
  "yaml_lib \<Rightarrow> (string \<Rightarrow> 'a outcome) \<Rightarrow> string \<Rightarrow> (string \<times> 'a) list outcome" where
  "map_from_string lib elem v =
     obind (pairs_from_string lib elem v) (\<lambda>kxs. Inr (kset_of_list fst kxs))"

definition map_to_string ::
  "yaml_lib \<Rightarrow> ('a \<Rightarrow> string outcome) \<Rightarrow> (string \<times> 'a) list \<Rightarrow> string outcome" where
  "map_to_string lib elem v = pairs_to_string lib elem v"

definition unordered_map_from_string ::
  "yaml_lib \<Rightarrow> (string \<Rightarrow> 'a outcome) \<Rightarrow> string \<Rightarrow> (string \<rightharpoonup> 'a) outcome" where
  "unordered_map_from_string lib elem v =
     obind (pairs_from_string lib elem v) (\<lambda>kxs. Inr (map_of kxs))"

definition unordered_map_to_string ::
  "yaml_lib \<Rightarrow> ('a \<Rightarrow> string outcome) \<Rightarrow> (string \<times> 'a) list \<Rightarrow> string outcome" where
  "unordered_map_to_string lib elem it = pairs_to_string lib elem it"

subsection \<open>Round trips\<close>

text \<open>\<open>returns lib from to x n\<close>: the value \<open>x\<close> prints as a text that reads as the node \<open>n\<close>, and the
  text of that node converts to \<open>x\<close> again. This is what a container needs of its elements, and the
  lemmas below show it of the container, so that the conversions nest.\<close>

definition returns ::
  "yaml_lib \<Rightarrow> (string \<Rightarrow> 'a outcome) \<Rightarrow> ('a \<Rightarrow> string outcome) \<Rightarrow> 'a \<Rightarrow> ynode \<Rightarrow> bool" where
  "returns lib from to x n \<longleftrightarrow> obind (to x) (y_load lib) = Inr n \<and> from (y_dump lib n) = Inr x"

lemma omap_returns:
  "list_all2 (returns lib from to) xs ns \<Longrightarrow> omap (\<lambda>x. obind (to x) (y_load lib)) xs = Inr ns"
  by (induction rule: list_all2_induct) (simp_all add: returns_def)

lemma omap_returns_back:
  "list_all2 (returns lib from to) xs ns \<Longrightarrow> omap (\<lambda>n. from (y_dump lib n)) ns = Inr xs"
  by (induction rule: list_all2_induct) (simp_all add: returns_def)

lemma omap_cong: "(\<And>x. x \<in> set xs \<Longrightarrow> f x = g x) \<Longrightarrow> omap f xs = omap g xs"
  by (induction xs) simp_all

lemma elements_of_seq:
  assumes "y_load lib t = Inr (YSeq ns)"
  shows "elements_from_string lib elem t = omap (\<lambda>n. elem (y_dump lib n)) ns"
proof -
  have "omap (\<lambda>i. obind (node_at lib (YSeq ns) i) (\<lambda>n. elem (y_dump lib n))) [0 ..< length ns]
      = omap (\<lambda>i. elem (y_dump lib (ns ! i))) [0 ..< length ns]"
    by (rule omap_cong) simp
  also have "\<dots> = omap (\<lambda>n. elem (y_dump lib n)) (map (\<lambda>i. ns ! i) [0 ..< length ns])"
    by (simp add: omap_map)
  finally show ?thesis using assms by (simp add: elements_from_string_def map_nth)
qed

lemma elements_roundtrip:
  assumes "list_all2 (returns lib from to) xs ns" and "survives lib (YSeq ns)"
  shows "obind (elements_to_string lib to xs) (elements_from_string lib from) = Inr xs"
  using assms omap_returns [OF assms(1)] omap_returns_back [OF assms(1)]
  by (simp add: elements_to_string_def survives_def elements_of_seq)

lemma elements_return:
  assumes "list_all2 (returns lib from to) xs ns" and "survives lib (YSeq ns)"
  shows "returns lib (elements_from_string lib from) (elements_to_string lib to) xs (YSeq ns)"
  using assms omap_returns [OF assms(1)] omap_returns_back [OF assms(1)]
  by (simp add: returns_def elements_to_string_def survives_def elements_of_seq)

lemma omap_scalar_keys:
  "omap f (map (\<lambda>(k, n). (YScalar k, n)) kns) = omap (\<lambda>(k, n). f (YScalar k, n)) kns"
  by (induction kns) auto

lemma pairs_of_map:
  assumes "y_load lib t = Inr (ymap kns)"
  shows "pairs_from_string lib elem t
       = omap (\<lambda>(k, n). obind (elem (y_dump lib n)) (\<lambda>x. Inr (k, x))) kns"
  using assms by (simp add: pairs_from_string_def ymap_def omap_scalar_keys)

lemma pairs_roundtrip:
  assumes "list_all2 (\<lambda>(k, x) (j, n). k = j \<and> returns lib from to x n) kxs kns"
    and "survives lib (ymap kns)"
  shows "obind (pairs_to_string lib to kxs) (pairs_from_string lib from) = Inr kxs"
proof -
  have "omap (\<lambda>(k, x). obind (obind (to x) (y_load lib)) (\<lambda>n. Inr (k, n))) kxs = Inr kns"
    using assms(1) by (induction rule: list_all2_induct) (auto simp: returns_def)
  moreover have "omap (\<lambda>(k, n). obind (from (y_dump lib n)) (\<lambda>x. Inr (k, x))) kns = Inr kxs"
    using assms(1) by (induction rule: list_all2_induct) (auto simp: returns_def)
  ultimately show ?thesis
    using assms(2) by (simp add: pairs_to_string_def survives_def pairs_of_map)
qed

text \<open>C39: the container conversions are lossless. When each element returns through its own
  conversion and the document built from the elements survives printing and reading, then the text
  of a vector, a list, an ordered set, an unordered set (in whatever order it is visited) reads back
  as the same container; so a vector of vectors does, the statement for the inner one being the
  hypothesis for the outer one.\<close>

theorem sequence_roundtrips:
  assumes el: "list_all2 (returns lib from to) xs ns" and doc: "survives lib (YSeq ns)"
  shows "obind (vector_to_string lib to xs) (vector_from_string lib from) = Inr xs \<and>
    obind (list_to_string lib to xs) (list_from_string lib from) = Inr xs \<and>
    (ksorted key xs \<longrightarrow> obind (set_to_string lib to xs) (set_from_string key lib from) = Inr xs) \<and>
    obind (unordered_set_to_string lib to xs) (unordered_set_from_string lib from) = Inr (set xs) \<and>
    returns lib (vector_from_string lib from) (vector_to_string lib to) xs (YSeq ns)"
proof -
  obtain t where t: "elements_to_string lib to xs = Inr t" "elements_from_string lib from t = Inr xs"
    using elements_roundtrip [OF el doc] by (auto simp: obind_Inr_iff)
  have "returns lib (vector_from_string lib from) (vector_to_string lib to) xs (YSeq ns)"
    using elements_return [OF el doc]
    by (simp add: returns_def vector_from_string_def vector_to_string_def)
  with t show ?thesis
    by (simp add: vector_from_string_def vector_to_string_def list_from_string_def
        list_to_string_def set_from_string_def set_to_string_def unordered_set_from_string_def
        unordered_set_to_string_def kset_of_sorted_list)
qed

definition sample_lib :: yaml_lib where
  "sample_lib = \<lparr>y_load = (\<lambda>s. if s = ''[1, 2]'' then Inr (YSeq [YScalar ''1'', YScalar ''2''])
                            else if s = ''a: 1'' then Inr (ymap [(''a'', YScalar ''1'')])
                            else Inr (YScalar s)),
              y_dump = (\<lambda>n. if n = YSeq [YScalar ''1'', YScalar ''2''] then ''[1, 2]''
                            else if n = ymap [(''a'', YScalar ''1'')] then ''a: 1''
                            else scalar_text n),
              y_as_string = (\<lambda>n. Inr (scalar_text n)), y_map_at = (\<lambda>ps i. YUndef)\<rparr>"

theorem sequence_roundtrips_witness:
  "obind (vector_to_string sample_lib (\<lambda>n. Inr (show_nat n)) [1, 2])
     (vector_from_string sample_lib (\<lambda>s. Inr (read_nat s))) = Inr [1, 2]"
proof -
  have el: "list_all2 (returns sample_lib (\<lambda>s. Inr (read_nat s)) (\<lambda>n. Inr (show_nat n))) [1, 2]
      [YScalar ''1'', YScalar ''2'']"
    by (simp add: returns_def sample_lib_def show_nat.simps digit_char_def ymap_def)
      (simp add: read_nat_def digit_val_def)
  have doc: "survives sample_lib (YSeq [YScalar ''1'', YScalar ''2''])"
    by (simp add: survives_def sample_lib_def)
  show ?thesis using sequence_roundtrips [OF el doc] by blast
qed

text \<open>The conversions of maps with string keys undo each other too: an ordered map reads back as itself, an
  unordered one, visited in any order, as the same map.\<close>

theorem map_roundtrips:
  assumes el: "list_all2 (\<lambda>(k, x) (j, n). k = j \<and> returns lib from to x n) kxs kns"
    and doc: "survives lib (ymap kns)"
  shows "(smap_inv kxs \<longrightarrow> obind (map_to_string lib to kxs) (map_from_string lib from) = Inr kxs) \<and>
    obind (unordered_map_to_string lib to kxs) (unordered_map_from_string lib from) = Inr (map_of kxs)"
proof -
  obtain t where t: "pairs_to_string lib to kxs = Inr t" "pairs_from_string lib from t = Inr kxs"
    using pairs_roundtrip [OF el doc] by (auto simp: obind_Inr_iff)
  then show ?thesis
    by (simp add: map_from_string_def map_to_string_def unordered_map_from_string_def
        unordered_map_to_string_def kset_of_sorted_list)
qed

theorem map_roundtrips_witness:
  "obind (map_to_string sample_lib (\<lambda>n. Inr (show_nat n)) [(''a'', 1)])
     (map_from_string sample_lib (\<lambda>s. Inr (read_nat s))) = Inr [(''a'', 1)]"
proof -
  have el: "list_all2 (\<lambda>(k, x) (j, n). k = j \<and>
      returns sample_lib (\<lambda>s. Inr (read_nat s)) (\<lambda>n. Inr (show_nat n)) x n) [(''a'', 1)]
      [(''a'', YScalar ''1'')]"
    by (simp add: returns_def sample_lib_def show_nat.simps digit_char_def ymap_def)
      (simp add: read_nat_def digit_val_def)
  have doc: "survives sample_lib (ymap [(''a'', YScalar ''1'')])"
    by (simp add: survives_def sample_lib_def ymap_def)
  show ?thesis using map_roundtrips [OF el doc] by simp
qed

end
