(* ===== verification/LogsVariable.thy ===== *)
theory LogsVariable
  imports LogApply ConfigVar Casts
begin

text \<open>
  The configuration variable \<open>logs\<close> of \<open>primo/log/Logger.cpp\<close>: a set of logger definitions with the
  listener of \<open>LogIniter\<close>. Its value type is the instance of \<open>CfgVar\<close> at \<open>std::set<LogDefine>\<close>, with
  the conversions the templates give it, and the state its listener changes is the logging state.
\<close>

definition log_defines_from_string :: "yaml_lib \<Rightarrow> string \<Rightarrow> log_define list outcome" where
  "log_defines_from_string lib = set_from_string ld_name lib (\<lambda>t. snd (log_define_from_string lib t))"

definition log_defines_to_string :: "yaml_lib \<Rightarrow> log_define list \<Rightarrow> string outcome" where
  "log_defines_to_string lib = set_to_string lib (log_define_to_string lib)"

definition g_log_defines :: "(log_define list, log_state) cfg_var" where
  "g_log_defines = new_CfgVar ''logs'' [] ''logs config''"

definition logs_listener ::
  "log_env \<Rightarrow> (nat \<Rightarrow> u64) \<Rightarrow> log_site \<Rightarrow> (log_define list, log_state) callback" where
  "logs_listener env junk site old_value new_value st =
     (case on_logs_changed env junk site old_value new_value st of
        Inl e \<Rightarrow> (st, Some e) | Inr st' \<Rightarrow> (st', None))"

definition LogIniter ::
  "log_env \<Rightarrow> (nat \<Rightarrow> u64) \<Rightarrow> log_site \<Rightarrow> u64 \<Rightarrow> u64 \<times> u64 \<times> (log_define list, log_state) cfg_var" where
  "LogIniter env junk site sFuncId = AddListener (logs_listener env junk site) sFuncId g_log_defines"

lemma log_defines_known:
  assumes "log_defines_from_string lib t = Inr new"
  shows "ksorted ld_name new" and "\<forall>d \<in> set new. list_all known_appender (ld_appenders d)"
proof -
  let ?elem = "\<lambda>t. snd (log_define_from_string lib t)"
  obtain ds where ds: "elements_from_string lib ?elem t = Inr ds" "new = kset_of_list ld_name ds"
    using assms by (auto simp: log_defines_from_string_def set_from_string_def obind_Inr_iff)
  then show "ksorted ld_name new" by simp
  have "omap (\<lambda>i. obind (f i) (\<lambda>n. ?elem (y_dump lib n))) is = Inr ds \<Longrightarrow>
      \<forall>d \<in> set ds. list_all known_appender (ld_appenders d)" for f :: "nat \<Rightarrow> ynode outcome" and "is" ds
    by (induction "is" arbitrary: ds) (auto simp: obind_Inr_iff dest: log_define_from_string_known)
  then show "\<forall>d \<in> set new. list_all known_appender (ld_appenders d)"
    using ds set_kset_of_list [of ld_name ds]
    by (fastforce simp: elements_from_string_def obind_Inr_iff)
qed

lemma in_line_refl: "brought_in_line ds ds st st"
  by (simp add: brought_in_line_def split: option.splits)

text \<open>Configuring the loggers from text. When a text converts to a set of definitions, giving it to
  the variable \<open>logs\<close>, whose only listener is the one \<open>LogIniter\<close> registers, makes that set the
  variable's value and brings every logger in line with it; no fault is raised.\<close>

theorem logs_from_text:
  assumes wf: "wf_log st" and v: "cv_cbs v = [(key, Some (logs_listener env junk site))]"
    and conv: "log_defines_from_string lib t = Inr new"
  shows "\<exists>st'. FromString cenv tname (log_defines_from_string lib) t v st
      = (v\<lparr>cv_val := new\<rparr>, st', Inr False) \<and>
    wf_log st' \<and> brought_in_line (cv_val v) new st st'"
proof (cases "cv_val v = new")
  case True
  then show ?thesis
    using conv wf in_line_refl by (intro exI [of _ st]) (auto simp: FromString_def SetValue_def)
next
  case False
  obtain st' where "on_logs_changed env junk site (cv_val v) new st = Inr st'" "wf_log st'"
    "brought_in_line (cv_val v) new st st'"
    using configuration_applies [OF wf log_defines_known [OF conv]] by blast
  with False show ?thesis
    using conv v by (intro exI [of _ st']) (simp add: FromString_def SetValue_def logs_listener_def)
qed

theorem logs_from_text_witness:
  "(let n = ymap [(''name'', YScalar ''net''), (''level'', YScalar ''warn'')];
        lib = \<lparr>y_load = \<lambda>s. Inr (if s = ''all'' then YSeq [n] else n), y_dump = \<lambda>n. [],
               y_as_string = \<lambda>n. Inr (scalar_text n), y_map_at = \<lambda>ps i. YUndef\<rparr>;
        d = \<lparr>ld_name = ''net'', ld_level = WARN, ld_formatter = [], ld_appenders = []\<rparr>
    in log_defines_from_string lib ''all'' = Inr [d] \<and>
       (\<forall>env junk site cenv. \<exists>st'.
         FromString cenv [] (log_defines_from_string lib) ''all'' (snd (snd (LogIniter env junk site 0))) init_log_state
           = (snd (snd (LogIniter env junk site 0))\<lparr>cv_val := [d]\<rparr>, st', Inr False) \<and>
         brought_in_line [] [d] init_log_state st'))"
proof -
  let ?n = "ymap [(''name'', YScalar ''net''), (''level'', YScalar ''warn'')]"
  let ?lib = "\<lparr>y_load = \<lambda>s. Inr (if s = ''all'' then YSeq [?n] else ?n), y_dump = \<lambda>n. [],
    y_as_string = \<lambda>n. Inr (scalar_text n), y_map_at = \<lambda>ps i. YUndef\<rparr>"
  let ?d = "\<lparr>ld_name = ''net'', ld_level = WARN, ld_formatter = [], ld_appenders = []\<rparr>"
  have lib: "scalars_convert ?lib" by (simp add: scalars_convert_def)
  have "snd (log_define_from_node ?lib ?n) = Inr ?d"
    by (simp add: log_define_from_node_def node_get_ymap [OF lib] get_string_def as_string_or_def
        is_defined_def level_from_string_def quiet_def pbind_def)
  then have conv: "log_defines_from_string ?lib ''all'' = Inr [?d]"
    by (simp add: log_defines_from_string_def set_from_string_def elements_of_seq [where ns = "[?n]"]
        log_define_from_string_def kset_of_list_def)
  have v: "cv_cbs (snd (snd (LogIniter env junk site 0))) = [(1, Some (logs_listener env junk site))]"
    "cv_val (snd (snd (LogIniter env junk site 0))) = []" for env junk site
    by (simp_all add: LogIniter_def AddListener_def g_log_defines_def new_CfgVar_def smap_put_def)
  show ?thesis
    using conv logs_from_text [OF wf_init v(1) conv] v(2) by (simp add: Let_def) blast
qed

end
