(* ===== verification/LogsInForce.thy ===== *)
theory LogsInForce
  imports LogApply
begin

text \<open>
  How long definitions of loggers stay in force: logging, by anybody, changes nothing that a definition
  speaks about, so that the loggers that a change of the definitions brought in line stay so, and print
  as their definitions say; and the manager never loses an entry.
\<close>

subsection \<open>States that differ by what was logged\<close>

definition same_settings :: "appender \<Rightarrow> appender \<Rightarrow> bool" where
  "same_settings ap ap' \<longleftrightarrow>
     ap_level ap' = ap_level ap \<and> ap_has_formatter ap' = ap_has_formatter ap \<and>
     ap_formatter ap' = ap_formatter ap \<and>
     (case ap_sink ap of
        StdOutAppender \<Rightarrow> ap_sink ap' = StdOutAppender
      | FileAppender name _ _ \<Rightarrow> \<exists>os t. ap_sink ap' = FileAppender name os t)"

definition only_logs :: "log_state \<Rightarrow> log_state \<Rightarrow> bool" where
  "only_logs st st' \<longleftrightarrow>
     wf_log st' \<and> ls_loggers st' = ls_loggers st \<and> ls_mgr st' = ls_mgr st \<and> ls_root st' = ls_root st \<and>
     list_all2 same_settings (ls_appenders st) (ls_appenders st')"

lemma same_settings_refl: "same_settings ap ap"
  by (simp add: same_settings_def split: sink.splits)

lemma same_settings_trans: "same_settings a b \<Longrightarrow> same_settings b c \<Longrightarrow> same_settings a c"
  by (auto simp: same_settings_def split: sink.splits)

lemma only_logs_refl: "wf_log st \<Longrightarrow> only_logs st st"
  by (simp add: only_logs_def list.rel_refl same_settings_refl)

lemma all_same_settings_trans:
  "list_all2 same_settings as bs \<Longrightarrow> list_all2 same_settings bs cs \<Longrightarrow> list_all2 same_settings as cs"
  by (rule list_all2_trans [OF same_settings_trans])

lemma only_logs_trans: "only_logs a b \<Longrightarrow> only_logs b c \<Longrightarrow> only_logs a c"
  using all_same_settings_trans by (simp add: only_logs_def) blast

lemma appender_log_settings:
  "appender_log env names level ev ap = Inr (ap', out) \<Longrightarrow> same_settings ap ap'"
  by (auto simp: appender_log_def stdout_log_def file_log_def same_settings_def Let_def
      split: sink.splits if_splits option.splits prod.splits)

lemma log_appenders_settings:
  "log_appenders env aids level ev st = Inr st' \<Longrightarrow>
   list_all2 same_settings (ls_appenders st) (ls_appenders st')"
proof (induction aids arbitrary: st)
  case Nil
  then show ?case by (simp add: list.rel_refl same_settings_refl)
next
  case (Cons aid aids)
  obtain ap out where a: "appender_log env (logger_name st) level ev (ls_appenders st ! aid) = Inr (ap, out)"
    "log_appenders env aids level ev (add_cout out (upd_appender aid (\<lambda>_. ap) st)) = Inr st'"
    using Cons.prems by (auto simp: obind_Inr_iff)
  have "list_all2 same_settings (ls_appenders st) ((ls_appenders st)[aid := ap])"
    using appender_log_settings [OF a(1)]
    by (auto simp: list_all2_conv_all_nth nth_update_if same_settings_refl)
  then show ?case
    using all_same_settings_trans Cons.IH [OF a(2)] by (simp add: upd_appender_def)
qed

lemma P_LOG_only_logs:
  assumes "wf_log st" "lid < length (ls_loggers st)"
  shows "\<exists>st'. P_LOG env site lid level msg st = Inr st' \<and> only_logs st st'"
proof -
  obtain st' where st': "P_LOG env site lid level msg st = Inr st'" "wf_log st'"
    "ls_loggers st' = ls_loggers st" "ls_mgr st' = ls_mgr st" "ls_root st' = ls_root st"
    using P_LOG_total [OF assms, of env site level msg] by blast
  have "list_all2 same_settings (ls_appenders st) (ls_appenders st')"
    using st'(1) log_appenders_settings assms
    by (auto simp: P_LOG_is_Log Log_route list.rel_refl same_settings_refl split: if_splits)
  with st' show ?thesis by (simp add: only_logs_def)
qed

subsection \<open>Definitions stay in force while others log\<close>

lemma only_logs_named: "only_logs st st' \<Longrightarrow> named st' = named st"
  by (simp add: only_logs_def named_def fun_eq_iff)

lemma realises_settings: "realises fm a ap \<Longrightarrow> same_settings ap ap' \<Longrightarrow> realises fm a ap'"
  by (auto simp: realises_def same_settings_def split: sink.splits option.splits)

lemma configured_only_logs:
  assumes "configured st d lg" "only_logs st st'" "wf_logger st lg"
  shows "configured st' d lg"
  using assms realises_settings
  by (auto simp: configured_def only_logs_def wf_logger_def list_all_length attachable_def
      list_all2_conv_all_nth)

lemma named_wf: "wf_log st \<Longrightarrow> named st name = Some lg \<Longrightarrow> wf_logger st lg"
  using mgr_bound wf_log_logger by (fastforce simp: named_def)

lemma in_line_after:
  assumes line: "brought_in_line old new st0 st2" and after: "only_logs st2 st3" and wf: "wf_log st2"
  shows "brought_in_line old new st0 st3"
  unfolding brought_in_line_def
proof
  fix name
  have "configured st2 d lg \<Longrightarrow> named st2 name = Some lg \<Longrightarrow> configured st3 d lg" for d lg
    using configured_only_logs [OF _ after] named_wf [OF wf] by blast
  with line only_logs_named [OF after] show "case kfind ld_name name new of
       Some d \<Rightarrow> if kfind ld_name name old = Some d then named st3 name = named st0 name
                 else \<exists>lg. named st3 name = Some lg \<and> configured st3 d lg
     | None \<Rightarrow> if kfind ld_name name old \<noteq> None
               then \<exists>lg. named st3 name = Some lg \<and> lg_level lg = UNKNOW \<and> lg_appenders lg = []
               else named st3 name = named st0 name"
    unfolding brought_in_line_def by (auto split: option.splits dest!: spec [of _ name])
qed

lemma in_line_only_logs:
  assumes line: "brought_in_line old new st1 st2" and before: "only_logs st0 st1"
    and after: "only_logs st2 st3" and wf: "wf_log st2"
  shows "brought_in_line old new st0 st3"
  using in_line_after [OF line after wf] only_logs_named [OF before]
  unfolding brought_in_line_def by (simp only: simp_thms)

subsection \<open>The manager never loses an entry\<close>

definition mgr_grows :: "log_state \<Rightarrow> log_state \<Rightarrow> bool" where
  "mgr_grows st st' \<longleftrightarrow>
     (smap_inv (ls_mgr st) \<longrightarrow> smap_inv (ls_mgr st') \<and>
        (\<forall>name lid. smap_find name (ls_mgr st) = Some lid \<longrightarrow> smap_find name (ls_mgr st') = Some lid))"

lemma mgr_same_grows: "ls_mgr st' = ls_mgr st \<Longrightarrow> mgr_grows st st'"
  by (simp add: mgr_grows_def)

lemma mgr_grows_trans: "mgr_grows a b \<Longrightarrow> mgr_grows b c \<Longrightarrow> mgr_grows a c"
  by (simp add: mgr_grows_def)

lemma GetLogger_grows: "mgr_grows st (snd (GetLogger name st))"
  by (cases "smap_find name (ls_mgr st)")
    (auto simp: mgr_grows_def GetLogger_hit GetLogger_miss smap.find_put smap.inv_put)

lemma apply_appenders_mgr:
  "apply_appenders env junk name lid as st = Inr st' \<Longrightarrow> ls_mgr st' = ls_mgr st"
proof (induction as arbitrary: st)
  case (Cons a as)
  obtain st1 where "apply_appender env junk name lid a st = Inr st1"
    "apply_appenders env junk name lid as st1 = Inr st'"
    using Cons.prems by (auto simp: obind_Inr_iff)
  with Cons.IH [of st1] show ?case
    by (auto simp: apply_appender_def alloc_appender_def AddAppender_def Let_def
        split: option.splits prod.splits)
qed simp

lemma SetFormatter_mgr [simp]: "ls_mgr (logger_SetFormatter_pattern lid p st) = ls_mgr st"
proof -
  have "ls_mgr (foldl (\<lambda>st aid. upd_appender aid f st) s aids) = ls_mgr s" for f s aids
    by (induction aids arbitrary: s) simp_all
  then show ?thesis
    by (simp add: logger_SetFormatter_pattern_def logger_SetFormatter_def Let_def split: prod.splits)
qed

lemma apply_define_grows:
  assumes "apply_define env junk d st = Inr st'"
  shows "mgr_grows st st'"
proof -
  obtain lid st1 where g: "GetLogger (ld_name d) st = (lid, st1)" by fastforce
  have "ls_mgr st' = ls_mgr st1"
    using assms g
    by (auto simp: apply_define_def Let_def ClearAppenders_def logger_SetLevel_def
        dest!: apply_appenders_mgr split: if_splits)
  then show ?thesis
    using mgr_grows_trans [OF GetLogger_grows mgr_same_grows] g by (metis snd_conv)
qed

lemma apply_new_grows: "apply_new env junk old new st = Inr st' \<Longrightarrow> mgr_grows st st'"
proof (induction new arbitrary: st)
  case (Cons d ds)
  then show ?case
    by (auto simp: obind_Inr_iff split: if_splits dest!: apply_define_grows intro: mgr_grows_trans)
qed (simp add: mgr_same_grows)

lemma remove_old_grows: "mgr_grows st (remove_old new old st)"
proof (induction old arbitrary: st)
  case (Cons d ds)
  obtain lid st1 where g: "GetLogger (ld_name d) st = (lid, st1)" by fastforce
  have "mgr_grows st (silence_logger (ld_name d) st)"
    using mgr_grows_trans [OF GetLogger_grows [of st "ld_name d"] mgr_same_grows] g
    by (simp add: silence_logger_def ClearAppenders_def logger_SetLevel_def)
  then show ?case using Cons.IH mgr_grows_trans by (auto simp: mgr_same_grows)
qed (simp add: mgr_same_grows)

lemma on_logs_changed_grows:
  assumes wf: "wf_log st" and run: "on_logs_changed env junk site old new st = Inr st'"
  shows "mgr_grows st st'"
proof -
  have root: "GetRoot st < length (ls_loggers st)" using wf by (simp add: GetRoot_def wf_log_def)
  obtain st1 where 1: "P_LOG env site (GetRoot st) INFO ''on_logger_conf_changed'' st = Inr st1"
    "only_logs st st1"
    using P_LOG_only_logs [OF wf root] by blast
  with run obtain st2 where 2: "apply_new env junk old new st1 = Inr st2" "st' = remove_old new old st2"
    by (auto simp: on_logs_changed_def obind_Inr_iff)
  have "mgr_grows st st1" using 1(2) by (simp add: only_logs_def mgr_same_grows)
  then show ?thesis
    using apply_new_grows [OF 2(1)] remove_old_grows [of st2 new old] mgr_grows_trans 2(2) by blast
qed

subsection \<open>What a defined logger prints\<close>

text \<open>The formatter a definition gives to an appender: the appender's own, or else the logger's; and the
  line such an appender, when it is a standard output, writes of an event.\<close>

definition line_formatter :: "log_define \<Rightarrow> log_appender_define \<Rightarrow> formatter option" where
  "line_formatter d a = (case compiled (ad_formatter a) of None \<Rightarrow> compiled (ld_formatter d) | Some p \<Rightarrow> Some p)"

definition defined_line ::
  "log_env \<Rightarrow> (nat \<Rightarrow> string) \<Rightarrow> log_define \<Rightarrow> level \<Rightarrow> log_event \<Rightarrow> log_appender_define \<Rightarrow> string" where
  "defined_line env names d level ev a =
     (if ad_level a \<le> level
      then formatter_format (le_strftime env) names (the (line_formatter d a)) level ev @ newline else [])"

lemma stdout_line:
  assumes "realises fm a ap" "ad_type a = 2" "line_formatter d a \<noteq> None"
    and "compiled (ld_formatter d) \<noteq> None \<Longrightarrow> fm = compiled (ld_formatter d)"
  shows "appender_log env names level ev ap = Inr (ap, defined_line env names d level ev a)"
  using assms
  by (auto simp: realises_def appender_log_def stdout_log_def defined_line_def line_formatter_def
      split: sink.splits option.splits)

lemma log_stdouts:
  "list_all2 (\<lambda>aid a. appender_log env (logger_name st) level ev (ls_appenders st ! aid)
     = Inr (ls_appenders st ! aid, f a)) aids as \<Longrightarrow>
   log_appenders env aids level ev st = Inr (add_cout (concat (map f as)) st)"
proof (induction aids arbitrary: as st)
  case Nil
  then show ?case by (simp add: add_cout_def)
next
  case (Cons aid aids)
  let ?writes = "\<lambda>st aid a. appender_log env (logger_name st) level ev (ls_appenders st ! aid)
    = Inr (ls_appenders st ! aid, f a)"
  obtain a as' where as: "as = a # as'" "?writes st aid a" "list_all2 (?writes st) aids as'"
    using Cons.prems by (auto simp: list_all2_Cons1)
  let ?st = "add_cout (f a) st"
  have same: "upd_appender aid (\<lambda>_. ls_appenders st ! aid) st = st" by (simp add: upd_appender_def)
  have "logger_name ?st = logger_name st" by (rule logger_name_cong) simp
  then have "log_appenders env aids level ev ?st = Inr (add_cout (concat (map f as')) ?st)"
    using as(3) by (intro Cons.IH) simp
  then show ?case using as(1,2) same by (simp add: add_cout_def)
qed

text \<open>C8: what a definition means. After a change of the definitions that brought the loggers in line, and
  whatever has been logged since, a logger whose definition is new and has standard outputs for
  appenders, all with a formatter that compiles, prints a message once for each of them, in order, with
  that appender's formatter if its level is reached, provided the level of the logger is; otherwise
  nothing happens.\<close>

theorem defined_logger_prints:
  assumes wf: "wf_log st'" and line: "brought_in_line old new st st'" and later: "only_logs st' st''"
    and d: "kfind ld_name name new = Some d" "kfind ld_name name old \<noteq> Some d"
    and outs: "ld_appenders d \<noteq> []"
      "\<forall>a \<in> set (ld_appenders d). ad_type a = 2 \<and> line_formatter d a \<noteq> None"
  shows "\<exists>lid. GetLogger name st'' = (lid, st'') \<and>
    P_LOG env site lid level msg st'' =
      Inr (if ld_level d \<le> level
           then add_cout (concat (map
             (defined_line env (logger_name st'') d level (event_write msg (macro_event site lid level)))
             (ld_appenders d))) st''
           else st'')"
proof -
  obtain lg where "named st' name = Some lg" "configured st' d lg"
    using line d by (force simp: brought_in_line_def dest: spec [of _ name])
  then have lg: "named st'' name = Some lg" "configured st'' d lg"
    using configured_only_logs [OF _ later] named_wf [OF wf] only_logs_named [OF later] by auto
  then obtain lid where lid: "smap_find name (ls_mgr st'') = Some lid" "ls_loggers st'' ! lid = lg"
    by (auto simp: named_def)
  have wf'': "wf_log st''" using later by (simp add: only_logs_def)
  have lt: "lid < length (ls_loggers st'')" using mgr_bound [OF wf'' lid(1)] .
  let ?ev = "event_write msg (macro_event site lid level)"
  let ?f = "defined_line env (logger_name st'') d level ?ev"
  have "list_all2 (\<lambda>aid a. appender_log env (logger_name st'') level ?ev (ls_appenders st'' ! aid)
      = Inr (ls_appenders st'' ! aid, ?f a)) (lg_appenders lg) (ld_appenders d)"
    using lg(2) outs(2) stdout_line [where fm = "lg_formatter lg" and d = d]
    by (auto simp: configured_def elim!: list.rel_mono_strong)
  note prints = log_stdouts [OF this]
  have "lg_appenders lg \<noteq> []" "lg_level lg = ld_level d"
    using lg(2) outs(1) by (auto simp: configured_def)
  then have "P_LOG env site lid level msg st''
      = Inr (if ld_level d \<le> level then add_cout (concat (map ?f (ld_appenders d))) st'' else st'')"
    using prints lid(2) by (simp add: P_LOG_is_Log [OF lt] Log_route [OF wf'' lt] route_def)
  then show ?thesis using GetLogger_hit [OF lid(1)] by blast
qed

theorem defined_logger_prints_witness:
  "(let a = \<lparr>ad_type = 2, ad_level = WARN, ad_formatter = ''%m'', ad_file = []\<rparr>;
        d = \<lparr>ld_name = ''net'', ld_level = INFO, ld_formatter = [], ld_appenders = [a, a\<lparr>ad_level := FATAL\<rparr>]\<rparr>
    in \<forall>env junk site. \<exists>st'. on_logs_changed env junk site [] [d] init_log_state = Inr st' \<and>
         (\<exists>lid. GetLogger ''net'' st' = (lid, st') \<and>
            P_LOG env site lid ERROR ''hello'' st' = Inr (add_cout (''hello'' @ newline) st')))"
proof -
  let ?a = "\<lparr>ad_type = 2, ad_level = WARN, ad_formatter = ''%m'', ad_file = []\<rparr>"
  let ?d = "\<lparr>ld_name = ''net'', ld_level = INFO, ld_formatter = [], ld_appenders = [?a, ?a\<lparr>ad_level := FATAL\<rparr>]\<rparr>"
  let ?fm = "\<lparr>fm_pattern = ''%m'', fm_items = [MessageFormatItem], fm_error = False\<rparr>"
  have "fst (new_LogFormatter ''%m'') = ?fm" by code_simp
  then have fm: "compiled ''%m'' = Some ?fm" by (simp add: compiled_def)
  have "\<exists>st'. on_logs_changed env junk site [] [?d] init_log_state = Inr st' \<and>
      (\<exists>lid. GetLogger ''net'' st' = (lid, st') \<and>
         P_LOG env site lid ERROR ''hello'' st' = Inr (add_cout (''hello'' @ newline) st'))" for env junk site
  proof -
    obtain st' where st': "on_logs_changed env junk site [] [?d] init_log_state = Inr st'" "wf_log st'"
      "brought_in_line [] [?d] init_log_state st'"
      using configuration_applies [OF wf_init, of "[?d]" env junk site "[]"] by (auto simp: known_appender_def)
    have "\<exists>lid. GetLogger ''net'' st' = (lid, st') \<and>
      P_LOG env site lid ERROR ''hello'' st' =
        Inr (if ld_level ?d \<le> ERROR
             then add_cout (concat (map
               (defined_line env (logger_name st') ?d ERROR (event_write ''hello'' (macro_event site lid ERROR)))
               (ld_appenders ?d))) st'
             else st')"
      using defined_logger_prints [OF st'(2,3) only_logs_refl [OF st'(2)], of "''net''" ?d env site ERROR "''hello''"]
      by (simp add: line_formatter_def fm)
    then show ?thesis
      using st'(1) by (auto simp: defined_line_def line_formatter_def fm less_eq_level_def
          formatter_format_def event_write_def macro_event_def new_LogEvent_def)
  qed
  then show ?thesis by (simp only: Let_def) blast
qed

end
