(* ===== verification/Singleton.thy ===== *)
theory Singleton
  imports Main
begin

text \<open>The two singletons of \<open>primo/Singleton.h\<close>.\<close>

text \<open>\<open>Singleton::GetInstance\<close>: the function-local static object, made by \<open>init\<close> on the first call.\<close>

definition GetInstance :: "'a \<Rightarrow> 'a option \<Rightarrow> 'a \<times> 'a option" where
  "GetInstance init inst = (case inst of None \<Rightarrow> (init, Some init) | Some x \<Rightarrow> (x, Some x))"

text \<open>\<open>SingletonPtr::GetInstance\<close>: the static object is a shared pointer; objects are named by their index
  in a store, to which \<open>new\<close> appends.\<close>

definition SingletonPtr_GetInstance :: "'a \<Rightarrow> 'a list \<Rightarrow> nat option \<Rightarrow> nat \<times> 'a list \<times> nat option" where
  "SingletonPtr_GetInstance init store inst =
     (case inst of
        None \<Rightarrow> (length store, store @ [init], Some (length store))
      | Some p \<Rightarrow> (p, store, Some p))"

lemma GetInstance_simps [simp]:
  "GetInstance init None = (init, Some init)" "GetInstance init (Some x) = (x, Some x)"
  by (simp_all add: GetInstance_def)

text \<open>Once there is an object, further calls give the same one, whatever they would make it from.\<close>

lemma GetInstance_again: "GetInstance init inst = (x, inst') \<Longrightarrow> GetInstance init' inst' = (x, inst')"
  by (auto simp: GetInstance_def split: option.splits)

lemma SingletonPtr_again:
  "SingletonPtr_GetInstance init store inst = (p, store', inst') \<Longrightarrow>
   SingletonPtr_GetInstance init' store' inst' = (p, store', inst')"
  by (auto simp: SingletonPtr_GetInstance_def split: option.splits)

end
