(* ===== verification/LogMacros.thy ===== *)
theory LogMacros
  imports LogRouting Singleton
begin

text \<open>
  How the rest of the program reaches the loggers: the macros of \<open>primo/log/Logger.h\<close> that name a level
  or a logger, and the loggers \<open>g_logger\<close> that the source files fetch while the program starts. The
  manager is the singleton \<open>LOGMGR\<close>: \<open>None\<close> before its first use.
\<close>

subsection \<open>Levels\<close>

definition P_LOG_DEBUG :: "log_env \<Rightarrow> log_site \<Rightarrow> nat \<Rightarrow> string \<Rightarrow> log_state \<Rightarrow> log_state outcome" where
  "P_LOG_DEBUG env site lid s st = P_LOG env site lid DEBUG s st"

definition P_LOG_INFO :: "log_env \<Rightarrow> log_site \<Rightarrow> nat \<Rightarrow> string \<Rightarrow> log_state \<Rightarrow> log_state outcome" where
  "P_LOG_INFO env site lid s st = P_LOG env site lid INFO s st"

definition P_LOG_WARN :: "log_env \<Rightarrow> log_site \<Rightarrow> nat \<Rightarrow> string \<Rightarrow> log_state \<Rightarrow> log_state outcome" where
  "P_LOG_WARN env site lid s st = P_LOG env site lid WARN s st"

definition P_LOG_ERROR :: "log_env \<Rightarrow> log_site \<Rightarrow> nat \<Rightarrow> string \<Rightarrow> log_state \<Rightarrow> log_state outcome" where
  "P_LOG_ERROR env site lid s st = P_LOG env site lid ERROR s st"

definition P_LOG_FATAL :: "log_env \<Rightarrow> log_site \<Rightarrow> nat \<Rightarrow> string \<Rightarrow> log_state \<Rightarrow> log_state outcome" where
  "P_LOG_FATAL env site lid s st = P_LOG env site lid FATAL s st"

type_synonym 'args logf =
  "log_env \<Rightarrow> (string \<Rightarrow> 'args \<Rightarrow> string option) \<Rightarrow> log_site \<Rightarrow> nat \<Rightarrow> string \<Rightarrow> 'args \<Rightarrow> log_state \<Rightarrow>
   log_state outcome"

definition P_LOGF_DEBUG :: "'args logf" where
  "P_LOGF_DEBUG env vasprintf site lid fmt arg st = P_LOGF env vasprintf site lid DEBUG fmt arg st"

definition P_LOGF_INFO :: "'args logf" where
  "P_LOGF_INFO env vasprintf site lid fmt arg st = P_LOGF env vasprintf site lid INFO fmt arg st"

definition P_LOGF_WARN :: "'args logf" where
  "P_LOGF_WARN env vasprintf site lid fmt arg st = P_LOGF env vasprintf site lid WARN fmt arg st"

definition P_LOGF_ERROR :: "'args logf" where
  "P_LOGF_ERROR env vasprintf site lid fmt arg st = P_LOGF env vasprintf site lid ERROR fmt arg st"

definition P_LOGF_FATAL :: "'args logf" where
  "P_LOGF_FATAL env vasprintf site lid fmt arg st = P_LOGF env vasprintf site lid FATAL fmt arg st"

text \<open>Both families of macros send nothing below the level of the logger, and otherwise the same event
  that differs in its content only.\<close>

lemma P_LOGF_is_P_LOG:
  "P_LOGF env vasprintf site lid level fmt arg st =
   P_LOG env site lid level (case vasprintf fmt arg of None \<Rightarrow> [] | Some s \<Rightarrow> s) st"
  by (cases "vasprintf fmt arg")
    (simp_all add: P_LOGF_def P_LOG_def event_format_def event_write_def)

subsection \<open>The manager as a singleton\<close>

definition LOGMGR :: "log_state option \<Rightarrow> log_state \<times> log_state option" where
  "LOGMGR inst = GetInstance init_log_state inst"

definition P_LOG_ROOT :: "log_state option \<Rightarrow> nat \<times> log_state option" where
  "P_LOG_ROOT inst = (case LOGMGR inst of (st, inst) \<Rightarrow> (GetRoot st, inst))"

definition P_LOG_NAME :: "string \<Rightarrow> log_state option \<Rightarrow> nat \<times> log_state option" where
  "P_LOG_NAME name inst =
     (case LOGMGR inst of (st, inst) \<Rightarrow> (case GetLogger name st of (lid, st) \<Rightarrow> (lid, Some st)))"

text \<open>The manager goes by the name a logger was fetched with: after \<open>SetName\<close> the old name still finds it,
  and the new one makes another logger of the same name.\<close>

lemma renamed_logger:
  assumes wf: "wf_log st" and lid: "smap_find name (ls_mgr st) = Some lid"
    and new: "smap_find name' (ls_mgr st) = None"
  defines "st' \<equiv> logger_SetName lid name' st"
  shows "GetLogger name st' = (lid, st')" and "fst (GetLogger name' st') \<noteq> lid"
    and "logger_name (snd (GetLogger name' st')) lid = name'"
proof -
  have same: "ls_mgr st' = ls_mgr st" "length (ls_loggers st') = length (ls_loggers st)"
    by (simp_all add: st'_def logger_SetName_def upd_logger_def)
  have lt: "lid < length (ls_loggers st)" using wf lid by (rule mgr_bound)
  show "GetLogger name st' = (lid, st')" using lid by (simp add: GetLogger_hit same)
  have miss: "smap_find name' (ls_mgr st') = None" using new same by simp
  show "fst (GetLogger name' st') \<noteq> lid" using lt by (simp add: GetLogger_miss [OF miss] same)
  show "logger_name (snd (GetLogger name' st')) lid = name'"
    using lt by (simp add: GetLogger_miss [OF miss] logger_name_def nth_append same)
      (simp add: st'_def logger_SetName_def upd_logger_def)
qed

text \<open>The variables \<open>g_logger\<close> of \<open>config.cpp\<close>, \<open>fiber.cpp\<close>, \<open>schedule.cpp\<close>, \<open>thread.cpp\<close> and \<open>util.cpp\<close> are
  set before \<open>main\<close>, one after the other in an order that depends on the linker. Each is set in the
  same way; \<open>n\<close> of them in a row give their values and the manager.\<close>

definition static_g_logger :: "log_state option \<Rightarrow> nat \<times> log_state option" where
  "static_g_logger inst = P_LOG_NAME ''system'' inst"

fun static_g_loggers :: "nat \<Rightarrow> log_state option \<Rightarrow> nat list \<times> log_state option" where
  "static_g_loggers 0 inst = ([], inst)"
| "static_g_loggers (Suc n) inst =
     (case static_g_logger inst of (lid, inst) \<Rightarrow>
        (case static_g_loggers n inst of (lids, inst) \<Rightarrow> (lid # lids, inst)))"

definition system_state :: log_state where
  "system_state = snd (GetLogger ''system'' init_log_state)"

lemma system_again: "GetLogger ''system'' system_state = (1, system_state)"
proof (rule GetLogger_hit)
  show "smap_find ''system'' (ls_mgr system_state) = Some 1" by code_simp
qed

lemma wf_system: "wf_log system_state"
  unfolding system_state_def by (rule wf_GetLogger [OF wf_init])

lemma system_state_loggers: "length (ls_loggers system_state) = 2"
  by code_simp

lemma static_g_loggers_again:
  "static_g_loggers n (Some system_state) = (replicate n 1, Some system_state)"
  by (induction n) (simp_all add: static_g_logger_def P_LOG_NAME_def LOGMGR_def system_again)

text \<open>Whatever the order, all source files share one logger, which passes its events on to the root
  logger, and the manager, made by the first of them, has these two loggers and no other.\<close>

theorem start_gives_one_logger:
  "static_g_loggers (Suc n) None = (replicate (Suc n) 1, Some system_state) \<and>
   map fst (ls_mgr system_state) = [''root'', ''system''] \<and> wf_log system_state \<and>
   lg_root (ls_loggers system_state ! 1) = Some (GetRoot system_state)"
proof (intro conjI)
  have "GetLogger ''system'' init_log_state = (1, system_state)"
    by (simp add: system_state_def GetLogger_init)
  then show "static_g_loggers (Suc n) None = (replicate (Suc n) 1, Some system_state)"
    by (simp add: static_g_logger_def P_LOG_NAME_def LOGMGR_def static_g_loggers_again)
  show "wf_log system_state" by (rule wf_system)
  show "map fst (ls_mgr system_state) = [''root'', ''system'']" by code_simp
  show "lg_root (ls_loggers system_state ! 1) = Some (GetRoot system_state)" by code_simp
qed

end
