(* ===== verification/LogsDocument.thy ===== *)
theory LogsDocument
  imports ConfigEffects LogsVariable LogsInForce LogMacros
begin

text \<open>
  The two halves of the program together: the variable \<open>logs\<close> registered while the program starts, the
  registry that writes its log messages through the loggers it configures, and a document that defines
  loggers. Loading the document brings the loggers in line with it.
\<close>

subsection \<open>The variable in the registry\<close>

text \<open>The values of the registry: sets of logger definitions, and those of all other types. The
  conversions and the listener of \<open>CfgVar<std::set<LogDefine>>\<close> never see another value.\<close>

datatype 'v cfg_value = Logs "log_define list" | Other 'v

definition logs_type :: "yaml_lib \<Rightarrow> string \<Rightarrow> 'v cfg_value vtype" where
  "logs_type lib tname =
     \<lparr>vt_name = tname,
      vt_from = (\<lambda>t. obind (log_defines_from_string lib t) (\<lambda>ds. Inr (Logs ds))),
      vt_to = (\<lambda>v. case v of Logs ds \<Rightarrow> log_defines_to_string lib ds | Other _ \<Rightarrow> Inr [])\<rparr>"

definition logs_callback ::
  "log_env \<Rightarrow> (nat \<Rightarrow> u64) \<Rightarrow> log_site \<Rightarrow> ('v cfg_value, log_state) callback" where
  "logs_callback env junk site old_value new_value st =
     (case (old_value, new_value) of
        (Logs old, Logs new) \<Rightarrow> logs_listener env junk site old new st
      | _ \<Rightarrow> (st, None))"

text \<open>The initialisers of \<open>g_log_defines\<close> and \<open>__LOG_INITER\<close>: the variable is looked up, so registered if
  it is new, and gets the listener; its index, and the counter of keys.\<close>

definition register_logs ::
  "log_state cfg_env \<Rightarrow> yaml_lib \<Rightarrow> string \<Rightarrow> log_env \<Rightarrow> (nat \<Rightarrow> u64) \<Rightarrow> log_site \<Rightarrow> u64
     \<Rightarrow> ('v cfg_value, log_state) config \<Rightarrow> log_state
     \<Rightarrow> (nat \<times> u64) outcome \<times> ('v cfg_value, log_state) config \<times> log_state" where
  "register_logs cenv lib tname env junk site sFuncId cfg st =
     (case LookUp_default cenv (logs_type lib tname) ''logs'' (Logs []) ''logs config'' cfg st of
        (Inl e, cfg, st) \<Rightarrow> (Inl e, cfg, st)
      | (Inr None, cfg, st) \<Rightarrow> (Inl Null_deref, cfg, st)
      | (Inr (Some i), cfg, st) \<Rightarrow>
          (case AddListener (logs_callback env junk site) sFuncId (bv_var (cf_vars cfg ! i)) of
             (key, sFuncId, v) \<Rightarrow>
               (Inr (i, sFuncId),
                cfg\<lparr>cf_vars := (cf_vars cfg)[i := (cf_vars cfg ! i)\<lparr>bv_var := v\<rparr>]\<rparr>, st)))"

text \<open>What the registry logs goes to the loggers: to the root logger, or to \<open>g_logger\<close>, whose index is
  \<open>sys\<close>. Where and when a message is logged is given by \<open>sites\<close>.\<close>

definition log_cfg_env ::
  "log_env \<Rightarrow> (string \<Rightarrow> log_state \<Rightarrow> log_site) \<Rightarrow> nat \<Rightarrow> (fault \<Rightarrow> string) \<Rightarrow> log_state cfg_env" where
  "log_cfg_env env sites sys what =
     \<lparr>ce_log = (\<lambda>name level msg st.
        case P_LOG env (sites msg st) (if name = ''root'' then GetRoot st else sys) level msg st of
          Inl e \<Rightarrow> st | Inr st' \<Rightarrow> st'),
      ce_lets_root = (\<lambda>level st. lg_level (ls_loggers st ! GetRoot st) \<le> level),
      ce_what = what\<rparr>"

text \<open>\<open>g_logger\<close> was fetched under the name \<open>system\<close>. The manager keeps it, so that the messages of the
  registry only log, also after a change of the loggers.\<close>

definition logs_ok :: "nat \<Rightarrow> log_state \<Rightarrow> bool" where
  "logs_ok sys st \<longleftrightarrow> wf_log st \<and> smap_find ''system'' (ls_mgr st) = Some sys"

lemma cfg_log_only_logs:
  assumes "logs_ok sys st"
  shows "only_logs st (ce_log (log_cfg_env env sites sys what) name level msg st)"
proof -
  let ?lid = "if name = ''root'' then GetRoot st else sys"
  have wf: "wf_log st" and sys: "smap_find ''system'' (ls_mgr st) = Some sys"
    using assms by (simp_all add: logs_ok_def)
  have "GetRoot st < length (ls_loggers st)" using wf by (simp add: GetRoot_def wf_log_def)
  with mgr_bound [OF wf sys] have "?lid < length (ls_loggers st)" by simp
  then obtain st' where "P_LOG env (sites msg st) ?lid level msg st = Inr st'" "only_logs st st'"
    using P_LOG_only_logs [OF wf] by blast
  then show ?thesis by (simp add: log_cfg_env_def)
qed

interpretation document: tame_log "log_cfg_env env sites sys what" "logs_ok sys" only_logs
  for env sites sys what
proof (unfold_locales, goal_cases)
  case 1
  then show ?case by (simp add: logs_ok_def only_logs_refl)
next
  case 2
  then show ?case by (rule only_logs_trans)
next
  case 3
  then show ?case by (simp add: logs_ok_def only_logs_def)
next
  case 4
  then show ?case by (rule cfg_log_only_logs)
qed

text \<open>The messages of threads, too, change nothing about definitions that are in force.\<close>

lemma messages_keep_definitions:
  assumes "logs_ok sys st" "brought_in_line old new st0 st"
  shows "brought_in_line old new st0 (send_messages (log_cfg_env env sites sys what) msgs st)"
proof -
  have "wf_log st" using assms(1) by (simp add: logs_ok_def)
  then show ?thesis by (rule in_line_after [OF assms(2) document.messages_R [OF assms(1)]])
qed

subsection \<open>From a document to the loggers\<close>

lemma give_logs:
  assumes st: "logs_ok sys st" and from_str: "bv_from b = vt_from (logs_type lib tname)"
    and val: "cv_val (bv_var b) = Logs old"
    and cbs: "cv_cbs (bv_var b) = [(key, Some (logs_callback env junk site))]"
    and conv: "\<And>e. log_defines_from_string lib t = Inl e \<Longrightarrow> is_std_exception e"
  shows "\<exists>b' st'. base_FromString (log_cfg_env env sites sys what) t b st = (b', st', Inr False) \<and>
    logs_ok sys st' \<and>
    (case log_defines_from_string lib t of
       Inr new \<Rightarrow> cv_val (bv_var b') = Logs new \<and> brought_in_line old new st st'
     | Inl e \<Rightarrow> b' = b \<and> only_logs st st')"
proof (cases "log_defines_from_string lib t")
  case (Inl e)
  have b: "b\<lparr>bv_var := bv_var b\<rparr> = b" by simp
  let ?st = "fst (from_string_error (log_cfg_env env sites sys what) (bv_type b) t (bv_var b) e st)"
  have "only_logs st ?st" using cfg_log_only_logs [OF st] conv [OF Inl] by (simp add: from_string_error_def)
  moreover have "logs_ok sys ?st" using calculation st by (simp add: logs_ok_def only_logs_def)
  ultimately show ?thesis
    using Inl conv [OF Inl] b
    by (intro exI [of _ b] exI [of _ ?st])
      (simp add: base_FromString_def FromString_def from_str logs_type_def from_string_error_def)
next
  case (Inr new)
  show ?thesis
  proof (cases "old = new")
    case True
    then show ?thesis
      using Inr val st in_line_refl
      by (intro exI [of _ b] exI [of _ st])
        (simp add: base_FromString_def FromString_def SetValue_def from_str logs_type_def)
  next
    case False
    have wf: "wf_log st" using st by (simp add: logs_ok_def)
    obtain st' where st': "on_logs_changed env junk site old new st = Inr st'" "wf_log st'"
      "brought_in_line old new st st'"
      using configuration_applies [OF wf log_defines_known [OF Inr]] by blast
    have "logs_ok sys st'"
      using st st'(2) on_logs_changed_grows [OF wf st'(1)] by (simp add: logs_ok_def mgr_grows_def wf_log_def)
    then show ?thesis
      using Inr False val cbs st'
      by (intro exI [of _ "b\<lparr>bv_var := (bv_var b)\<lparr>cv_val := Logs new\<rparr>\<rparr>"] exI [of _ st'])
        (simp add: base_FromString_def FromString_def SetValue_def from_str logs_type_def
          logs_callback_def logs_listener_def)
  qed
qed

lemma valid_logs: "valid_name ''logs''"
  by code_simp

lemma load_logs_node:
  assumes j: "cf_datas cfg ''logs'' = Some j"
    and b: "base_FromString cenv (node_text lib n) (cf_vars cfg ! j) st = (b', st', Inr False)"
  shows "load_node cenv lib (''logs'', n) (cfg, st) = (cfg\<lparr>cf_vars := (cf_vars cfg)[j := b']\<rparr>, st', None)"
  using j b valid_name_lower [OF valid_logs] by (simp add: load_node_def LookUpBase_def)

text \<open>The nodes of a document that are not named \<open>logs\<close> leave the variable \<open>logs\<close> as it is, and the
  loggers too, up to what they log.\<close>

lemma load_other_nodes:
  assumes cfg: "wf_config cfg" "cf_datas cfg ''logs'' = Some j" and st: "logs_ok sys st"
    and tame: "\<forall>k i. cf_datas cfg k = Some i \<and> k \<noteq> ''logs'' \<longrightarrow> tame_var (logs_ok sys) only_logs (cf_vars cfg ! i)"
    and names: "\<forall>(q, m) \<in> set is. to_lower q \<noteq> ''logs''"
  obtains cfg' st' where "load_nodes (log_cfg_env env sites sys what) lib is (cfg, st) = (cfg', st', None)"
    "wf_config cfg'" "cf_datas cfg' = cf_datas cfg" "cf_vars cfg' ! j = cf_vars cfg ! j"
    "only_logs st st'" "logs_ok sys st'"
    "\<forall>k i. cf_datas cfg' k = Some i \<and> k \<noteq> ''logs'' \<longrightarrow> tame_var (logs_ok sys) only_logs (cf_vars cfg' ! i)"
proof -
  obtain cfg' st' r where l: "load_nodes (log_cfg_env env sites sys what) lib is (cfg, st) = (cfg', st', r)"
    by (cases "load_nodes (log_cfg_env env sites sys what) lib is (cfg, st)") auto
  have "only_logs st st' \<and> r = None \<and>
      (\<forall>i. tame_var (logs_ok sys) only_logs (cf_vars cfg' ! i) = tame_var (logs_ok sys) only_logs (cf_vars cfg ! i))"
    using names tame by (intro document.load_nodes_R [OF st cfg(1) l]) fastforce
  then show thesis
    using that l wf_load_nodes [OF cfg(1) l] load_nodes_untouched [OF cfg names l] tame st
    by (auto simp: logs_ok_def only_logs_def)
qed

lemma filter_single:
  "filter P xs = [x] \<Longrightarrow>
   \<exists>as bs. xs = as @ x # bs \<and> P x \<and> (\<forall>y \<in> set as. \<not> P y) \<and> (\<forall>y \<in> set bs. \<not> P y)"
  by (metis filter_eq_Cons_iff filter_empty_conv)

lemma logs_once:
  assumes L: "ListAllMember cenv lib [] root st = (L, s0)"
    and once: "filter (\<lambda>(q, m). q = ''logs'') L = [(''logs'', n)]"
  obtains L1 L2 where "L = L1 @ (''logs'', n) # L2"
    "\<forall>(q, m) \<in> set L1. to_lower q \<noteq> ''logs''" "\<forall>(q, m) \<in> set L2. to_lower q \<noteq> ''logs''"
proof -
  obtain L1 L2 where L12: "L = L1 @ (''logs'', n) # L2"
    "\<forall>(q, m) \<in> set L1. q \<noteq> ''logs''" "\<forall>(q, m) \<in> set L2. q \<noteq> ''logs''"
    using filter_single [OF once] by (auto simp: case_prod_beta)
  have "to_lower q \<noteq> ''logs''" if "(q, m) \<in> set L1 \<union> set L2" for q m
  proof -
    have "doc_member [] root q m" using that L12(1) members_iff(1) [of q m cenv lib "[]" root st] L by auto
    then have "to_lower q = q" using doc_member_valid by simp
    moreover have "q \<noteq> ''logs''" using that L12(2,3) by auto
    ultimately show ?thesis by simp
  qed
  with L12(1) show thesis by (intro that) auto
qed

text \<open>The node named \<open>logs\<close>, for a variable that holds the definitions \<open>old\<close>.\<close>

lemma load_logs:
  assumes cenv: "cenv = log_cfg_env env sites sys what"
    and cfg: "wf_config cfg" "cf_datas cfg ''logs'' = Some j"
    and var: "bv_from (cf_vars cfg ! j) = vt_from (logs_type lib tname)"
      "cv_val (bv_var (cf_vars cfg ! j)) = Logs old"
      "cv_cbs (bv_var (cf_vars cfg ! j)) = [(key, Some (logs_callback env junk site))]"
    and others: "\<forall>k i. cf_datas cfg k = Some i \<and> k \<noteq> ''logs'' \<longrightarrow>
      tame_var (logs_ok sys) only_logs (cf_vars cfg ! i)"
    and st: "logs_ok sys st"
    and conv: "\<forall>e. log_defines_from_string lib (node_text lib n) = Inl e \<longrightarrow> is_std_exception e"
  obtains cfg' st' where "load_node cenv lib (''logs'', n) (cfg, st) = (cfg', st', None)"
    "wf_config cfg'" "cf_datas cfg' ''logs'' = Some j" "logs_ok sys st'"
    "\<forall>k i. cf_datas cfg' k = Some i \<and> k \<noteq> ''logs'' \<longrightarrow> tame_var (logs_ok sys) only_logs (cf_vars cfg' ! i)"
    "case log_defines_from_string lib (node_text lib n) of
       Inr new \<Rightarrow> cv_val (bv_var (cf_vars cfg' ! j)) = Logs new \<and> brought_in_line old new st st'
     | Inl e \<Rightarrow> cf_vars cfg' ! j = cf_vars cfg ! j \<and> only_logs st st'"
proof -
  obtain b' st' where b': "base_FromString cenv (node_text lib n) (cf_vars cfg ! j) st = (b', st', Inr False)"
    "logs_ok sys st'"
    "case log_defines_from_string lib (node_text lib n) of
       Inr new \<Rightarrow> cv_val (bv_var b') = Logs new \<and> brought_in_line old new st st'
     | Inl e \<Rightarrow> b' = cf_vars cfg ! j \<and> only_logs st st'"
    using give_logs [OF st var, of "node_text lib n" sites what] conv unfolding cenv by blast
  let ?cfg = "cfg\<lparr>cf_vars := (cf_vars cfg)[j := b']\<rparr>"
  have node: "load_node cenv lib (''logs'', n) (cfg, st) = (?cfg, st', None)"
    by (rule load_logs_node [OF cfg(2) b'(1)])
  have j: "j < length (cf_vars cfg)" using wf_configD [OF cfg] by simp
  have "tame_var (logs_ok sys) only_logs (cf_vars ?cfg ! i)" if "cf_datas cfg k = Some i" "k \<noteq> ''logs''" for k i
  proof -
    have "i \<noteq> j" using wf_config_inj [OF cfg(1), of k i "''logs''"] that cfg(2) by auto
    then show ?thesis using others that by simp
  qed
  then show thesis
    using that [OF node] wf_load_node [OF cfg(1) node] cfg(2) b'(2,3) j
    by (cases "log_defines_from_string lib (node_text lib n)") auto
qed

text \<open>C6: a document configures the loggers. Let the registry hold the variable \<open>logs\<close> with its listener,
  and let the listeners of all other variables do no more to the loggers than log. A document that names
  \<open>logs\<close> once loads without a fault. If the text of that node converts to a set of definitions, the set
  is the variable's value afterwards, and every logger is as the change from the old set to the new one
  asks, although the registry and the other listeners have logged in between; if the text does not
  convert, the variable is unchanged and the loggers are as before, but for what was logged.\<close>

theorem document_configures_loggers:
  assumes cenv: "cenv = log_cfg_env env sites sys what"
    and cfg: "wf_config cfg" "cf_datas cfg ''logs'' = Some j"
    and var: "bv_from (cf_vars cfg ! j) = vt_from (logs_type lib tname)"
      "cv_val (bv_var (cf_vars cfg ! j)) = Logs old"
      "cv_cbs (bv_var (cf_vars cfg ! j)) = [(key, Some (logs_callback env junk site))]"
    and others: "\<forall>k i. cf_datas cfg k = Some i \<and> k \<noteq> ''logs'' \<longrightarrow>
      tame_var (logs_ok sys) only_logs (cf_vars cfg ! i)"
    and st: "logs_ok sys st"
    and once: "filter (\<lambda>(q, m). q = ''logs'') (fst (ListAllMember cenv lib [] root st)) = [(''logs'', n)]"
    and conv: "\<forall>e. log_defines_from_string lib (node_text lib n) = Inl e \<longrightarrow> is_std_exception e"
  shows "\<exists>cfg' st'. LoadFromYaml cenv lib root (cfg, st) = (cfg', st', None) \<and>
    wf_config cfg' \<and> logs_ok sys st' \<and>
    (case log_defines_from_string lib (node_text lib n) of
       Inr new \<Rightarrow> cv_val (bv_var (cf_vars cfg' ! j)) = Logs new \<and> brought_in_line old new st st'
     | Inl e \<Rightarrow> cf_vars cfg' ! j = cf_vars cfg ! j \<and> only_logs st st')"
proof -
  let ?t = "node_text lib n"
  obtain L s0 where L: "ListAllMember cenv lib [] root st = (L, s0)" by fastforce
  have log0: "only_logs st s0" using document.names_R(1) [OF cenv st, of lib "[]" root] L by simp
  have s0: "logs_ok sys s0" using document.R_ok [OF log0 st] .
  obtain L1 L2 where L12: "L = L1 @ (''logs'', n) # L2"
    "\<forall>(q, m) \<in> set L1. to_lower q \<noteq> ''logs''" "\<forall>(q, m) \<in> set L2. to_lower q \<noteq> ''logs''"
    by (rule logs_once [OF L once [unfolded L fst_conv]])
  obtain cfg1 s1 where 1: "load_nodes cenv lib L1 (cfg, s0) = (cfg1, s1, None)" "wf_config cfg1"
    "cf_datas cfg1 = cf_datas cfg" "cf_vars cfg1 ! j = cf_vars cfg ! j" "only_logs s0 s1" "logs_ok sys s1"
    "\<forall>k i. cf_datas cfg1 k = Some i \<and> k \<noteq> ''logs'' \<longrightarrow> tame_var (logs_ok sys) only_logs (cf_vars cfg1 ! i)"
    unfolding cenv by (rule load_other_nodes [OF cfg s0 others L12(2)])
  obtain cfg2 s2 where 2: "load_node cenv lib (''logs'', n) (cfg1, s1) = (cfg2, s2, None)"
    "wf_config cfg2" "cf_datas cfg2 ''logs'' = Some j" "logs_ok sys s2"
    "\<forall>k i. cf_datas cfg2 k = Some i \<and> k \<noteq> ''logs'' \<longrightarrow> tame_var (logs_ok sys) only_logs (cf_vars cfg2 ! i)"
    "case log_defines_from_string lib ?t of
       Inr new \<Rightarrow> cv_val (bv_var (cf_vars cfg2 ! j)) = Logs new \<and> brought_in_line old new s1 s2
     | Inl e \<Rightarrow> cf_vars cfg2 ! j = cf_vars cfg1 ! j \<and> only_logs s1 s2"
    by (rule load_logs [OF cenv 1(2) _ _ _ _ 1(7,6) conv]) (use 1(3,4) cfg(2) var in auto)
  obtain cfg' s3 where 3: "load_nodes cenv lib L2 (cfg2, s2) = (cfg', s3, None)" "wf_config cfg'"
    "cf_vars cfg' ! j = cf_vars cfg2 ! j" "only_logs s2 s3" "logs_ok sys s3"
    unfolding cenv by (rule load_other_nodes [OF 2(2,3,4,5) L12(3)])
  have "LoadFromYaml cenv lib root (cfg, st) = (cfg', s3, None)"
    using L L12(1) 1(1) 2(1) 3(1) by (simp add: LoadFromYaml_def load_nodes_append)
  moreover have before: "only_logs st s1" using only_logs_trans [OF log0 1(5)] .
  have "wf_log s2" using 2(4) by (simp add: logs_ok_def)
  then have "case log_defines_from_string lib ?t of
       Inr new \<Rightarrow> cv_val (bv_var (cf_vars cfg' ! j)) = Logs new \<and> brought_in_line old new st s3
     | Inl e \<Rightarrow> cf_vars cfg' ! j = cf_vars cfg ! j \<and> only_logs st s3"
    using 2(6) 1(4) in_line_only_logs [OF _ before 3(4)] only_logs_trans [OF before only_logs_trans [OF _ 3(4)]]
    unfolding 3(3) by (cases "log_defines_from_string lib ?t") simp_all
  ultimately show ?thesis using 3(2,5) by blast
qed

text \<open>Registering the variable in a registry that does not have the name yet.\<close>

lemma register_logs_new:
  assumes "cf_datas cfg ''logs'' = None"
  shows "register_logs cenv lib tname env junk site c cfg st =
    (Inr (length (cf_vars cfg), c + 1),
     cfg\<lparr>cf_datas := (cf_datas cfg)(''logs'' \<mapsto> length (cf_vars cfg)),
         cf_vars := cf_vars cfg @
           [\<lparr>bv_type = tname, bv_from = vt_from (logs_type lib tname), bv_to = vt_to (logs_type lib tname),
             bv_var = \<lparr>cv_name = ''logs'', cv_desc = ''logs config'', cv_val = Logs [],
                       cv_cbs = [(c + 1, Some (logs_callback env junk site))]\<rparr>\<rparr>]\<rparr>, st)"
  using assms valid_logs valid_name_lower [OF valid_logs]
  by (simp add: register_logs_def LookUp_default_new AddListener_def new_CfgVar_def smap_put_def
      logs_type_def Let_def)

theorem document_configures_loggers_witness:
  "(let n = ymap [(''name'', YScalar ''net''), (''level'', YScalar ''warn'')];
        lib = \<lparr>y_load = \<lambda>s. Inr (if s = ''all'' then YSeq [n] else n),
               y_dump = \<lambda>m. case m of YSeq _ \<Rightarrow> ''all'' | _ \<Rightarrow> [],
               y_as_string = \<lambda>n. Inr (scalar_text n), y_map_at = \<lambda>ps i. YUndef\<rparr>;
        d = \<lparr>ld_name = ''net'', ld_level = WARN, ld_formatter = [], ld_appenders = []\<rparr>;
        doc = YMap [(YScalar ''logs'', YSeq [n])]
    in \<forall>env sites what junk site.
         (case register_logs (log_cfg_env env sites 1 what) lib [] env junk site 0
                 (empty_config :: (unit cfg_value, log_state) config) system_state of
            (r, cfg, st) \<Rightarrow>
              \<exists>cfg' st'. LoadFromYaml (log_cfg_env env sites 1 what) lib doc (cfg, st) = (cfg', st', None) \<and>
                cv_val (bv_var (cf_vars cfg' ! 0)) = Logs [d] \<and> brought_in_line [] [d] system_state st'))"
proof -
  let ?n = "ymap [(''name'', YScalar ''net''), (''level'', YScalar ''warn'')]"
  let ?lib = "\<lparr>y_load = \<lambda>s. Inr (if s = ''all'' then YSeq [?n] else ?n),
    y_dump = \<lambda>m. case m of YSeq _ \<Rightarrow> ''all'' | _ \<Rightarrow> [],
    y_as_string = \<lambda>n. Inr (scalar_text n), y_map_at = \<lambda>ps i. YUndef\<rparr>"
  let ?d = "\<lparr>ld_name = ''net'', ld_level = WARN, ld_formatter = [], ld_appenders = []\<rparr>"
  let ?doc = "YMap [(YScalar ''logs'', YSeq [?n])]"
  have lib: "scalars_convert ?lib" by (simp add: scalars_convert_def)
  have "snd (log_define_from_node ?lib ?n) = Inr ?d"
    by (simp add: log_define_from_node_def node_get_ymap [OF lib] get_string_def as_string_or_def
        is_defined_def level_from_string_def quiet_def pbind_def)
  then have conv: "log_defines_from_string ?lib ''all'' = Inr [?d]"
    by (simp add: log_defines_from_string_def set_from_string_def elements_of_seq [where ns = "[?n]"]
        log_define_from_string_def ymap_def kset_of_list_def)
  have v: "find_first_not_of valid_chars ''logs'' = None" by code_simp
  have "smap_find ''system'' (ls_mgr system_state) = Some 1" by code_simp
  with wf_system have ok: "logs_ok 1 system_state" by (simp add: logs_ok_def)
  show ?thesis
    unfolding Let_def
  proof (intro allI)
    fix env sites what junk site
    let ?cenv = "log_cfg_env env sites 1 what"
    let ?cfg = "fst (snd (register_logs ?cenv ?lib [] env junk site 0
      (empty_config :: (unit cfg_value, log_state) config) system_state))"
    note reg = register_logs_new [of "empty_config :: (unit cfg_value, log_state) config"
        ?cenv ?lib "[]" env junk site 0 system_state, unfolded empty_config_def, simplified]
    have "\<exists>cfg' st'. LoadFromYaml ?cenv ?lib ?doc (?cfg, system_state) = (cfg', st', None) \<and>
      wf_config cfg' \<and> logs_ok 1 st' \<and>
      (case log_defines_from_string ?lib (node_text ?lib (YSeq [?n])) of
         Inr new \<Rightarrow> cv_val (bv_var (cf_vars cfg' ! 0)) = Logs new \<and> brought_in_line [] new system_state st'
       | Inl e \<Rightarrow> cf_vars cfg' ! 0 = cf_vars ?cfg ! 0 \<and> only_logs system_state st')"
      by (rule document_configures_loggers [OF refl, where tname = "[]" and key = 1 and junk = junk and site = site])
        (use v ok conv valid_logs in \<open>auto simp: empty_config_def reg wf_config_def node_text_def split: if_splits\<close>)
    then show "case register_logs ?cenv ?lib [] env junk site 0
        (empty_config :: (unit cfg_value, log_state) config) system_state of
      (r, cfg, st) \<Rightarrow> \<exists>cfg' st'. LoadFromYaml ?cenv ?lib ?doc (cfg, st) = (cfg', st', None) \<and>
        cv_val (bv_var (cf_vars cfg' ! 0)) = Logs [?d] \<and> brought_in_line [] [?d] system_state st'"
      using conv by (auto simp: empty_config_def reg node_text_def)
  qed
qed

end
