(* ===== verification/LogThreads.thy ===== *)
theory LogThreads
  imports LogRouting
begin

text \<open>
  The logging system used by several threads at once. A thread is the stack of what it has left to do:
  calls of the public operations of \<open>primo/log/Logger.h\<close>, the statements of the operation it is in,
  and the locks it takes and releases. A step is one statement: the spin locks of the manager, the
  loggers and the appenders are taken and released where the sources do it, and what the sources
  read or write without a lock (levels, \<open>mLastTime\<close>, the formatter given to an appender by
  \<open>AddAppender\<close>, the standard output) is a step of its own, so that other threads can come in between. What \<open>Logger::ToYamlString\<close> returns to the manager is kept
  as the node whose text it is.
\<close>

subsection \<open>Calls and statements\<close>

datatype lock = Mgr_lock | Logger_lock nat | Appender_lock nat

text \<open>Loggers and appenders are named by the pointers the caller has. \<open>C_P_LOG\<close> is the macro, \<open>C_print\<close> is
  output of the caller itself.\<close>

datatype call =
    C_Log nat level log_event
  | C_P_LOG log_site nat level string
  | C_AddAppender nat nat
  | C_DelAppender nat nat
  | C_ClearAppenders nat
  | C_SetLevel nat level
  | C_SetFormatter nat "formatter option"
  | C_SetFormatter_pattern nat string
  | C_ToYamlString nat
  | C_appender_SetFormatter nat "formatter option"
  | C_appender_SetLevel nat level
  | C_mgr_ToYamlString
  | C_print string

text \<open>What \<open>new\<close> is called for; \<open>New_null\<close> is a pointer that stays null and is dereferenced. What is done
  with a logger that the manager returned are calls, and calls with appenders made for it.\<close>

datatype new_appender = New_stdout | New_file string "nat \<Rightarrow> u64" | New_null

datatype job = J_call call | J_with_appender new_appender "nat \<Rightarrow> call list"

text \<open>The statements. Those that go on with a pointer or a list they have just computed carry the rest of
  the work as an argument; \<open>to_mgr\<close> is what \<open>LoggerMgr::ToYamlString\<close> has done and left when it calls
  \<open>Logger::ToYamlString\<close>.\<close>

type_synonym to_mgr = "(ynode list \<times> nat list) option"

datatype instr =
    I_lock lock
  | I_unlock lock
  | I_call call
  | I_with_logger string "nat \<Rightarrow> job list"
  | I_find_logger string "nat \<Rightarrow> job list"
  | I_with_appender new_appender "nat \<Rightarrow> call list"
  | I_log_body nat level log_event
  | I_append nat level log_event
  | I_file_due nat u64
  | I_reopen nat
  | I_set_last nat u64
  | I_write nat level log_event
  | I_cout string
  | I_get_formatter nat nat
  | I_give_formatter nat nat
  | I_push nat nat
  | I_erase nat nat
  | I_clear nat
  | I_set_formatter nat "formatter option"
  | I_inherit nat nat
  | I_invalid nat string
  | I_set_appender_formatter nat "formatter option"
  | I_node nat to_mgr
  | I_nodes nat "(string \<times> ynode) list" "ynode list" "nat list" to_mgr
  | I_appender_node bool nat nat "(string \<times> ynode) list" "ynode list" "nat list" to_mgr
  | I_mgr_node
  | I_mgr_nodes "ynode list" "nat list"
  | I_mgr_load ynode "ynode list" "nat list"
  | I_return string

fun job_instr :: "job \<Rightarrow> instr" where
  "job_instr (J_call c) = I_call c"
| "job_instr (J_with_appender new f) = I_with_appender new f"

definition locked :: "lock \<Rightarrow> instr list \<Rightarrow> instr list" where
  "locked l body = I_lock l # body @ [I_unlock l]"

text \<open>What a call does first, and what it leaves to do: the locks are those of the sources.\<close>

fun call_step :: "call \<Rightarrow> log_state \<Rightarrow> instr list \<times> log_state" where
  "call_step (C_Log lid level ev) st =
     (if lg_level (ls_loggers st ! lid) \<le> level
      then (locked (Logger_lock lid) [I_log_body lid level ev], st) else ([], st))"
| "call_step (C_P_LOG site lid level s) st =
     (if lg_level (ls_loggers st ! lid) \<le> level
      then ([I_call (C_Log lid level (event_write s (macro_event site lid level)))], st) else ([], st))"
| "call_step (C_AddAppender lid aid) st =
     (locked (Logger_lock lid) [I_lock (Appender_lock aid), I_get_formatter lid aid], st)"
| "call_step (C_DelAppender lid aid) st = (locked (Logger_lock lid) [I_erase lid aid], st)"
| "call_step (C_ClearAppenders lid) st = (locked (Logger_lock lid) [I_clear lid], st)"
| "call_step (C_SetLevel lid level) st = ([], logger_SetLevel lid level st)"
| "call_step (C_SetFormatter lid val) st = (locked (Logger_lock lid) [I_set_formatter lid val], st)"
| "call_step (C_SetFormatter_pattern lid val) st =
     (case new_LogFormatter val of (new_val, cout) \<Rightarrow>
        (if fm_error new_val then [I_invalid lid val] else [I_call (C_SetFormatter lid (Some new_val))],
         add_cout cout st))"
| "call_step (C_ToYamlString lid) st = ([I_lock (Logger_lock lid), I_node lid None], st)"
| "call_step (C_appender_SetFormatter aid val) st =
     (locked (Appender_lock aid) [I_set_appender_formatter aid val], st)"
| "call_step (C_appender_SetLevel aid level) st = ([], upd_appender aid (appender_set_level level) st)"
| "call_step C_mgr_ToYamlString st = ([I_lock Mgr_lock, I_mgr_node], st)"
| "call_step (C_print s) st = ([], add_cout s st)"

text \<open>The body of \<open>Logger::Log\<close> under the lock, and the virtual \<open>Log\<close> of the appenders.\<close>

definition log_body :: "nat \<Rightarrow> level \<Rightarrow> log_event \<Rightarrow> log_state \<Rightarrow> instr list" where
  "log_body lid level ev st =
     (let lg = ls_loggers st ! lid
      in if lg_appenders lg \<noteq> [] then map (\<lambda>aid. I_append aid level ev) (lg_appenders lg)
         else (case lg_root lg of None \<Rightarrow> [] | Some r \<Rightarrow> [I_call (C_Log r level ev)]))"

definition append_body :: "nat \<Rightarrow> level \<Rightarrow> log_event \<Rightarrow> log_state \<Rightarrow> instr list" where
  "append_body aid level ev st =
     (if ap_level (ls_appenders st ! aid) \<le> level
      then (case ap_sink (ls_appenders st ! aid) of
              StdOutAppender \<Rightarrow> []
            | FileAppender _ _ _ \<Rightarrow> [I_file_due aid (ev_time ev)]) @
           locked (Appender_lock aid) [I_write aid level ev]
      else [])"

definition file_due :: "nat \<Rightarrow> u64 \<Rightarrow> log_state \<Rightarrow> instr list" where
  "file_due aid now st =
     (case ap_sink (ls_appenders st ! aid) of
        StdOutAppender \<Rightarrow> []
      | FileAppender _ _ mLastTime \<Rightarrow>
          if mLastTime + 3 \<le> now
          then locked (Appender_lock aid) [I_reopen aid] @ [I_set_last aid now] else [])"

definition sink_ReOpen :: "log_env \<Rightarrow> appender \<Rightarrow> appender" where
  "sink_ReOpen env ap =
     (case ap_sink ap of
        StdOutAppender \<Rightarrow> ap
      | FileAppender name os t \<Rightarrow> ap\<lparr>ap_sink := FileAppender name (ReOpen env name os) t\<rparr>)"

definition sink_set_last :: "u64 \<Rightarrow> appender \<Rightarrow> appender" where
  "sink_set_last now ap =
     (case ap_sink ap of
        StdOutAppender \<Rightarrow> ap
      | FileAppender name os t \<Rightarrow> ap\<lparr>ap_sink := FileAppender name os now\<rparr>)"

text \<open>The text goes to the standard output before the end of the line, as two insertions.\<close>

definition write_body ::
  "log_env \<Rightarrow> nat \<Rightarrow> level \<Rightarrow> log_event \<Rightarrow> log_state \<Rightarrow> (instr list \<times> log_state) outcome" where
  "write_body env aid level ev st =
     (case ap_formatter (ls_appenders st ! aid) of
        None \<Rightarrow> Inl Null_deref
      | Some fm \<Rightarrow>
          (let msg = formatter_format (le_strftime env) (logger_name st) fm level ev
           in case ap_sink (ls_appenders st ! aid) of
                StdOutAppender \<Rightarrow> Inr ([I_cout newline], add_cout msg st)
              | FileAppender name os t \<Rightarrow>
                  (let os = os_write msg os
                   in Inr (if os_fail os then [I_cout ''error'', I_cout newline] else [],
                           upd_appender aid (\<lambda>ap. ap\<lparr>ap_sink := FileAppender name os t\<rparr>) st))))"

text \<open>\<open>ToYamlString\<close>: the entries before the appenders, then one appender after the other; only a file
  appender describes itself under its lock.\<close>

definition node_head :: "log_state \<Rightarrow> nat \<Rightarrow> (string \<times> ynode) list" where
  "node_head st lid =
     (let lg = ls_loggers st ! lid
      in [(''name'', YScalar (lg_name lg))] @ level_entry ''Level'' (lg_level lg) @
         (case lg_formatter lg of Some fm \<Rightarrow> [(''formatter'', YScalar (fm_pattern fm))] | None \<Rightarrow> []))"

definition node_end :: "(string \<times> ynode) list \<Rightarrow> ynode list \<Rightarrow> ynode" where
  "node_end entries apps = ymap (entries @ (if apps = [] then [] else [(''appenders'', YSeq apps)]))"

definition is_file :: "log_state \<Rightarrow> nat \<Rightarrow> bool" where
  "is_file st aid = (case ap_sink (ls_appenders st ! aid) of StdOutAppender \<Rightarrow> False | FileAppender _ _ _ \<Rightarrow> True)"

fun nodes_step ::
  "yaml_lib \<Rightarrow> nat \<Rightarrow> (string \<times> ynode) list \<Rightarrow> ynode list \<Rightarrow> nat list \<Rightarrow> to_mgr \<Rightarrow> log_state \<Rightarrow> instr list" where
  "nodes_step lib lid entries apps [] ret st =
     I_unlock (Logger_lock lid) #
     (case ret of
        None \<Rightarrow> [I_return (y_dump lib (node_end entries apps))]
      | Some (ns, lids) \<Rightarrow> [I_mgr_load (node_end entries apps) ns lids])"
| "nodes_step lib lid entries apps (aid # aids) ret st =
     (if is_file st aid
      then [I_lock (Appender_lock aid), I_appender_node True lid aid entries apps aids ret]
      else [I_appender_node False lid aid entries apps aids ret])"

fun mgr_nodes_step :: "yaml_lib \<Rightarrow> ynode list \<Rightarrow> nat list \<Rightarrow> instr list" where
  "mgr_nodes_step lib ns [] =
     [I_unlock Mgr_lock, I_return (y_dump lib (if ns = [] then YNull else YSeq ns))]"
| "mgr_nodes_step lib ns (lid # lids) = [I_lock (Logger_lock lid), I_node lid (Some (ns, lids))]"

text \<open>The appender of the given index; \<open>junk\<close> is the uninitialised \<open>mLastTime\<close>.\<close>

fun make_appender :: "log_env \<Rightarrow> new_appender \<Rightarrow> nat \<Rightarrow> appender outcome" where
  "make_appender env New_stdout aid = Inr new_StdOutAppender"
| "make_appender env (New_file name junk) aid = Inr (new_FileAppender env (junk aid) name)"
| "make_appender env New_null aid = Inl Null_deref"

text \<open>One statement: what is left to do of it and the state after it, or the fault it ends with.\<close>

fun instr_step ::
  "yaml_lib \<Rightarrow> log_env \<Rightarrow> instr \<Rightarrow> log_state \<Rightarrow> (instr list \<times> log_state) outcome" where
  "instr_step lib env (I_lock l) st = Inr ([], st)"
| "instr_step lib env (I_unlock l) st = Inr ([], st)"
| "instr_step lib env (I_call c) st = Inr (call_step c st)"
| "instr_step lib env (I_with_logger name f) st = Inr ([I_lock Mgr_lock, I_find_logger name f], st)"
| "instr_step lib env (I_find_logger name f) st =
     (case GetLogger name st of (lid, st) \<Rightarrow> Inr (I_unlock Mgr_lock # map job_instr (f lid), st))"
| "instr_step lib env (I_with_appender new f) st =
     obind (make_appender env new (length (ls_appenders st))) (\<lambda>ap.
       case alloc_appender ap st of (aid, st) \<Rightarrow> Inr (map I_call (f aid), st))"
| "instr_step lib env (I_log_body lid level ev) st = Inr (log_body lid level ev st, st)"
| "instr_step lib env (I_append aid level ev) st = Inr (append_body aid level ev st, st)"
| "instr_step lib env (I_file_due aid now) st = Inr (file_due aid now st, st)"
| "instr_step lib env (I_reopen aid) st = Inr ([], upd_appender aid (sink_ReOpen env) st)"
| "instr_step lib env (I_set_last aid now) st = Inr ([], upd_appender aid (sink_set_last now) st)"
| "instr_step lib env (I_write aid level ev) st = write_body env aid level ev st"
| "instr_step lib env (I_cout s) st = Inr ([], add_cout s st)"
| "instr_step lib env (I_get_formatter lid aid) st =
     Inr ([I_unlock (Appender_lock aid),
           if appender_GetFormatter (ls_appenders st ! aid) = None then I_give_formatter lid aid else I_push lid aid], st)"
| "instr_step lib env (I_give_formatter lid aid) st =
     Inr ([I_push lid aid], upd_appender aid (\<lambda>ap. ap\<lparr>ap_formatter := lg_formatter (ls_loggers st ! lid)\<rparr>) st)"
| "instr_step lib env (I_push lid aid) st =
     Inr ([], upd_logger lid (\<lambda>lg. lg\<lparr>lg_appenders := lg_appenders lg @ [aid]\<rparr>) st)"
| "instr_step lib env (I_erase lid aid) st = Inr ([], DelAppender lid aid st)"
| "instr_step lib env (I_clear lid) st = Inr ([], ClearAppenders lid st)"
| "instr_step lib env (I_set_formatter lid val) st =
     Inr (concat (map (\<lambda>aid. locked (Appender_lock aid) [I_inherit lid aid]) (lg_appenders (ls_loggers st ! lid))),
          upd_logger lid (\<lambda>lg. lg\<lparr>lg_formatter := val\<rparr>) st)"
| "instr_step lib env (I_inherit lid aid) st =
     Inr ([], upd_appender aid (inherit_formatter (lg_formatter (ls_loggers st ! lid))) st)"
| "instr_step lib env (I_invalid lid val) st =
     Inr ([], add_cout (''Logger SetFormatter name = '' @ logger_name st lid @ '' value = '' @ val
                          @ '' invalid formatter'' @ newline) st)"
| "instr_step lib env (I_set_appender_formatter aid val) st =
     Inr ([], upd_appender aid (appender_set_formatter val) st)"
| "instr_step lib env (I_node lid ret) st =
     Inr ([I_nodes lid (node_head st lid) [] (lg_appenders (ls_loggers st ! lid)) ret], st)"
| "instr_step lib env (I_nodes lid entries apps aids ret) st = Inr (nodes_step lib lid entries apps aids ret st, st)"
| "instr_step lib env (I_appender_node held lid aid entries apps aids ret) st =
     obind (y_load lib (appender_ToYamlString lib (ls_appenders st ! aid))) (\<lambda>n.
       Inr ((if held then [I_unlock (Appender_lock aid)] else []) @ [I_nodes lid entries (apps @ [n]) aids ret], st))"
| "instr_step lib env I_mgr_node st = Inr ([I_mgr_nodes [] (map snd (ls_mgr st))], st)"
| "instr_step lib env (I_mgr_nodes ns lids) st = Inr (mgr_nodes_step lib ns lids, st)"
| "instr_step lib env (I_mgr_load n ns lids) st =
     obind (y_load lib (y_dump lib n)) (\<lambda>n. Inr ([I_mgr_nodes (ns @ [n]) lids], st))"
| "instr_step lib env (I_return s) st = Inr ([], st)"

subsection \<open>Threads\<close>

text \<open>The threads of a process, with the state they share and the thread that holds each lock.\<close>

record system =
  sy_log :: log_state
  sy_owner :: "lock \<Rightarrow> nat option"
  sy_threads :: "instr list list"

definition init_system :: "log_state \<Rightarrow> instr list list \<Rightarrow> system" where
  "init_system st threads = \<lparr>sy_log = st, sy_owner = (\<lambda>l. None), sy_threads = threads\<rparr>"

text \<open>A step of thread \<open>i\<close>: \<open>None\<close> when it has nothing left to do or spins on a lock.\<close>

definition thread_step :: "yaml_lib \<Rightarrow> log_env \<Rightarrow> nat \<Rightarrow> system \<Rightarrow> system outcome option" where
  "thread_step lib env i s =
     (if length (sy_threads s) \<le> i then None
      else case sy_threads s ! i of
        [] \<Rightarrow> None
      | x # k \<Rightarrow>
          (case x of
             I_lock l \<Rightarrow>
               if sy_owner s l = None
               then Some (Inr (s\<lparr>sy_owner := (sy_owner s)(l := Some i), sy_threads := (sy_threads s)[i := k]\<rparr>))
               else None
           | I_unlock l \<Rightarrow>
               Some (Inr (s\<lparr>sy_owner := (sy_owner s)(l := None), sy_threads := (sy_threads s)[i := k]\<rparr>))
           | _ \<Rightarrow>
               Some (obind (instr_step lib env x (sy_log s)) (\<lambda>(new, st).
                 Inr (s\<lparr>sy_log := st, sy_threads := (sy_threads s)[i := new @ k]\<rparr>)))))"

text \<open>What a thread waits for, and the steps of threads one after the other in the order of a schedule;
  an entry for a thread that cannot step is passed over.\<close>

definition wanted :: "system \<Rightarrow> nat \<Rightarrow> lock option" where
  "wanted s i = (case sy_threads s ! i of I_lock l # k \<Rightarrow> Some l | _ \<Rightarrow> None)"

fun run_schedule :: "yaml_lib \<Rightarrow> log_env \<Rightarrow> nat list \<Rightarrow> system \<Rightarrow> system outcome" where
  "run_schedule lib env [] s = Inr s"
| "run_schedule lib env (i # is) s =
     (case thread_step lib env i s of
        None \<Rightarrow> run_schedule lib env is s
      | Some r \<Rightarrow> obind r (run_schedule lib env is))"

end
