(* ===== verification/LogThreadsOk.thy ===== *)
theory LogThreadsOk
  imports LogThreads
begin

text \<open>
  What each statement of the threads of \<open>LogThreads\<close> needs of the logging state and of the locks its
  thread holds, that this does not stop to hold when other threads change the state, and that a
  statement that has what it needs does not fail and leaves the rest with what that needs. Locks are
  taken in the order of \<open>lock_rank\<close>: the manager's, a logger's, the root logger's, an appender's.
\<close>

subsection \<open>What a statement needs\<close>

fun lock_rank :: "nat \<Rightarrow> lock \<Rightarrow> nat" where
  "lock_rank r Mgr_lock = 0"
| "lock_rank r (Logger_lock lid) = (if lid = r then 2 else 1)"
| "lock_rank r (Appender_lock aid) = 3"

definition below :: "nat \<Rightarrow> lock set \<Rightarrow> nat \<Rightarrow> bool" where
  "below r H n \<longleftrightarrow> (\<forall>l \<in> H. lock_rank r l < n)"

lemma below_simps [simp]:
  "below r {} n"
  "below r (insert l H) n \<longleftrightarrow> lock_rank r l < n \<and> below r H n"
  by (auto simp: below_def)

lemma below_mono: "below r H m \<Longrightarrow> m \<le> n \<Longrightarrow> below r H n"
  by (auto simp: below_def)

lemma below_minus: "below r H n \<Longrightarrow> below r (H - A) n"
  by (auto simp: below_def)

text \<open>The pointers a caller passes are to loggers and appenders that exist, and no formatter it sets is
  null.\<close>

fun call_ok :: "log_state \<Rightarrow> call \<Rightarrow> bool" where
  "call_ok st (C_Log lid level ev) \<longleftrightarrow> lid < length (ls_loggers st)"
| "call_ok st (C_P_LOG site lid level s) \<longleftrightarrow> lid < length (ls_loggers st)"
| "call_ok st (C_AddAppender lid aid) \<longleftrightarrow> lid < length (ls_loggers st) \<and> aid < length (ls_appenders st)"
| "call_ok st (C_DelAppender lid aid) \<longleftrightarrow> lid < length (ls_loggers st)"
| "call_ok st (C_ClearAppenders lid) \<longleftrightarrow> lid < length (ls_loggers st)"
| "call_ok st (C_SetLevel lid level) \<longleftrightarrow> lid < length (ls_loggers st)"
| "call_ok st (C_SetFormatter lid val) \<longleftrightarrow> lid < length (ls_loggers st) \<and> val \<noteq> None"
| "call_ok st (C_SetFormatter_pattern lid val) \<longleftrightarrow> lid < length (ls_loggers st)"
| "call_ok st (C_ToYamlString lid) \<longleftrightarrow> lid < length (ls_loggers st)"
| "call_ok st (C_appender_SetFormatter aid val) \<longleftrightarrow> aid < length (ls_appenders st) \<and> val \<noteq> None"
| "call_ok st (C_appender_SetLevel aid level) \<longleftrightarrow> aid < length (ls_appenders st)"
| "call_ok st C_mgr_ToYamlString \<longleftrightarrow> True"
| "call_ok st (C_print s) \<longleftrightarrow> True"

text \<open>What other threads may do to the state in the meantime.\<close>

definition grows :: "log_state \<Rightarrow> log_state \<Rightarrow> bool" where
  "grows st st' \<longleftrightarrow>
     length (ls_loggers st) \<le> length (ls_loggers st') \<and>
     length (ls_appenders st) \<le> length (ls_appenders st') \<and>
     ls_root st' = ls_root st \<and> (\<forall>a. attachable st a \<longrightarrow> attachable st' a)"

lemma grows_refl [simp, intro]: "grows st st"
  by (simp add: grows_def)

lemma grows_trans [trans]: "grows st st' \<Longrightarrow> grows st' st'' \<Longrightarrow> grows st st''"
  by (auto simp: grows_def)

lemma call_ok_grows: "grows st st' \<Longrightarrow> call_ok st c \<Longrightarrow> call_ok st' c"
  by (cases c) (auto simp: grows_def)

text \<open>What a thread does with a logger or an appender it has got may rely on its existence.\<close>

definition appender_calls_ok :: "log_state \<Rightarrow> new_appender \<Rightarrow> (nat \<Rightarrow> call list) \<Rightarrow> bool" where
  "appender_calls_ok st new f \<longleftrightarrow> new \<noteq> New_null \<and>
     (\<forall>st' aid. grows st st' \<longrightarrow> aid < length (ls_appenders st') \<longrightarrow> list_all (call_ok st') (f aid))"

fun job_ok :: "log_state \<Rightarrow> job \<Rightarrow> bool" where
  "job_ok st (J_call c) \<longleftrightarrow> call_ok st c"
| "job_ok st (J_with_appender new f) \<longleftrightarrow> appender_calls_ok st new f"

definition logger_jobs_ok :: "log_state \<Rightarrow> (nat \<Rightarrow> job list) \<Rightarrow> bool" where
  "logger_jobs_ok st f \<longleftrightarrow>
     (\<forall>st' lid. grows st st' \<longrightarrow> lid < length (ls_loggers st') \<longrightarrow> list_all (job_ok st') (f lid))"

lemma jobs_ok_grows:
  assumes g: "grows st st'"
  shows "appender_calls_ok st new h \<Longrightarrow> appender_calls_ok st' new h"
    and "logger_jobs_ok st f \<Longrightarrow> logger_jobs_ok st' f"
  using grows_trans [OF g] by (auto simp: appender_calls_ok_def logger_jobs_ok_def)

text \<open>The locks held behind a statement when \<open>H\<close> were held before it, and what it needs of the state and
  of the locks. Only \<open>Logger::Log\<close> is called with locks held.\<close>

fun after :: "instr \<Rightarrow> lock set \<Rightarrow> lock set" where
  "after (I_lock l) H = insert l H"
| "after (I_unlock l) H = H - {l}"
| "after (I_find_logger name f) H = H - {Mgr_lock}"
| "after (I_get_formatter lid aid) H = H - {Appender_lock aid}"
| "after (I_node lid ret) H = H - {Logger_lock lid} - (if ret = None then {} else {Mgr_lock})"
| "after (I_nodes lid entries apps aids ret) H = H - {Logger_lock lid} - (if ret = None then {} else {Mgr_lock})"
| "after (I_appender_node held lid aid entries apps aids ret) H =
     H - (if held then {Appender_lock aid} else {}) - {Logger_lock lid} - (if ret = None then {} else {Mgr_lock})"
| "after I_mgr_node H = H - {Mgr_lock}"
| "after (I_mgr_nodes ns lids) H = H - {Mgr_lock}"
| "after (I_mgr_load s ns lids) H = H - {Mgr_lock}"
| "after _ H = H"

definition yaml_locks :: "nat \<Rightarrow> to_mgr \<Rightarrow> lock set" where
  "yaml_locks lid ret = insert (Logger_lock lid) (if ret = None then {} else {Mgr_lock})"

definition all_loggers :: "log_state \<Rightarrow> nat list \<Rightarrow> bool" where
  "all_loggers st lids \<longleftrightarrow> (\<forall>lid \<in> set lids. lid < length (ls_loggers st))"

definition all_appenders :: "log_state \<Rightarrow> nat list \<Rightarrow> bool" where
  "all_appenders st aids \<longleftrightarrow> (\<forall>aid \<in> set aids. aid < length (ls_appenders st))"

definition ret_ok :: "log_state \<Rightarrow> to_mgr \<Rightarrow> bool" where
  "ret_ok st ret \<longleftrightarrow> (case ret of None \<Rightarrow> True | Some (ns, lids) \<Rightarrow> all_loggers st lids)"

fun instr_ok :: "log_state \<Rightarrow> lock set \<Rightarrow> instr \<Rightarrow> bool" where
  "instr_ok st H (I_lock l) \<longleftrightarrow> below (ls_root st) H (lock_rank (ls_root st) l)"
| "instr_ok st H (I_unlock l) \<longleftrightarrow> l \<in> H"
| "instr_ok st H (I_call c) \<longleftrightarrow> call_ok st c \<and>
     (case c of C_Log lid _ _ \<Rightarrow> below (ls_root st) H (lock_rank (ls_root st) (Logger_lock lid)) | _ \<Rightarrow> H = {})"
| "instr_ok st H (I_with_logger name f) \<longleftrightarrow> H = {} \<and> logger_jobs_ok st f"
| "instr_ok st H (I_find_logger name f) \<longleftrightarrow> H = {Mgr_lock} \<and> logger_jobs_ok st f"
| "instr_ok st H (I_with_appender new f) \<longleftrightarrow> H = {} \<and> appender_calls_ok st new f"
| "instr_ok st H (I_log_body lid level ev) \<longleftrightarrow> lid < length (ls_loggers st) \<and>
     below (ls_root st) H (Suc (lock_rank (ls_root st) (Logger_lock lid)))"
| "instr_ok st H (I_append aid level ev) \<longleftrightarrow> attachable st aid \<and> below (ls_root st) H 3"
| "instr_ok st H (I_file_due aid now) \<longleftrightarrow> below (ls_root st) H 3"
| "instr_ok st H (I_reopen aid) \<longleftrightarrow> Appender_lock aid \<in> H"
| "instr_ok st H (I_set_last aid now) \<longleftrightarrow> True"
| "instr_ok st H (I_write aid level ev) \<longleftrightarrow> attachable st aid \<and> Appender_lock aid \<in> H"
| "instr_ok st H (I_cout s) \<longleftrightarrow> True"
| "instr_ok st H (I_get_formatter lid aid) \<longleftrightarrow> lid < length (ls_loggers st) \<and>
     aid < length (ls_appenders st) \<and> H = {Logger_lock lid, Appender_lock aid}"
| "instr_ok st H (I_give_formatter lid aid) \<longleftrightarrow> lid < length (ls_loggers st) \<and>
     aid < length (ls_appenders st) \<and> H = {Logger_lock lid}"
| "instr_ok st H (I_push lid aid) \<longleftrightarrow> lid < length (ls_loggers st) \<and> attachable st aid \<and> H = {Logger_lock lid}"
| "instr_ok st H (I_erase lid aid) \<longleftrightarrow> lid < length (ls_loggers st) \<and> H = {Logger_lock lid}"
| "instr_ok st H (I_clear lid) \<longleftrightarrow> lid < length (ls_loggers st) \<and> H = {Logger_lock lid}"
| "instr_ok st H (I_set_formatter lid val) \<longleftrightarrow> lid < length (ls_loggers st) \<and> val \<noteq> None \<and> H = {Logger_lock lid}"
| "instr_ok st H (I_inherit lid aid) \<longleftrightarrow> lid < length (ls_loggers st) \<and> H = {Logger_lock lid, Appender_lock aid}"
| "instr_ok st H (I_invalid lid val) \<longleftrightarrow> lid < length (ls_loggers st) \<and> H = {}"
| "instr_ok st H (I_set_appender_formatter aid val) \<longleftrightarrow> val \<noteq> None \<and> H = {Appender_lock aid}"
| "instr_ok st H (I_node lid ret) \<longleftrightarrow> lid < length (ls_loggers st) \<and> ret_ok st ret \<and> H = yaml_locks lid ret"
| "instr_ok st H (I_nodes lid entries apps aids ret) \<longleftrightarrow> all_appenders st aids \<and> ret_ok st ret \<and>
     H = yaml_locks lid ret"
| "instr_ok st H (I_appender_node held lid aid entries apps aids ret) \<longleftrightarrow>
     all_appenders st (aid # aids) \<and> ret_ok st ret \<and>
     H = (if held then {Appender_lock aid} else {}) \<union> yaml_locks lid ret"
| "instr_ok st H I_mgr_node \<longleftrightarrow> H = {Mgr_lock}"
| "instr_ok st H (I_mgr_nodes ns lids) \<longleftrightarrow> H = {Mgr_lock} \<and> all_loggers st lids"
| "instr_ok st H (I_mgr_load s ns lids) \<longleftrightarrow> H = {Mgr_lock} \<and> all_loggers st lids"
| "instr_ok st H (I_return s) \<longleftrightarrow> H = {}"

fun code_to :: "log_state \<Rightarrow> lock set \<Rightarrow> instr list \<Rightarrow> lock set \<Rightarrow> bool" where
  "code_to st H [] H' \<longleftrightarrow> H = H'"
| "code_to st H (x # k) H' \<longleftrightarrow> instr_ok st H x \<and> code_to st (after x H) k H'"

lemma code_to_append: "code_to st H (a @ b) H'' \<longleftrightarrow> (\<exists>H'. code_to st H a H' \<and> code_to st H' b H'')"
  by (induction a arbitrary: H) auto

lemma ret_ok_grows: "grows st st' \<Longrightarrow> ret_ok st ret \<Longrightarrow> ret_ok st' ret"
  by (auto simp: ret_ok_def all_loggers_def grows_def split: option.splits)

lemma instr_ok_grows:
  assumes g: "grows st st'" and ok: "instr_ok st H x"
  shows "instr_ok st' H x"
proof -
  have root: "ls_root st' = ls_root st" and len: "length (ls_loggers st) \<le> length (ls_loggers st')"
    "length (ls_appenders st) \<le> length (ls_appenders st')" and att: "attachable st a \<Longrightarrow> attachable st' a" for a
    using g by (auto simp: grows_def)
  show ?thesis
    using ok root len att ret_ok_grows [OF g] call_ok_grows [OF g] jobs_ok_grows [OF g]
    by (cases x) (auto simp: all_loggers_def all_appenders_def split: call.splits)
qed

lemma code_to_grows: "grows st st' \<Longrightarrow> code_to st H k H' \<Longrightarrow> code_to st' H k H'"
  by (induction k arbitrary: H) (auto intro: instr_ok_grows)

lemma grows_upd_logger [simp]: "grows st (upd_logger lid f st)"
  by (auto simp: grows_def upd_logger_def attachable_def)

lemma grows_upd_appender [intro]:
  "(ap_formatter (ls_appenders st ! aid) \<noteq> None \<Longrightarrow> ap_formatter (f (ls_appenders st ! aid)) \<noteq> None) \<Longrightarrow>
   grows st (upd_appender aid f st)"
  by (auto simp: grows_def upd_appender_def attachable_def nth_update_if)

lemma grows_add_cout [simp]: "grows st (add_cout s st)"
  by (simp add: grows_def attachable_def)

lemma grows_alloc_appender: "grows st (snd (alloc_appender ap st))"
  by (auto simp: grows_def alloc_appender_def attachable_def nth_append)

lemma grows_GetLogger: "grows st (snd (GetLogger name st))"
  by (cases "smap_find name (ls_mgr st)")
    (auto simp: grows_def GetLogger_hit GetLogger_miss attachable_def)

lemma upd_logger_same [simp]:
  "ls_appenders (upd_logger lid f st) = ls_appenders st"
  "ls_mgr (upd_logger lid f st) = ls_mgr st"
  "ls_root (upd_logger lid f st) = ls_root st"
  "ls_cout (upd_logger lid f st) = ls_cout st"
  "length (ls_loggers (upd_logger lid f st)) = length (ls_loggers st)"
  by (simp_all add: upd_logger_def)

subsection \<open>What a statement keeps\<close>

text \<open>The step does not fail, keeps the invariant of the logging state, and leaves statements that have
  what they need and end with the locks that the statement was to end with.\<close>

definition step_ok :: "log_state \<Rightarrow> lock set \<Rightarrow> (instr list \<times> log_state) outcome \<Rightarrow> lock set \<Rightarrow> bool" where
  "step_ok st H r H' \<longleftrightarrow>
     (case r of Inl e \<Rightarrow> False
      | Inr (new, st') \<Rightarrow> wf_log st' \<and> grows st st' \<and> code_to st' H new H')"

lemma code_to_locked:
  "code_to st H (locked l body) H' \<longleftrightarrow>
     below (ls_root st) H (lock_rank (ls_root st) l) \<and>
     (\<exists>H''. code_to st (insert l H) body H'' \<and> l \<in> H'' \<and> H' = H'' - {l})"
  by (auto simp: locked_def code_to_append)

lemma code_to_keeps:
  "(\<And>x. x \<in> set k \<Longrightarrow> instr_ok st H x \<and> after x H = H) \<Longrightarrow> code_to st H k H"
  by (induction k) auto

lemma wf_logger_of: "wf_log st \<Longrightarrow> lid < length (ls_loggers st) \<Longrightarrow> 
   lg_formatter (ls_loggers st ! lid) \<noteq> None \<and> list_all (attachable st) (lg_appenders (ls_loggers st ! lid)) \<and>
     (lg_root (ls_loggers st ! lid) = None \<or> lg_root (ls_loggers st ! lid) = Some (ls_root st) \<and> lid \<noteq> ls_root st)"
  using wf_log_logger [of st lid] by (auto simp: wf_logger_def wf_log_def)

lemma not_held: "below r H n \<Longrightarrow> n \<le> lock_rank r l \<Longrightarrow> H - {l} = H"
  by (auto simp: below_def)

lemma log_body_ok:
  assumes wf: "wf_log st" and ok: "instr_ok st H (I_log_body lid level ev)"
  shows "code_to st H (log_body lid level ev st) H"
proof (rule code_to_keeps)
  fix x
  assume x: "x \<in> set (log_body lid level ev st)"
  have lid: "lid < length (ls_loggers st)"
    and b: "below (ls_root st) H (Suc (lock_rank (ls_root st) (Logger_lock lid)))"
    using ok by auto
  have b3: "below (ls_root st) H 3" using b by (rule below_mono) simp
  have root: "ls_root st < length (ls_loggers st)" using wf by (simp add: wf_log_def)
  show "instr_ok st H x \<and> after x H = H"
    using x wf_logger_of [OF wf lid] b b3 root
    by (auto simp: log_body_def Let_def list_all_iff numeral_2_eq_2 split: if_splits)
qed

lemma locked_appender:
  assumes "below (ls_root st) H 3" "instr_ok st (insert (Appender_lock aid) H) x"
    "after x (insert (Appender_lock aid) H) = insert (Appender_lock aid) H"
  shows "code_to st H (locked (Appender_lock aid) [x]) H"
  using assms not_held [OF assms(1), of "Appender_lock aid"] by (auto simp: code_to_locked)

lemma append_body_ok:
  assumes "instr_ok st H (I_append aid level ev)"
  shows "code_to st H (append_body aid level ev st) H"
  using assms locked_appender [of st H aid "I_write aid level ev"]
  by (auto simp: append_body_def code_to_append split: sink.split)

lemma file_due_ok:
  assumes "instr_ok st H (I_file_due aid now)"
  shows "code_to st H (file_due aid now st) H"
  using assms locked_appender [of st H aid "I_reopen aid"]
  by (auto simp: file_due_def code_to_append split: sink.split)

lemma write_body_ok:
  assumes wf: "wf_log st" and ok: "instr_ok st H (I_write aid level ev)"
  shows "step_ok st H (write_body env aid level ev st) H"
proof -
  obtain fm where fm: "ap_formatter (ls_appenders st ! aid) = Some fm"
    using ok by (auto simp: attachable_def)
  show ?thesis
    using wf fm by (auto simp: write_body_def Let_def step_ok_def wf_intros split: sink.split
        intro!: wf_upd_appender wf_add_cout)
qed

lemma inherit_locked_ok:
  assumes "lid < length (ls_loggers st)"
  shows "code_to st {Logger_lock lid}
    (concat (map (\<lambda>aid. locked (Appender_lock aid) [I_inherit lid aid]) aids)) {Logger_lock lid}"
  using assms by (induction aids) (auto simp: code_to_append code_to_locked intro: exI [where x = "{Logger_lock lid, Appender_lock a}" for a])

lemma map_calls_ok: "list_all (call_ok st) cs \<Longrightarrow> code_to st {} (map I_call cs) {}"
  by (rule code_to_keeps) (auto simp: list_all_iff split: call.splits)

lemma map_jobs_ok: "list_all (job_ok st) js \<Longrightarrow> code_to st {} (map job_instr js) {}"
proof (rule code_to_keeps)
  fix x
  assume "list_all (job_ok st) js" "x \<in> set (map job_instr js)"
  then obtain j where "job_ok st j" "x = job_instr j" by (auto simp: list_all_iff)
  then show "instr_ok st {} x \<and> after x {} = {}" by (cases j) (auto split: call.splits)
qed

lemma call_step_ok:
  assumes wf: "wf_log st" and ok: "instr_ok st H (I_call c)"
  shows "step_ok st H (Inr (call_step c st)) H"
proof (cases c)
  case (C_Log lid level ev)
  have "Logger_lock lid \<notin> H" using ok C_Log by (auto simp: below_def)
  then have "code_to st H (locked (Logger_lock lid) [I_log_body lid level ev]) H"
    using ok C_Log by (auto simp: code_to_locked intro: below_mono)
  then show ?thesis using wf C_Log by (simp add: step_ok_def)
next
  case (C_appender_SetFormatter aid val)
  then show ?thesis using wf ok by (auto simp: step_ok_def code_to_locked)
next
  case (C_SetFormatter_pattern lid val)
  then show ?thesis
    using wf ok by (auto simp: step_ok_def wf_add_cout split: prod.splits)
next
  case (C_SetLevel lid level)
  then show ?thesis using wf ok by (auto simp: step_ok_def logger_SetLevel_def wf_logger_SetLevel [unfolded logger_SetLevel_def])
next
  case (C_appender_SetLevel aid level)
  then show ?thesis
    using wf ok by (auto simp: step_ok_def appender_set_level_def intro!: wf_upd_appender)
next
  case (C_AddAppender lid aid)
  then show ?thesis using wf ok by (auto simp: step_ok_def code_to_locked)
next
  case (C_ToYamlString lid)
  then show ?thesis using wf ok by (auto simp: step_ok_def yaml_locks_def ret_ok_def)
qed (use wf ok in \<open>auto simp: step_ok_def code_to_locked wf_add_cout\<close>)

lemma give_ok:
  assumes wf: "wf_log st" and ok: "instr_ok st H (I_give_formatter lid aid)"
  shows "step_ok st H (instr_step lib env (I_give_formatter lid aid) st) H"
proof -
  let ?st = "upd_appender aid (\<lambda>ap. ap\<lparr>ap_formatter := lg_formatter (ls_loggers st ! lid)\<rparr>) st"
  have fm: "lg_formatter (ls_loggers st ! lid) \<noteq> None" using wf_logger_of [OF wf] ok by simp
  have "wf_log ?st" "grows st ?st" using wf fm by (auto intro!: wf_upd_appender)
  moreover have "attachable ?st aid" using ok fm by (auto simp: attachable_def upd_appender_def)
  ultimately show ?thesis using ok by (auto simp: step_ok_def)
qed

lemma push_ok:
  assumes wf: "wf_log st" and ok: "instr_ok st H (I_push lid aid)"
  shows "step_ok st H (instr_step lib env (I_push lid aid) st) H"
  using ok wf_logger_of [OF wf, of lid] wf_log_logger [OF wf, of lid]
  by (auto simp: step_ok_def wf_logger_def intro!: wf_upd_logger [OF wf])

lemma set_formatter_ok:
  assumes wf: "wf_log st" and ok: "instr_ok st H (I_set_formatter lid val)"
  shows "step_ok st H (instr_step lib env (I_set_formatter lid val) st) H"
  using ok wf_log_logger [OF wf, of lid]
  by (auto simp: step_ok_def wf_logger_def intro!: wf_upd_logger [OF wf] inherit_locked_ok)

text \<open>What the library has printed it can read.\<close>

definition readable :: "yaml_lib \<Rightarrow> bool" where
  "readable lib \<longleftrightarrow> (\<forall>n. \<exists>n'. y_load lib (y_dump lib n) = Inr n')"

lemma readableE: "readable lib \<Longrightarrow> (\<And>n'. y_load lib (y_dump lib n) = Inr n' \<Longrightarrow> P) \<Longrightarrow> P"
  by (auto simp: readable_def)

lemma sink_formatter [simp]:
  "ap_formatter (sink_ReOpen env ap) = ap_formatter ap"
  "ap_formatter (sink_set_last now ap) = ap_formatter ap"
  by (simp_all add: sink_ReOpen_def sink_set_last_def split: sink.split)

lemma nodes_ok:
  assumes ok: "instr_ok st H (I_nodes lid entries apps aids ret)"
  shows "code_to st H (nodes_step lib lid entries apps aids ret st)
    (after (I_nodes lid entries apps aids ret) H)"
proof (cases aids)
  case Nil
  then show ?thesis using ok by (auto simp: yaml_locks_def ret_ok_def split: option.splits)
next
  case (Cons aid aids')
  have "below (ls_root st) (yaml_locks lid ret) 3" by (auto simp: yaml_locks_def)
  moreover have "Appender_lock aid \<notin> yaml_locks lid ret" by (auto simp: yaml_locks_def)
  ultimately show ?thesis using ok Cons by (auto simp: all_appenders_def)
qed

lemma appender_node_ok:
  assumes law: "readable lib" and wf: "wf_log st"
    and ok: "instr_ok st H (I_appender_node held lid aid entries apps aids ret)"
  shows "step_ok st H (instr_step lib env (I_appender_node held lid aid entries apps aids ret) st)
    (after (I_appender_node held lid aid entries apps aids ret) H)"
proof -
  obtain n where "y_load lib (appender_ToYamlString lib (ls_appenders st ! aid)) = Inr n"
    using law by (auto simp: appender_ToYamlString_def elim: readableE)
  moreover have "yaml_locks lid ret - {Appender_lock aid} = yaml_locks lid ret"
    by (auto simp: yaml_locks_def)
  ultimately show ?thesis using ok wf by (auto simp: step_ok_def all_appenders_def)
qed

lemma node_ok:
  assumes wf: "wf_log st" and ok: "instr_ok st H (I_node lid ret)"
  shows "step_ok st H (instr_step lib env (I_node lid ret) st) (after (I_node lid ret) H)"
proof -
  have "all_appenders st (lg_appenders (ls_loggers st ! lid))"
    using wf_log_logger [OF wf, of lid] ok
    by (auto simp: all_appenders_def wf_logger_def attachable_def list_all_iff)
  then show ?thesis using wf ok by (auto simp: step_ok_def)
qed

lemma find_logger_ok:
  assumes wf: "wf_log st" and ok: "instr_ok st H (I_find_logger name f)"
  shows "step_ok st H (instr_step lib env (I_find_logger name f) st) (after (I_find_logger name f) H)"
proof -
  obtain lid st' where g: "GetLogger name st = (lid, st')" by fastforce
  have wf': "wf_log st'" "grows st st'"
    using wf_GetLogger [OF wf, of name] grows_GetLogger [of st name] g by simp_all
  have "smap_find name (ls_mgr st') = Some lid"
    using loggers.lookup_get [OF wf TrueI, of name] g by simp
  then have "lid < length (ls_loggers st')" by (rule mgr_bound [OF wf'(1)])
  then have "list_all (job_ok st') (f lid)" using ok wf'(2) by (simp add: logger_jobs_ok_def)
  then show ?thesis using g wf' ok map_jobs_ok [of st' "f lid"] by (simp add: step_ok_def)
qed

lemma with_appender_ok:
  assumes wf: "wf_log st" and ok: "instr_ok st H (I_with_appender new f)"
  shows "step_ok st H (instr_step lib env (I_with_appender new f) st) H"
proof -
  obtain ap where ap: "make_appender env new (length (ls_appenders st)) = Inr ap"
    using ok by (cases new) (auto simp: appender_calls_ok_def)
  let ?st = "snd (alloc_appender ap st)"
  have "wf_log ?st" "grows st ?st" using wf by (auto intro: wf_alloc_appender grows_alloc_appender)
  moreover have "length (ls_appenders st) < length (ls_appenders ?st)" by (simp add: alloc_appender_def)
  ultimately have "list_all (call_ok ?st) (f (length (ls_appenders st)))"
    using ok by (simp add: appender_calls_ok_def)
  with \<open>wf_log ?st\<close> \<open>grows st ?st\<close> ok show ?thesis
    by (simp add: step_ok_def ap map_calls_ok alloc_appender_def)
qed

lemma instr_step_ok:
  assumes law: "readable lib" and wf: "wf_log st" and ok: "instr_ok st H x"
    and x: "\<And>l. x \<noteq> I_lock l" "\<And>l. x \<noteq> I_unlock l"
  shows "step_ok st H (instr_step lib env x st) (after x H)"
proof (cases x)
  case (I_find_logger name f)
  then show ?thesis using find_logger_ok wf ok by simp
next
  case (I_with_appender new f)
  then show ?thesis using with_appender_ok wf ok by simp
next
  case (I_append aid level ev)
  then show ?thesis using append_body_ok [of st H] wf ok by (simp add: step_ok_def)
next
  case (I_log_body lid level ev)
  then show ?thesis using log_body_ok [of st H] wf ok by (simp add: step_ok_def)
next
  case (I_file_due aid now)
  then show ?thesis using file_due_ok [of st H] wf ok by (simp add: step_ok_def)
next
  case (I_nodes lid entries apps aids ret)
  then show ?thesis using nodes_ok [of st H] wf ok by (simp add: step_ok_def)
next
  case (I_call c)
  then show ?thesis using call_step_ok wf ok by simp
next
  case (I_appender_node held lid aid entries apps aids ret)
  then show ?thesis using appender_node_ok [OF law wf] ok by blast
next
  case (I_node lid ret)
  then show ?thesis using node_ok wf ok by simp
next
  case (I_mgr_load n ns lids)
  obtain n' where "y_load lib (y_dump lib n) = Inr n'" using law by (rule readableE)
  then show ?thesis using I_mgr_load wf ok by (auto simp: step_ok_def)
next
  case (I_mgr_nodes ns lids)
  then show ?thesis using wf ok by (cases lids) (auto simp: step_ok_def yaml_locks_def ret_ok_def all_loggers_def)
next
  case I_mgr_node
  then show ?thesis using wf ok
    by (auto simp: step_ok_def all_loggers_def wf_log_def list_all_iff)
next
  case (I_with_logger name f)
  then show ?thesis using wf ok by (auto simp: step_ok_def)
next
  case (I_get_formatter lid aid)
  then show ?thesis using wf ok by (auto simp: step_ok_def attachable_def)
next
  case (I_write aid level ev)
  then show ?thesis using write_body_ok wf ok by simp
next
  case (I_give_formatter lid aid)
  then show ?thesis using give_ok wf ok by simp
next
  case (I_push lid aid)
  then show ?thesis using push_ok wf ok by simp
next
  case (I_set_formatter lid val)
  then show ?thesis using set_formatter_ok wf ok by simp
next
  case (I_inherit lid aid)
  then show ?thesis using wf ok wf_logger_of [OF wf, of lid]
    by (auto simp: step_ok_def inherit_formatter_def intro!: wf_upd_appender)
next
  case (I_set_appender_formatter aid val)
  then show ?thesis using wf ok
    by (auto simp: step_ok_def appender_set_formatter_def intro!: wf_upd_appender)
qed (use wf ok x in \<open>auto simp: step_ok_def DelAppender_def ClearAppenders_def
  wf_DelAppender [unfolded DelAppender_def] wf_ClearAppenders [unfolded ClearAppenders_def]
  intro!: wf_upd_appender wf_add_cout\<close>)

end
