(* ===== verification/RankedLocks.thy ===== *)
theory RankedLocks
  imports Prelude "HOL-Library.Multiset"
begin

text \<open>
  Systems of threads that wait for locks held by others. If locks have ranks and a thread only waits for
  locks that rank above all those it holds, then some thread can always go on (\<open>ranked_locks\<close>); if
  besides no run is infinite, every run can be completed (\<open>finishing_locks\<close>). Locks may be shared:
  \<open>blocked\<close> says that a thread cannot take the lock it wants now, for which another thread, or
  itself, must hold it in some way.
\<close>

subsection \<open>Threads as stacks\<close>

text \<open>A thread is a stack of statements. If every step takes the top of one stack and leaves statements of
  lower level in its place, no run is infinite.\<close>

definition level_less :: "((nat \<times> nat \<times> nat) \<times> (nat \<times> nat \<times> nat)) set" where
  "level_less = less_than <*lex*> less_than <*lex*> less_than"

lemma wf_level_less: "wf level_less"
  by (simp add: level_less_def wf_lex_prod)

lemma level_less_iff [simp]:
  "((a, b, c), (a', b', c')) \<in> level_less \<longleftrightarrow> a < a' \<or> a = a' \<and> (b < b' \<or> b = b' \<and> c < c')"
  by (auto simp: level_less_def)

lemma mset_concat_update:
  "i < length xss \<Longrightarrow> xss ! i = x # k \<Longrightarrow>
   \<exists>M. mset (concat xss) = add_mset x M \<and> mset (concat (xss[i := new @ k])) = M + mset new"
proof (induction xss arbitrary: i)
  case (Cons xs xss)
  show ?case
  proof (cases i)
    case 0
    then show ?thesis using Cons.prems by (intro exI [where x = "mset k + mset (concat xss)"]) simp
  next
    case (Suc j)
    then obtain M where "mset (concat xss) = add_mset x M" "mset (concat (xss[j := new @ k])) = M + mset new"
      using Cons by auto
    then show ?thesis using Suc by (intro exI [where x = "mset xs + M"]) simp
  qed
qed simp

lemma stacks_decrease:
  assumes "i < length xss" "xss ! i = x # k" "yss = xss[i := new @ k]" "\<forall>y \<in> set new. (l y, l x) \<in> R"
  shows "(image_mset l (mset (concat yss)), image_mset l (mset (concat xss))) \<in> mult1 R"
proof -
  obtain M where M: "mset (concat xss) = add_mset x M" "mset (concat yss) = M + mset new"
    using mset_concat_update [OF assms(1,2), of new] assms(3) by auto
  show ?thesis
    unfolding M using assms(4)
    by (intro mult1I [where a = "l x" and K = "image_mset l (mset new)" and ?M0.0 = "image_mset l M"]) auto
qed

subsection \<open>Locks with ranks\<close>

locale ranked_locks =
  fixes inv :: "'s \<Rightarrow> bool"
    and thread :: "'s \<Rightarrow> 't \<Rightarrow> bool"
    and finished :: "'s \<Rightarrow> 't \<Rightarrow> bool"
    and holds :: "'s \<Rightarrow> 't \<Rightarrow> 'l \<Rightarrow> bool"
    and wants :: "'s \<Rightarrow> 't \<Rightarrow> 'l option"
    and blocked :: "'s \<Rightarrow> 't \<Rightarrow> bool"
    and rank :: "'s \<Rightarrow> 'l \<Rightarrow> nat"
    and top :: nat
  assumes holder_active: "inv s \<Longrightarrow> holds s i l \<Longrightarrow> thread s i \<and> \<not> finished s i"
    and blocked_held: "inv s \<Longrightarrow> thread s i \<Longrightarrow> blocked s i \<Longrightarrow> \<exists>l j. wants s i = Some l \<and> holds s j l"
    and upward: "inv s \<Longrightarrow> holds s i l \<Longrightarrow> wants s i = Some l' \<Longrightarrow> rank s l < rank s l'"
    and rank_top: "inv s \<Longrightarrow> holds s i l \<Longrightarrow> rank s l \<le> top"
begin

text \<open>Follow the holders of the wanted locks: the ranks grow, so the chain ends at a thread that is not
  blocked.\<close>

lemma chain_ends:
  "inv s \<Longrightarrow> holds s j l \<Longrightarrow> \<exists>k. thread s k \<and> \<not> finished s k \<and> \<not> blocked s k"
proof (induction "top - rank s l" arbitrary: j l rule: less_induct)
  case less
  have j: "thread s j" "\<not> finished s j"
    using less.prems by (auto dest: holder_active)
  show ?case
  proof (cases "blocked s j")
    case True
    then obtain l' k where l': "wants s j = Some l'" "holds s k l'"
      using blocked_held less.prems(1) j(1) by blast
    have "rank s l < rank s l'" using less.prems l' by (blast intro: upward)
    moreover have "rank s l' \<le> top" using less.prems(1) l'(2) by (rule rank_top)
    ultimately show ?thesis
      using less.hyps [OF _ less.prems(1) l'(2)] by simp
  qed (use j in blast)
qed

lemma not_all_blocked:
  assumes "inv s" "thread s i" "\<not> finished s i"
  shows "\<exists>k. thread s k \<and> \<not> finished s k \<and> \<not> blocked s k"
proof (cases "blocked s i")
  case True
  then show ?thesis using assms(1,2) blocked_held chain_ends by blast
qed (use assms in blast)

end

locale finishing_locks = ranked_locks inv thread finished holds wants blocked rank top
  for inv :: "'s \<Rightarrow> bool"
    and thread :: "'s \<Rightarrow> 't \<Rightarrow> bool"
    and finished :: "'s \<Rightarrow> 't \<Rightarrow> bool"
    and holds :: "'s \<Rightarrow> 't \<Rightarrow> 'l \<Rightarrow> bool"
    and wants :: "'s \<Rightarrow> 't \<Rightarrow> 'l option"
    and blocked :: "'s \<Rightarrow> 't \<Rightarrow> bool"
    and rank :: "'s \<Rightarrow> 'l \<Rightarrow> nat"
    and top :: nat +
  fixes step :: "'s \<Rightarrow> 't \<Rightarrow> 's \<Rightarrow> bool"
  assumes inv_step: "inv s \<Longrightarrow> step s i s' \<Longrightarrow> inv s'"
    and can_step: "inv s \<Longrightarrow> thread s i \<Longrightarrow> \<not> finished s i \<Longrightarrow> \<not> blocked s i \<Longrightarrow> \<exists>s'. step s i s'"
    and no_infinite_run: "wf {(s', s). inv s \<and> (\<exists>i. step s i s')}"
begin

inductive run :: "'s \<Rightarrow> 't list \<Rightarrow> 's \<Rightarrow> bool" where
  run_refl: "run s [] s"
| run_step: "step s i s' \<Longrightarrow> run s' is s'' \<Longrightarrow> run s (i # is) s''"

definition all_finished :: "'s \<Rightarrow> bool" where
  "all_finished s \<longleftrightarrow> (\<forall>i. thread s i \<longrightarrow> finished s i)"

lemma inv_run: "run s is s' \<Longrightarrow> inv s \<Longrightarrow> inv s'"
  by (induction rule: run.induct) (auto intro: inv_step)

lemma progress: "inv s \<Longrightarrow> \<not> all_finished s \<Longrightarrow> \<exists>i s'. step s i s'"
  using not_all_blocked can_step unfolding all_finished_def by blast

lemma completes: "inv s \<Longrightarrow> \<exists>is s'. run s is s' \<and> all_finished s' \<and> inv s'"
proof (induction s rule: wf_induct_rule [OF no_infinite_run])
  case (1 s)
  show ?case
  proof (cases "all_finished s")
    case True
    then show ?thesis using 1(2) by (blast intro: run_refl)
  next
    case False
    then obtain i t where t: "step s i t" using progress 1(2) by blast
    then have "inv t" using 1(2) by (rule inv_step [rotated])
    then obtain "is" s' where "run t is s'" "all_finished s'" "inv s'"
      using 1(1) [of t] t 1(2) by blast
    then show ?thesis using t by (blast intro: run_step)
  qed
qed

lemma no_infinite_steps:
  assumes "inv (f 0)" shows "\<not> (\<forall>n. \<exists>i. step (f n) i (f (Suc n)))"
proof
  assume step: "\<forall>n. \<exists>i. step (f n) i (f (Suc n))"
  have "inv (f n)" for n
  proof (induction n)
    case (Suc n)
    then show ?case using step inv_step by blast
  qed (rule assms)
  then have "\<forall>n. (f (Suc n), f n) \<in> {(s', s). inv s \<and> (\<exists>i. step s i s')}" using step by simp
  then show False using no_infinite_run unfolding wf_iff_no_infinite_down_chain by blast
qed

lemma unlocked_at_end: "inv s \<Longrightarrow> all_finished s \<Longrightarrow> \<not> holds s i l"
  using holder_active by (auto simp: all_finished_def)

end

end
