(* ===== verification/LogThreadsSafe.thy ===== *)
theory LogThreadsSafe
  imports LogThreadsOk RankedLocks
begin

text \<open>
  Threads that log and reconfigure loggers at the same time neither fail nor wait for each other for
  ever, and whatever the order of their steps, all their calls return: the threads of \<open>LogThreads\<close>
  interpret the locales of \<open>RankedLocks\<close>.
\<close>

subsection \<open>The invariant\<close>

text \<open>Every thread has what its statements need, with the locks it holds now, and ends with none.\<close>

definition held :: "system \<Rightarrow> nat \<Rightarrow> lock set" where
  "held s i = {l. sy_owner s l = Some i}"

definition system_ok :: "system \<Rightarrow> bool" where
  "system_ok s \<longleftrightarrow> wf_log (sy_log s) \<and>
     (\<forall>i < length (sy_threads s). code_to (sy_log s) (held s i) (sy_threads s ! i) {}) \<and>
     (\<forall>l i. sy_owner s l = Some i \<longrightarrow> i < length (sy_threads s))"

definition sys_step :: "yaml_lib \<Rightarrow> log_env \<Rightarrow> system \<Rightarrow> nat \<Rightarrow> system \<Rightarrow> bool" where
  "sys_step lib env s i s' \<longleftrightarrow> thread_step lib env i s = Some (Inr s')"

text \<open>The three kinds of steps.\<close>

lemma thread_step_cases:
  assumes "thread_step lib env i s = Some r"
  obtains (lock) l k where "sy_threads s ! i = I_lock l # k" "sy_owner s l = None"
      "r = Inr (s\<lparr>sy_owner := (sy_owner s)(l := Some i), sy_threads := (sy_threads s)[i := k]\<rparr>)"
  | (unlock) l k where "sy_threads s ! i = I_unlock l # k"
      "r = Inr (s\<lparr>sy_owner := (sy_owner s)(l := None), sy_threads := (sy_threads s)[i := k]\<rparr>)"
  | (work) x k where "sy_threads s ! i = x # k" "\<And>l. x \<noteq> I_lock l" "\<And>l. x \<noteq> I_unlock l"
      "r = obind (instr_step lib env x (sy_log s)) (\<lambda>(new, st).
             Inr (s\<lparr>sy_log := st, sy_threads := (sy_threads s)[i := new @ k]\<rparr>))"
proof (cases "sy_threads s ! i")
  case Nil
  then show ?thesis using assms by (simp add: thread_step_def split: if_splits)
next
  case (Cons x k)
  show ?thesis
  proof (cases x)
    case (I_lock l)
    then show ?thesis using assms Cons lock by (auto simp: thread_step_def split: if_splits)
  next
    case (I_unlock l)
    then show ?thesis using assms Cons unlock by (auto simp: thread_step_def split: if_splits)
  qed (use assms Cons work in \<open>auto simp: thread_step_def split: if_splits\<close>)
qed

lemma thread_step_index: "thread_step lib env i s = Some r \<Longrightarrow> i < length (sy_threads s)"
  by (auto simp: thread_step_def split: if_splits)

lemma thread_step_work:
  "i < length (sy_threads s) \<Longrightarrow> sy_threads s ! i = x # k \<Longrightarrow>
   (\<And>l. x \<noteq> I_lock l) \<Longrightarrow> (\<And>l. x \<noteq> I_unlock l) \<Longrightarrow>
   thread_step lib env i s = Some (obind (instr_step lib env x (sy_log s)) (\<lambda>(new, st).
     Inr (s\<lparr>sy_log := st, sy_threads := (sy_threads s)[i := new @ k]\<rparr>)))"
  by (cases x) (auto simp: thread_step_def)

lemma system_okD:
  assumes "system_ok s" "i < length (sy_threads s)" "sy_threads s ! i = x # k"
  shows "instr_ok (sy_log s) (held s i) x" "code_to (sy_log s) (after x (held s i)) k {}"
proof -
  have "code_to (sy_log s) (held s i) (x # k) {}" using assms unfolding system_ok_def by metis
  then show "instr_ok (sy_log s) (held s i) x" "code_to (sy_log s) (after x (held s i)) k {}" by simp_all
qed

text \<open>A step leaves the others as they are, except for what it adds to the state.\<close>

lemma system_ok_step:
  assumes ok: "system_ok s" and i: "i < length (sy_threads s)"
    and wf: "wf_log (sy_log s')" and g: "grows (sy_log s) (sy_log s')"
    and others: "\<And>j. j \<noteq> i \<Longrightarrow> held s' j = held s j"
    and ths: "sy_threads s' = (sy_threads s)[i := k]" and code: "code_to (sy_log s') (held s' i) k {}"
  shows "system_ok s'"
proof -
  have "code_to (sy_log s') (held s' j) (sy_threads s' ! j) {}" if "j < length (sy_threads s')" for j
    using ok that i code others [of j] code_to_grows [OF g]
    by (cases "j = i") (auto simp: ths system_ok_def)
  moreover have "j < length (sy_threads s')" if "sy_owner s' l = Some j" for l j
  proof (cases "j = i")
    case False
    have "l \<in> held s' j" using that by (simp add: held_def)
    then have "l \<in> held s j" using others [OF False] by simp
    then show ?thesis using ok by (simp add: ths system_ok_def held_def)
  qed (use i ths in simp)
  ultimately show ?thesis using wf by (simp add: system_ok_def)
qed

lemma thread_step_ok:
  assumes law: "readable lib" and ok: "system_ok s"
    and step: "thread_step lib env i s = Some r"
  shows "\<exists>s'. r = Inr s' \<and> system_ok s' \<and> length (sy_threads s') = length (sy_threads s) \<and>
    grows (sy_log s) (sy_log s')"
  using step
proof (cases rule: thread_step_cases)
  note i = thread_step_index [OF step]
  case (lock l k)
  let ?s = "s\<lparr>sy_owner := (sy_owner s)(l := Some i), sy_threads := (sy_threads s)[i := k]\<rparr>"
  have held: "held ?s j = (if j = i then insert l (held s i) else held s j)" for j
    using lock(2) by (auto simp: held_def)
  have "system_ok ?s"
    by (rule system_ok_step [OF ok i, of _ k])
      (use ok system_okD [OF ok i lock(1)] in \<open>auto simp: held system_ok_def\<close>)
  then show ?thesis using lock(3) by simp
next
  note i = thread_step_index [OF step]
  case (unlock l k)
  let ?s = "s\<lparr>sy_owner := (sy_owner s)(l := None), sy_threads := (sy_threads s)[i := k]\<rparr>"
  have l: "sy_owner s l = Some i" using system_okD(1) [OF ok i unlock(1)] by (simp add: held_def)
  have held: "held ?s j = (if j = i then held s i - {l} else held s j)" for j
    using l by (auto simp: held_def)
  have "system_ok ?s"
    by (rule system_ok_step [OF ok i, of _ k])
      (use ok system_okD [OF ok i unlock(1)] in \<open>auto simp: held system_ok_def\<close>)
  then show ?thesis using unlock(2) by simp
next
  note i = thread_step_index [OF step]
  case (work x k)
  have wf: "wf_log (sy_log s)" using ok by (simp add: system_ok_def)
  note x = system_okD [OF ok i work(1)]
  obtain new st where new: "instr_step lib env x (sy_log s) = Inr (new, st)" "wf_log st"
    "grows (sy_log s) st" "code_to st (held s i) new (after x (held s i))"
    using instr_step_ok [OF law wf x(1) work(2,3), of env]
    by (auto simp: step_ok_def split: sum.splits)
  let ?s = "s\<lparr>sy_log := st, sy_threads := (sy_threads s)[i := new @ k]\<rparr>"
  have held: "held ?s = held s" by (simp add: held_def fun_eq_iff)
  have "code_to st (held s i) (new @ k) {}"
    using new(4) code_to_grows [OF new(3) x(2)] by (auto simp: code_to_append)
  then have "system_ok ?s"
    by (intro system_ok_step [OF ok i, of _ "new @ k"]) (use new in \<open>simp_all add: held\<close>)
  then show ?thesis using new work(4) by simp
qed

subsection \<open>Every run ends\<close>

fun call_level :: "nat \<Rightarrow> call \<Rightarrow> nat" where
  "call_level r (C_Log lid _ _) = (if lid = r then 4 else 6)"
| "call_level r (C_SetFormatter _ _) = 6"
| "call_level r (C_P_LOG _ _ _ _) = 7"
| "call_level r (C_SetFormatter_pattern _ _) = 7"
| "call_level r _ = 11"

fun yaml_level :: "to_mgr \<Rightarrow> nat \<Rightarrow> nat \<Rightarrow> nat \<times> nat \<times> nat" where
  "yaml_level None b c = (8, b, c)"
| "yaml_level (Some (ns, lids)) b c = (9, 4 * length lids + b, c)"

fun instr_level :: "nat \<Rightarrow> instr \<Rightarrow> nat \<times> nat \<times> nat" where
  "instr_level r (I_call c) = (call_level r c, 0, 0)"
| "instr_level r (I_with_logger _ _) = (14, 0, 0)"
| "instr_level r (I_find_logger _ _) = (13, 0, 0)"
| "instr_level r (I_with_appender _ _) = (12, 0, 0)"
| "instr_level r (I_log_body lid _ _) = (if lid = r then 3 else 5, 0, 0)"
| "instr_level r (I_append _ _ _) = (2, 0, 0)"
| "instr_level r (I_file_due _ _) = (1, 0, 0)"
| "instr_level r (I_write _ _ _) = (1, 0, 0)"
| "instr_level r (I_get_formatter _ _) = (2, 0, 0)"
| "instr_level r (I_give_formatter _ _) = (1, 0, 0)"
| "instr_level r (I_set_formatter _ _) = (1, 0, 0)"
| "instr_level r (I_node _ ret) = yaml_level ret 3 0"
| "instr_level r (I_nodes _ _ _ aids ret) = yaml_level ret 2 (2 * length aids)"
| "instr_level r (I_appender_node _ _ _ _ _ aids ret) = yaml_level ret 2 (2 * length aids + 1)"
| "instr_level r I_mgr_node = (10, 0, 0)"
| "instr_level r (I_mgr_nodes _ lids) = (9, 4 * length lids, 0)"
| "instr_level r (I_mgr_load _ _ lids) = (9, 4 * length lids + 1, 0)"
| "instr_level r _ = (0, 0, 0)"

lemma locked_level:
  "y \<in> set (locked l body) \<Longrightarrow> y \<in> set body \<or> instr_level r y = (0, 0, 0)"
  by (auto simp: locked_def)

lemma call_level_bound: "call_level r c < 12"
  by (cases c) auto

lemma job_level: "(instr_level r (job_instr j), (13, 0, 0)) \<in> level_less"
  using call_level_bound by (cases j) (auto simp: level_less_iff intro: less_trans)

lemma call_step_level:
  "y \<in> set (fst (call_step c st)) \<Longrightarrow> (instr_level r y, (call_level r c, 0, 0)) \<in> level_less"
  by (cases c) (auto simp: locked_def level_less_iff split: if_splits prod.splits)

lemma log_body_level:
  assumes "wf_log st" "lid < length (ls_loggers st)" "y \<in> set (log_body lid level ev st)"
  shows "(instr_level (ls_root st) y, instr_level (ls_root st) (I_log_body lid level ev)) \<in> level_less"
  using assms wf_logger_of [OF assms(1,2)]
  by (auto simp: log_body_def Let_def level_less_iff split: if_splits)

lemma nodes_level:
  "y \<in> set (nodes_step lib lid entries apps aids ret st) \<Longrightarrow>
   (instr_level r y, instr_level r (I_nodes lid entries apps aids ret)) \<in> level_less"
  by (cases aids; cases ret) (auto simp: level_less_iff split: if_splits)

lemma instr_step_level:
  assumes wf: "wf_log st" and ok: "instr_ok st H x"
    and step: "instr_step lib env x st = Inr (new, st')" and y: "y \<in> set new"
    and x: "\<And>l. x \<noteq> I_lock l" "\<And>l. x \<noteq> I_unlock l"
  shows "(instr_level (ls_root st) y, instr_level (ls_root st) x) \<in> level_less"
proof (cases x)
  case (I_call c)
  then show ?thesis using step y call_step_level [of y c st "ls_root st"] by simp
next
  case (I_log_body lid level ev)
  then show ?thesis using step y ok log_body_level [OF wf, of lid y level ev] by auto
next
  case (I_nodes lid entries apps aids ret)
  then show ?thesis using step y nodes_level [of y lib lid entries apps aids ret st] by auto
next
  case (I_append aid level ev)
  then show ?thesis using step y by (auto simp: append_body_def locked_def level_less_iff split: if_splits sink.splits)
next
  case (I_file_due aid now)
  then show ?thesis using step y by (auto simp: file_due_def locked_def level_less_iff split: if_splits sink.splits)
next
  case (I_write aid level ev)
  then show ?thesis using step y by (auto simp: write_body_def Let_def level_less_iff split: if_splits sink.splits option.splits)
next
  case (I_mgr_nodes ns lids)
  then show ?thesis using step y by (cases lids) (auto simp: level_less_iff)
next
  case (I_set_formatter lid val)
  then show ?thesis using step y by (auto simp: locked_def level_less_iff)
next
  case (I_appender_node held lid aid entries apps aids ret)
  then show ?thesis using step y by (cases ret) (auto simp: level_less_iff obind_Inr_iff split: if_splits)
next
  case (I_node lid ret)
  then show ?thesis using step y by (cases ret) (auto simp: level_less_iff)
next
  case (I_find_logger name f)
  then show ?thesis using step y by (auto simp: job_level split: prod.splits)
next
  case (I_with_appender new f)
  then show ?thesis using step y by (auto simp: alloc_appender_def obind_Inr_iff call_level_bound)
qed (use step y x in \<open>auto simp: level_less_iff obind_Inr_iff call_level_bound split: prod.splits if_splits\<close>)

definition load :: "system \<Rightarrow> (nat \<times> nat \<times> nat) multiset" where
  "load s = image_mset (instr_level (ls_root (sy_log s))) (mset (concat (sy_threads s)))"

lemma load_decreases:
  assumes ok: "system_ok s" and step: "sys_step lib env s i s'"
    and root: "ls_root (sy_log s') = ls_root (sy_log s)"
  shows "(load s', load s) \<in> mult1 level_less"
proof -
  let ?l = "instr_level (ls_root (sy_log s))"
  have st: "thread_step lib env i s = Some (Inr s')" using step by (simp add: sys_step_def)
  note i = thread_step_index [OF st]
  have "\<exists>x k new. sy_threads s ! i = x # k \<and> sy_threads s' = (sy_threads s)[i := new @ k] \<and>
      (\<forall>y \<in> set new. (?l y, ?l x) \<in> level_less)"
    using st
  proof (cases rule: thread_step_cases)
    case (work x k)
    then obtain new st' where new: "instr_step lib env x (sy_log s) = Inr (new, st')"
      "s' = s\<lparr>sy_log := st', sy_threads := (sy_threads s)[i := new @ k]\<rparr>"
      by (auto simp: obind_Inr_iff eq_commute [of "Inr s'"])
    have "wf_log (sy_log s)" using ok by (simp add: system_ok_def)
    then have "\<forall>y \<in> set new. (?l y, ?l x) \<in> level_less"
      using instr_step_level [OF _ system_okD(1) [OF ok i work(1)] new(1)] work(2,3) by blast
    then show ?thesis using work(1) new(2) by (intro exI conjI) auto
  qed (intro exI [where x = "[]"] exI conjI, auto)+
  then obtain x k new where x: "sy_threads s ! i = x # k" "sy_threads s' = (sy_threads s)[i := new @ k]"
    "\<forall>y \<in> set new. (?l y, ?l x) \<in> level_less" by blast
  then show ?thesis unfolding load_def root by (intro stacks_decrease [OF i])
qed

subsection \<open>The contract of ranked locks\<close>

definition valid_system :: "yaml_lib \<Rightarrow> system \<Rightarrow> bool" where
  "valid_system lib s \<longleftrightarrow> readable lib \<and> system_ok s"

lemma lock_rank_top: "lock_rank r l \<le> 3"
  by (cases l) auto

lemma wantedD: "wanted s i = Some l \<Longrightarrow> \<exists>k. sy_threads s ! i = I_lock l # k"
  by (auto simp: wanted_def split: list.splits instr.splits)

lemma owner_unfinished:
  "system_ok s \<Longrightarrow> sy_owner s l = Some i \<Longrightarrow> i < length (sy_threads s) \<and> sy_threads s ! i \<noteq> []"
proof
  assume ok: "system_ok s" and l: "sy_owner s l = Some i"
  then show i: "i < length (sy_threads s)" by (simp add: system_ok_def)
  have "code_to (sy_log s) (held s i) (sy_threads s ! i) {}" using ok i by (simp add: system_ok_def)
  moreover have "held s i \<noteq> {}" using l by (auto simp: held_def)
  ultimately show "sy_threads s ! i \<noteq> []" by auto
qed

definition spins :: "system \<Rightarrow> nat \<Rightarrow> bool" where
  "spins s i \<longleftrightarrow> (\<exists>l. wanted s i = Some l \<and> sy_owner s l \<noteq> None)"

lemma sys_step_ok:
  assumes "valid_system lib s" "sys_step lib env s i s'"
  shows "valid_system lib s'" "grows (sy_log s) (sy_log s')"
  using thread_step_ok [of lib s env i] assms by (auto simp: valid_system_def sys_step_def)

lemma unblocked_steps:
  assumes ok: "valid_system lib s" and i: "i < length (sy_threads s)" "sy_threads s ! i \<noteq> []"
    and free: "\<not> spins s i"
  shows "\<exists>s'. sys_step lib env s i s'"
proof -
  obtain x k where x: "sy_threads s ! i = x # k" using i(2) by (cases "sy_threads s ! i") auto
  have "\<exists>r. thread_step lib env i s = Some r"
    using free x i(1) by (cases x) (auto simp: thread_step_def spins_def wanted_def)
  then show ?thesis
    using thread_step_ok [of lib s env i] ok by (fastforce simp: valid_system_def sys_step_def)
qed

interpretation logging: finishing_locks "valid_system lib" "\<lambda>s i. i < length (sy_threads s)"
  "\<lambda>s i. sy_threads s ! i = []" "\<lambda>s i l. sy_owner s l = Some i" wanted spins
  "\<lambda>s. lock_rank (ls_root (sy_log s))" 3 "sys_step lib env"
  for lib env
proof unfold_locales
  fix s i l
  assume "valid_system lib s" "sy_owner s l = Some i"
  then show "i < length (sy_threads s) \<and> sy_threads s ! i \<noteq> []"
    using owner_unfinished by (simp add: valid_system_def)
next
  fix s l i l'
  assume ok: "valid_system lib s" and l: "sy_owner s l = Some i" and l': "wanted s i = Some l'"
  have i: "i < length (sy_threads s)" using ok l by (auto simp: valid_system_def system_ok_def)
  obtain k where "sy_threads s ! i = I_lock l' # k" using wantedD [OF l'] by blast
  then have "below (ls_root (sy_log s)) (held s i) (lock_rank (ls_root (sy_log s)) l')"
    using system_okD(1) [of s i] ok i by (auto simp: valid_system_def)
  then show "lock_rank (ls_root (sy_log s)) l < lock_rank (ls_root (sy_log s)) l'"
    using l by (simp add: below_def held_def)
next
  show "wf {(s', s). valid_system lib s \<and> (\<exists>i. sys_step lib env s i s')}"
  proof (rule wf_subset)
    show "wf (inv_image (mult1 level_less) load)"
      by (intro wf_inv_image wf_mult1 wf_level_less)
    show "{(s', s). valid_system lib s \<and> (\<exists>i. sys_step lib env s i s')} \<subseteq> inv_image (mult1 level_less) load"
      using load_decreases sys_step_ok(2) by (fastforce simp: valid_system_def grows_def)
  qed
qed (auto simp: spins_def intro: sys_step_ok(1) unblocked_steps [unfolded spins_def] lock_rank_top)

subsection \<open>Programs\<close>

text \<open>What a thread may consist of at the start: calls of the public operations on existing objects, and
  calls on a logger it asks the manager for or on an appender it makes.\<close>

fun public_ok :: "log_state \<Rightarrow> instr \<Rightarrow> bool" where
  "public_ok st (I_call c) \<longleftrightarrow> call_ok st c"
| "public_ok st (I_with_logger name f) \<longleftrightarrow> logger_jobs_ok st f"
| "public_ok st (I_with_appender new f) \<longleftrightarrow> appender_calls_ok st new f"
| "public_ok st _ \<longleftrightarrow> False"

definition programs_ok :: "log_state \<Rightarrow> instr list list \<Rightarrow> bool" where
  "programs_ok st threads \<longleftrightarrow> list_all (list_all (public_ok st)) threads"

lemma public_code: "list_all (public_ok st) k \<Longrightarrow> code_to st {} k {}"
proof (rule code_to_keeps)
  fix x
  assume "list_all (public_ok st) k" "x \<in> set k"
  then have "public_ok st x" by (simp add: list_all_iff)
  then show "instr_ok st {} x \<and> after x {} = {}" by (cases x) (auto split: call.split)
qed

lemma valid_init: "readable lib \<Longrightarrow> wf_log st \<Longrightarrow> programs_ok st threads \<Longrightarrow> valid_system lib (init_system st threads)"
  by (auto simp: valid_system_def system_ok_def init_system_def held_def programs_ok_def list_all_length
      intro!: public_code)

definition all_returned :: "system \<Rightarrow> bool" where
  "all_returned s \<longleftrightarrow> list_all (\<lambda>k. k = []) (sy_threads s)"

lemma all_returned_iff: "all_returned s \<longleftrightarrow> logging.all_finished s"
  by (simp add: all_returned_def logging.all_finished_def list_all_length)

lemma run_schedule_ok:
  "valid_system lib s \<Longrightarrow> \<exists>s'. run_schedule lib env sched s = Inr s' \<and> valid_system lib s'"
proof (induction sched arbitrary: s)
  case (Cons i sched)
  show ?case
  proof (cases "thread_step lib env i s")
    case None
    then show ?thesis using Cons by simp
  next
    case (Some r)
    then obtain s' where "r = Inr s'" using thread_step_ok [of lib s env i] Cons.prems
      by (auto simp: valid_system_def)
    then show ?thesis using Cons Some sys_step_ok(1) [of lib s env i s'] by (simp add: sys_step_def)
  qed
qed simp

lemma run_schedule_append:
  "run_schedule lib env (a @ b) s = obind (run_schedule lib env a s) (run_schedule lib env b)"
proof (induction a arbitrary: s)
  case (Cons i a)
  show ?case
  proof (cases "thread_step lib env i s")
    case (Some r)
    then show ?thesis using Cons by (cases r) simp_all
  qed (simp add: Cons)
qed simp

lemma run_is_schedule: "logging.run lib env s is s' \<Longrightarrow> run_schedule lib env is s = Inr s'"
  by (induction rule: logging.run.induct) (simp_all add: sys_step_def)

lemma some_run_returns:
  "valid_system lib s \<Longrightarrow> \<exists>more s'. run_schedule lib env more s = Inr s' \<and> all_returned s'"
  using logging.completes [of lib s env] run_is_schedule all_returned_iff by blast

text \<open>An example: three threads that log, describe the manager and take away the root logger's appenders,
  and attach a new appender to it.\<close>

definition sample_threads :: "instr list list" where
  "sample_threads =
     [[I_with_logger ''net'' (\<lambda>l. [J_call (C_SetFormatter_pattern l ''%m''),
        J_call (C_P_LOG \<lparr>site_file = ''a.cpp'', site_line = 7, site_thread = 1, site_time = 0\<rparr> l ERROR ''up'')])],
      [I_call C_mgr_ToYamlString, I_call (C_ClearAppenders 0)],
      [I_with_appender New_stdout (\<lambda>a. [C_AddAppender 0 a])]]"

definition sample_yaml :: yaml_lib where
  "sample_yaml = \<lparr>y_load = (\<lambda>s. Inr YNull), y_dump = (\<lambda>n. ''~''), y_as_string = (\<lambda>n. Inr []),
     y_map_at = (\<lambda>ps i. YUndef)\<rparr>"

definition sample_env :: log_env where
  "sample_env = \<lparr>le_strftime = (\<lambda>f t. []), le_can_open = (\<lambda>n. True)\<rparr>"

lemma sample_ok:
  "readable sample_yaml" "programs_ok init_log_state sample_threads"
  by (auto simp: readable_def sample_yaml_def programs_ok_def sample_threads_def logger_jobs_ok_def
      appender_calls_ok_def grows_def init_log_state_eq)



text \<open>C16: every call returns: no run of the threads is infinite, and from every point that a run can reach,
  the threads can go on until all of them are done.\<close>

theorem threads_return:
  assumes "readable lib" and "wf_log st" and "programs_ok st threads"
  shows "(\<nexists>f. f 0 = init_system st threads \<and>
      (\<forall>n. \<exists>i. thread_step lib env i (f n) = Some (Inr (f (Suc n))))) \<and>
    (\<exists>more s. run_schedule lib env (sched @ more) (init_system st threads) = Inr s \<and> all_returned s)"
proof
  show "\<nexists>f. f 0 = init_system st threads \<and>
      (\<forall>n. \<exists>i. thread_step lib env i (f n) = Some (Inr (f (Suc n))))"
    using logging.no_infinite_steps [of lib _ env] valid_init [OF assms] unfolding sys_step_def by metis
  obtain s where s: "run_schedule lib env sched (init_system st threads) = Inr s" "valid_system lib s"
    using run_schedule_ok [OF valid_init [OF assms]] by blast
  obtain more s' where "run_schedule lib env more s = Inr s'" "all_returned s'"
    using some_run_returns [OF s(2)] by blast
  then show "\<exists>more s. run_schedule lib env (sched @ more) (init_system st threads) = Inr s \<and> all_returned s"
    using s(1) by (intro exI [where x = more] exI [where x = s'])
      (simp add: run_schedule_append)
qed

theorem threads_return_witness:
  "readable sample_yaml \<and> wf_log init_log_state \<and> programs_ok init_log_state sample_threads \<and>
   (\<exists>more s. run_schedule sample_yaml sample_env ([0, 1, 2, 0, 1] @ more)
      (init_system init_log_state sample_threads) = Inr s \<and> all_returned s)"
  using threads_return [OF sample_ok(1) wf_init sample_ok(2), of sample_env "[0, 1, 2, 0, 1]"]
    sample_ok wf_init by blast

end
