(* ===== verification/LogThreadsAlone.thy ===== *)
theory LogThreadsAlone
  imports LogThreadsSafe
begin

text \<open>
  A call that runs while no other thread is inside the logging system does what the sequential
  definitions of \<open>LogSystem\<close> and \<open>LogManager\<close> say.
\<close>

subsection \<open>The steps of one thread\<close>

text \<open>From the locks held, what is left to do, and the state; nobody else takes a lock.\<close>

type_synonym alone_state = "lock set \<times> instr list \<times> log_state"

inductive alone :: "yaml_lib \<Rightarrow> log_env \<Rightarrow> alone_state \<Rightarrow> alone_state \<Rightarrow> bool" for lib env where
  alone_refl: "alone lib env c c"
| alone_lock: "l \<notin> H \<Longrightarrow> alone lib env (insert l H, k, st) c \<Longrightarrow> alone lib env (H, I_lock l # k, st) c"
| alone_unlock: "alone lib env (H - {l}, k, st) c \<Longrightarrow> alone lib env (H, I_unlock l # k, st) c"
| alone_work: "(\<And>l. x \<noteq> I_lock l) \<Longrightarrow> (\<And>l. x \<noteq> I_unlock l) \<Longrightarrow>
    instr_step lib env x st = Inr (new, st') \<Longrightarrow>
    alone lib env (H, new @ k, st') c \<Longrightarrow> alone lib env (H, x # k, st) c"

lemma alone_trans: "alone lib env a b \<Longrightarrow> alone lib env b c \<Longrightarrow> alone lib env a c"
  by (induction rule: alone.induct) (auto intro: alone.intros)

lemma alone_append:
  "alone lib env c c' \<Longrightarrow> c = (H, k, st) \<Longrightarrow> c' = (H', k', st') \<Longrightarrow> alone lib env (H, k @ m, st) (H', k' @ m, st')"
proof (induction arbitrary: H k st rule: alone.induct)
  case (alone_work x st1 new st2 H1 k1 c)
  then have "alone lib env (H1, new @ (k1 @ m), st2) (H', k' @ m, st')" by simp
  then have "alone lib env (H1, x # (k1 @ m), st1) (H', k' @ m, st')"
    by (rule alone.alone_work [OF alone_work(1,2,3)])
  then show ?case using alone_work.prems by auto
qed (auto intro: alone.intros)

lemma alone_seq:
  assumes "alone lib env (H, a, st) (H', [], st')" "alone lib env (H', b, st') (H'', k, st'')"
  shows "alone lib env (H, a @ b, st) (H'', k, st'')"
  using alone_append [OF assms(1) refl refl, of b] assms(2) by (auto intro: alone_trans)

lemma alone_one:
  "(\<And>l. x \<noteq> I_lock l) \<Longrightarrow> (\<And>l. x \<noteq> I_unlock l) \<Longrightarrow> instr_step lib env x st = Inr (new, st') \<Longrightarrow>
   alone lib env (H, new, st') c \<Longrightarrow> alone lib env (H, [x], st) c"
  using alone_work [of x lib env st new st' H "[]"] by simp

lemma alone_step:
  "(\<And>l. x \<noteq> I_lock l) \<Longrightarrow> (\<And>l. x \<noteq> I_unlock l) \<Longrightarrow> instr_step lib env x st = Inr ([], st') \<Longrightarrow>
   alone lib env (H, k, st') c \<Longrightarrow> alone lib env (H, x # k, st) c"
  using alone_work [of x lib env st "[]" st' H k] by simp

lemma alone_locked:
  assumes "l \<notin> H" "alone lib env (insert l H, body, st) (insert l H, [], st')"
  shows "alone lib env (H, locked l body, st) (H, [], st')"
proof -
  have "alone lib env (insert l H - {l}, [], st') (H, [], st')" using assms(1) by (simp add: alone_refl)
  then have "alone lib env (insert l H, [I_unlock l], st') (H, [], st')" by (rule alone_unlock)
  then show ?thesis
    using assms alone_seq unfolding locked_def by (fastforce intro: alone_lock)
qed

lemma alone_locked_step:
  "l \<notin> H \<Longrightarrow> (\<And>l. x \<noteq> I_lock l) \<Longrightarrow> (\<And>l. x \<noteq> I_unlock l) \<Longrightarrow>
   instr_step lib env x st = Inr ([], st') \<Longrightarrow> alone lib env (H, locked l [x], st) (H, [], st')"
  by (rule alone_locked) (auto intro: alone_step alone_refl)

subsection \<open>Logging\<close>

definition no_appender_lock :: "lock set \<Rightarrow> bool" where
  "no_appender_lock H \<longleftrightarrow> (\<forall>aid. Appender_lock aid \<notin> H)"

lemma upd_appender_twice [simp]:
  "aid < length (ls_appenders st) \<Longrightarrow>
   upd_appender aid g (upd_appender aid f st) = upd_appender aid (\<lambda>ap. g (f ap)) st"
  by (simp add: upd_appender_def)

lemma upd_appender_eq: "f (ls_appenders st ! aid) = g (ls_appenders st ! aid) \<Longrightarrow> upd_appender aid f st = upd_appender aid g st"
  by (simp add: upd_appender_def)

lemma upd_appender_same: "f (ls_appenders st ! aid) = ls_appenders st ! aid \<Longrightarrow> upd_appender aid f st = st"
  by (simp add: upd_appender_def)

lemma upd_appender_nth: "aid < length (ls_appenders st) \<Longrightarrow> ls_appenders (upd_appender aid f st) ! aid = f (ls_appenders st ! aid)"
  by (simp add: upd_appender_def)

lemma add_cout_add_cout [simp]: "add_cout b (add_cout a st) = add_cout (a @ b) st"
  by (simp add: add_cout_def)

lemma add_cout_Nil [simp]: "add_cout [] st = st"
  by (simp add: add_cout_def)

lemma alone_write:
  assumes fm: "ap_formatter (ls_appenders st ! aid) = Some fm"
    and d: "msg = formatter_format (le_strftime env) (logger_name st) fm level ev"
  shows "alone lib env (H, [I_write aid level ev], st) (H, [],
    (case ap_sink (ls_appenders st ! aid) of
       StdOutAppender \<Rightarrow> add_cout (msg @ newline) st
     | FileAppender name os t \<Rightarrow>
         add_cout (if os_fail (os_write msg os) then ''error'' @ newline else [])
           (upd_appender aid (\<lambda>ap. ap\<lparr>ap_sink := FileAppender name (os_write msg os) t\<rparr>) st)))"
proof (cases "ap_sink (ls_appenders st ! aid)")
  case StdOutAppender
  then have "instr_step lib env (I_write aid level ev) st = Inr ([I_cout newline], add_cout msg st)"
    using assms by (simp add: write_body_def Let_def)
  moreover have "alone lib env (H, [I_cout newline], add_cout msg st) (H, [], add_cout (msg @ newline) st)"
    by (auto intro!: alone_step alone_refl)
  ultimately show ?thesis using StdOutAppender by (auto intro!: alone_one)
next
  case (FileAppender name os t)
  let ?os = "os_write msg os"
  let ?st = "upd_appender aid (\<lambda>ap. ap\<lparr>ap_sink := FileAppender name ?os t\<rparr>) st"
  have "instr_step lib env (I_write aid level ev) st =
      Inr (if os_fail ?os then [I_cout ''error'', I_cout newline] else [], ?st)"
    using assms FileAppender by (simp add: write_body_def Let_def)
  moreover have "alone lib env (H, if os_fail ?os then [I_cout ''error'', I_cout newline] else [], ?st)
      (H, [], add_cout (if os_fail ?os then ''error'' @ newline else []) ?st)"
    by (auto intro!: alone_step alone_refl)
  ultimately show ?thesis
    using FileAppender by (auto intro!: alone_one)
qed

text \<open>A file appender: the file is opened again when it is due, and then written to.\<close>

definition reopened :: "log_env \<Rightarrow> nat \<Rightarrow> u64 \<Rightarrow> log_state \<Rightarrow> log_state" where
  "reopened env aid now st =
     (case ap_sink (ls_appenders st ! aid) of
        StdOutAppender \<Rightarrow> st
      | FileAppender name os t \<Rightarrow>
          if t + 3 \<le> now then upd_appender aid (\<lambda>ap. ap\<lparr>ap_sink := FileAppender name (ReOpen env name os) now\<rparr>) st
          else st)"

lemma alone_file_due:
  assumes l: "Appender_lock aid \<notin> H" and aid: "aid < length (ls_appenders st)"
  shows "alone lib env (H, file_due aid now st, st) (H, [], reopened env aid now st)"
proof (cases "ap_sink (ls_appenders st ! aid)")
  case (FileAppender name os t)
  show ?thesis
  proof (cases "t + 3 \<le> now")
    case True
    let ?st = "upd_appender aid (sink_ReOpen env) st"
    have "alone lib env (H, locked (Appender_lock aid) [I_reopen aid], st) (H, [], ?st)"
      by (rule alone_locked_step [OF l]) simp_all
    moreover have "alone lib env (H, [I_set_last aid now], ?st) (H, [], reopened env aid now st)"
    proof (rule alone_step)
      have "upd_appender aid (sink_set_last now) ?st = reopened env aid now st"
        using True FileAppender aid
        by (simp add: reopened_def upd_appender_def sink_set_last_def sink_ReOpen_def)
      then show "instr_step lib env (I_set_last aid now) ?st = Inr ([], reopened env aid now st)" by simp
    qed (simp_all add: alone_refl)
    ultimately show ?thesis
      using True FileAppender alone_seq by (simp add: file_due_def)
  qed (use FileAppender in \<open>simp add: file_due_def reopened_def alone_refl\<close>)
qed (simp add: file_due_def reopened_def alone_refl)

lemma reopened_simps:
  assumes "aid < length (ls_appenders st)"
  shows "ap_formatter (ls_appenders (reopened env aid now st) ! aid) = ap_formatter (ls_appenders st ! aid)"
    "logger_name (reopened env aid now st) = logger_name st"
  using assms by (auto simp: reopened_def upd_appender_nth split: sink.splits intro!: logger_name_cong)

text \<open>What the sequential appender does, as writing on the state after opening.\<close>

lemma file_delivery:
  assumes d: "delivery env (logger_name st) level ev (ls_appenders st ! aid) = (ap, out)"
    and level: "ap_level (ls_appenders st ! aid) \<le> level" and fm: "ap_formatter (ls_appenders st ! aid) = Some fm"
    and aid: "aid < length (ls_appenders st)" and sink: "ap_sink (ls_appenders st ! aid) = FileAppender name os t"
    and msg: "msg = formatter_format (le_strftime env) (logger_name st) fm level ev"
  shows "(case ap_sink (ls_appenders (reopened env aid (ev_time ev) st) ! aid) of
       StdOutAppender \<Rightarrow> add_cout (msg @ newline) (reopened env aid (ev_time ev) st)
     | FileAppender name os t \<Rightarrow>
         add_cout (if os_fail (os_write msg os) then ''error'' @ newline else [])
           (upd_appender aid (\<lambda>ap. ap\<lparr>ap_sink := FileAppender name (os_write msg os) t\<rparr>) (reopened env aid (ev_time ev) st)))
    = add_cout out (upd_appender aid (\<lambda>_. ap) st)"
  using assms
  by (auto simp: delivery_def appender_log_def file_log_def Let_def reopened_def upd_appender_def
      split: if_splits)

lemma alone_I_append:
  assumes att: "attachable st aid" and H: "no_appender_lock H"
    and d: "delivery env (logger_name st) level ev (ls_appenders st ! aid) = (ap, out)"
  shows "alone lib env (H, [I_append aid level ev], st) (H, [], add_cout out (upd_appender aid (\<lambda>_. ap) st))"
proof -
  let ?ap = "ls_appenders st ! aid"
  obtain fm where fm: "ap_formatter ?ap = Some fm" and aid: "aid < length (ls_appenders st)"
    using att by (auto simp: attachable_def)
  define msg where "msg = formatter_format (le_strftime env) (logger_name st) fm level ev"
  have l: "Appender_lock aid \<notin> H" using H by (simp add: no_appender_lock_def)
  consider (quiet) "\<not> ap_level ?ap \<le> level" | (std) "ap_level ?ap \<le> level" "ap_sink ?ap = StdOutAppender"
    | (to_file) name os t where "ap_level ?ap \<le> level" "ap_sink ?ap = FileAppender name os t"
    by (cases "ap_sink ?ap") auto
  then show ?thesis
  proof cases
    case quiet
    then have "ap = ?ap" "out = []" using d delivery_below_level by auto
    then have same: "add_cout out (upd_appender aid (\<lambda>_. ap) st) = st" by (simp add: upd_appender_same)
    show ?thesis unfolding same using quiet
      by (auto intro!: alone_step alone_refl simp: append_body_def)
  next
    case std
    have "ap = ?ap" "out = msg @ newline"
      using d std fm by (auto simp: delivery_def appender_log_def stdout_log_def msg_def)
    then have st': "add_cout out (upd_appender aid (\<lambda>_. ap) st) = add_cout (msg @ newline) st"
      by (simp add: upd_appender_same)
    have "alone lib env (H, locked (Appender_lock aid) [I_write aid level ev], st) (H, [], add_cout (msg @ newline) st)"
      using alone_write [OF fm msg_def, of lib] std by (intro alone_locked [OF l]) simp
    then show ?thesis unfolding st' using std
      by (auto intro!: alone_one simp: append_body_def)
  next
    case to_file
    let ?st = "reopened env aid (ev_time ev) st"
    have "ap_formatter (ls_appenders ?st ! aid) = Some fm" using fm reopened_simps(1) [OF aid] by simp
    then have "alone lib env (H, locked (Appender_lock aid) [I_write aid level ev], ?st)
        (H, [], add_cout out (upd_appender aid (\<lambda>_. ap) st))"
      unfolding file_delivery [OF d to_file(1) fm aid to_file(2) msg_def, symmetric]
      by (intro alone_locked [OF l] alone_write) (simp_all add: msg_def reopened_simps(2) [OF aid])
    then have "alone lib env (H, file_due aid (ev_time ev) st @ locked (Appender_lock aid) [I_write aid level ev], st)
        (H, [], add_cout out (upd_appender aid (\<lambda>_. ap) st))"
      using alone_seq [OF alone_file_due [OF l aid]] by simp
    then show ?thesis
      using to_file
      by (auto intro!: alone_one alone_work [where x = "I_file_due aid (ev_time ev)"] simp: append_body_def)
  qed
qed

lemma alone_appenders:
  "list_all (attachable st) aids \<Longrightarrow> no_appender_lock H \<Longrightarrow> log_appenders env aids level ev st = Inr st' \<Longrightarrow>
   alone lib env (H, map (\<lambda>a. I_append a level ev) aids, st) (H, [], st')"
proof (induction aids arbitrary: st)
  case Nil
  then show ?case by (simp add: alone_refl)
next
  case (Cons a aids)
  obtain ap out where d: "delivery env (logger_name st) level ev (ls_appenders st ! a) = (ap, out)"
    by fastforce
  let ?st = "add_cout out (upd_appender a (\<lambda>_. ap) st)"
  have a: "attachable st a" "ap_formatter (ls_appenders st ! a) \<noteq> None"
    using Cons.prems(1) by (simp_all add: attachable_def)
  have "ap_formatter ap = ap_formatter (ls_appenders st ! a)"
    using delivery_formatter [of env "logger_name st" level ev "ls_appenders st ! a"] d by simp
  then have "grows st (upd_appender a (\<lambda>_. ap) st)" by (intro grows_upd_appender) simp
  then have "grows st ?st" by (rule grows_trans) simp
  then have "list_all (attachable ?st) aids" using Cons.prems(1) by (auto simp: grows_def list_all_iff)
  moreover have "log_appenders env aids level ev ?st = Inr st'"
    using Cons.prems(3) appender_log_delivery [OF a(2), of env "logger_name st" level ev] d by simp
  ultimately have "alone lib env (H, map (\<lambda>a. I_append a level ev) aids, ?st) (H, [], st')"
    using Cons.IH Cons.prems(2) by blast
  then show ?case using alone_seq [OF alone_I_append [OF a(1) Cons.prems(2) d]] by simp
qed

lemma alone_Log:
  assumes "Logger_lock lid \<notin> H" "lid < length (ls_loggers st)" "wf_log st" "no_appender_lock H"
    and body: "lg_level (ls_loggers st ! lid) \<le> level \<Longrightarrow>
      alone lib env (insert (Logger_lock lid) H, log_body lid level ev st, st) (insert (Logger_lock lid) H, [], st')"
    and quiet: "\<not> lg_level (ls_loggers st ! lid) \<le> level \<Longrightarrow> st' = st"
  shows "alone lib env (H, [I_call (C_Log lid level ev)], st) (H, [], st')"
proof (cases "lg_level (ls_loggers st ! lid) \<le> level")
  case True
  have "alone lib env (insert (Logger_lock lid) H, [I_log_body lid level ev], st) (insert (Logger_lock lid) H, [], st')"
    using body [OF True] by (auto intro: alone_one)
  then have "alone lib env (H, locked (Logger_lock lid) [I_log_body lid level ev], st) (H, [], st')"
    by (rule alone_locked [OF assms(1)])
  then show ?thesis using True by (auto intro!: alone_one)
next
  case False
  then show ?thesis using quiet by (auto intro!: alone_step alone_refl)
qed

lemma no_appender_lock_simps [simp]:
  "no_appender_lock {}"
  "no_appender_lock (insert (Logger_lock lid) H) \<longleftrightarrow> no_appender_lock H"
  "no_appender_lock (insert Mgr_lock H) \<longleftrightarrow> no_appender_lock H"
  by (auto simp: no_appender_lock_def)

lemma alone_Log_own:
  assumes lid: "Logger_lock lid \<notin> H" "lid < length (ls_loggers st)" and wf: "wf_log st" and H: "no_appender_lock H"
    and own: "lg_root (ls_loggers st ! lid) = None \<or> lg_appenders (ls_loggers st ! lid) \<noteq> []"
    and log: "(if lg_level (ls_loggers st ! lid) \<le> level
       then log_appenders env (lg_appenders (ls_loggers st ! lid)) level ev st else Inr st) = Inr st'"
  shows "alone lib env (H, [I_call (C_Log lid level ev)], st) (H, [], st')"
proof (rule alone_Log [OF lid wf H])
  assume l: "lg_level (ls_loggers st ! lid) \<le> level"
  have att: "list_all (attachable st) (lg_appenders (ls_loggers st ! lid))" using wf_logger_of [OF wf lid(2)] by blast
  have body: "log_body lid level ev st = map (\<lambda>a. I_append a level ev) (lg_appenders (ls_loggers st ! lid))"
    using own by (auto simp: log_body_def Let_def)
  show "alone lib env (insert (Logger_lock lid) H, log_body lid level ev st, st) (insert (Logger_lock lid) H, [], st')"
    unfolding body by (rule alone_appenders [OF att]) (use H l log in simp_all)
qed (use log in simp)

lemma alone_C_Log:
  assumes wf: "wf_log st" and lid: "lid < length (ls_loggers st)" and log: "Log env lid level ev st = Inr st'"
  shows "alone lib env ({}, [I_call (C_Log lid level ev)], st) ({}, [], st')"
proof (cases "lg_root (ls_loggers st ! lid) = None \<or> lg_appenders (ls_loggers st ! lid) \<noteq> []")
  case True
  then show ?thesis
    using assms by (intro alone_Log_own) (auto simp: logger_log.simps [of env "[]" lid] Let_def split: if_splits)
next
  case False
  let ?r = "ls_root st"
  have root: "lg_root (ls_loggers st ! lid) = Some ?r" "lid \<noteq> ?r" "lg_appenders (ls_loggers st ! lid) = []"
    "?r < length (ls_loggers st)" "lg_root (ls_loggers st ! ?r) = None"
    using False wf_logger_of [OF wf lid] wf by (auto simp: wf_log_def)
  show ?thesis
  proof (rule alone_Log)
    assume l: "lg_level (ls_loggers st ! lid) \<le> level"
    then have "(if lg_level (ls_loggers st ! ?r) \<le> level
        then log_appenders env (lg_appenders (ls_loggers st ! ?r)) level ev st else Inr st) = Inr st'"
      using log lid root
      by (auto simp: logger_log.simps [of env "[]" lid] logger_log.simps [of env "[lid]"] Let_def split: if_splits)
    then have "alone lib env ({Logger_lock lid}, [I_call (C_Log ?r level ev)], st) ({Logger_lock lid}, [], st')"
      using root wf by (intro alone_Log_own) auto
    then show "alone lib env ({Logger_lock lid}, log_body lid level ev st, st) ({Logger_lock lid}, [], st')"
      using root by (simp add: log_body_def)
  next
    assume "\<not> lg_level (ls_loggers st ! lid) \<le> level"
    then show "st' = st" using log lid by (simp add: logger_log.simps [of env "[]" lid])
  qed (use wf lid in simp_all)
qed

subsection \<open>The other operations\<close>

lemma alone_AddAppender:
  assumes "wf_log st" "lid < length (ls_loggers st)" "aid < length (ls_appenders st)"
  shows "alone lib env ({}, [I_call (C_AddAppender lid aid)], st) ({}, [], AddAppender lid aid st)"
proof -
  let ?L = "Logger_lock lid" and ?A = "Appender_lock aid"
  let ?none = "ap_formatter (ls_appenders st ! aid) = None"
  let ?st = "if ?none then upd_appender aid (\<lambda>ap. ap\<lparr>ap_formatter := lg_formatter (ls_loggers st ! lid)\<rparr>) st else st"
  have "alone lib env ({?L}, [I_push lid aid], ?st) ({?L}, [], AddAppender lid aid st)"
    by (rule alone_step [where st' = "AddAppender lid aid st"]) (simp_all add: AddAppender_def Let_def alone_refl)
  then have "alone lib env ({?L}, [if ?none then I_give_formatter lid aid else I_push lid aid], st)
      ({?L}, [], AddAppender lid aid st)"
    by (auto intro!: alone_one [where x = "I_give_formatter lid aid"])
  then have "alone lib env (insert ?A {?L}, I_unlock ?A # [if ?none then I_give_formatter lid aid else I_push lid aid], st)
      ({?L}, [], AddAppender lid aid st)"
    by (intro alone_unlock) (simp add: insert_Diff_if)
  then have "alone lib env (insert ?A {?L}, [I_get_formatter lid aid], st) ({?L}, [], AddAppender lid aid st)"
    by (intro alone_one [where x = "I_get_formatter lid aid"]) simp_all
  then have "alone lib env ({?L}, [I_lock ?A, I_get_formatter lid aid], st) ({?L}, [], AddAppender lid aid st)"
    by (intro alone_lock) simp_all
  then have "alone lib env ({}, locked ?L [I_lock ?A, I_get_formatter lid aid], st) ({}, [], AddAppender lid aid st)"
    by (intro alone_locked) simp_all
  then show ?thesis by (auto intro!: alone_one)
qed

lemma alone_inherit:
  "alone lib env ({Logger_lock lid},
      concat (map (\<lambda>aid. locked (Appender_lock aid) [I_inherit lid aid]) aids), st)
    ({Logger_lock lid}, [],
      foldl (\<lambda>s aid. upd_appender aid (inherit_formatter (lg_formatter (ls_loggers st ! lid))) s) st aids)"
proof (induction aids arbitrary: st)
  case Nil
  then show ?case by (simp add: alone_refl)
next
  case (Cons a aids)
  let ?st = "upd_appender a (inherit_formatter (lg_formatter (ls_loggers st ! lid))) st"
  have "alone lib env ({Logger_lock lid}, locked (Appender_lock a) [I_inherit lid a], st) ({Logger_lock lid}, [], ?st)"
    by (rule alone_locked_step) simp_all
  from alone_seq [OF this Cons.IH [of ?st]] show ?case by simp
qed

lemma alone_SetFormatter:
  assumes "lid < length (ls_loggers st)"
  shows "alone lib env ({}, [I_call (C_SetFormatter lid val)], st) ({}, [], logger_SetFormatter lid val st)"
proof -
  let ?st = "upd_logger lid (\<lambda>lg. lg\<lparr>lg_formatter := val\<rparr>) st"
  have lg: "ls_loggers ?st ! lid = (ls_loggers st ! lid)\<lparr>lg_formatter := val\<rparr>"
    using assms by (simp add: upd_logger_def)
  have "alone lib env ({Logger_lock lid}, [I_set_formatter lid val], st)
      ({Logger_lock lid}, [], logger_SetFormatter lid val st)"
    using alone_inherit [of lib env lid "lg_appenders (ls_loggers st ! lid)" ?st] lg
    by (intro alone_one) (simp_all add: logger_SetFormatter_def Let_def)
  then have "alone lib env ({}, locked (Logger_lock lid) [I_set_formatter lid val], st)
      ({}, [], logger_SetFormatter lid val st)"
    by (intro alone_locked) simp_all
  then show ?thesis by (auto intro!: alone_one)
qed

lemma alone_SetFormatter_pattern:
  assumes "lid < length (ls_loggers st)"
  shows "alone lib env ({}, [I_call (C_SetFormatter_pattern lid val)], st) ({}, [], logger_SetFormatter_pattern lid val st)"
proof -
  obtain fm cout where fm: "new_LogFormatter val = (fm, cout)" by fastforce
  show ?thesis
  proof (cases "fm_error fm")
    case True
    then have "alone lib env ({}, [I_invalid lid val], add_cout cout st) ({}, [], logger_SetFormatter_pattern lid val st)"
      using fm by (intro alone_step [where st' = "logger_SetFormatter_pattern lid val st"])
        (simp_all add: logger_SetFormatter_pattern_def Let_def alone_refl)
    then show ?thesis using True fm by (intro alone_one) simp_all
  next
    case False
    have "lid < length (ls_loggers (add_cout cout st))" using assms by simp
    from alone_SetFormatter [OF this, of lib env "Some fm"] False fm show ?thesis
      by (intro alone_one) (simp_all add: logger_SetFormatter_pattern_def Let_def)
  qed
qed

subsection \<open>Descriptions\<close>

lemma insert_minus_same: "l \<notin> H \<Longrightarrow> insert l H - {l} = H"
  by auto

lemma alone_nodes:
  "no_appender_lock H \<Longrightarrow>
   omap (\<lambda>aid. y_load lib (appender_ToYamlString lib (ls_appenders st ! aid))) aids = Inr ns \<Longrightarrow>
   alone lib env (H, [I_nodes lid entries apps aids ret], st) (H, [I_nodes lid entries (apps @ ns) [] ret], st)"
proof (induction aids arbitrary: apps ns)
  case Nil
  then show ?case by (simp add: alone_refl)
next
  case (Cons a aids)
  obtain n ns' where n: "y_load lib (appender_ToYamlString lib (ls_appenders st ! a)) = Inr n"
    "omap (\<lambda>aid. y_load lib (appender_ToYamlString lib (ls_appenders st ! aid))) aids = Inr ns'" "ns = n # ns'"
    using Cons.prems(2) by (auto simp: obind_Inr_iff)
  let ?A = "Appender_lock a"
  have A: "?A \<notin> H" using Cons.prems(1) by (simp add: no_appender_lock_def)
  have rest: "alone lib env (H, [I_nodes lid entries (apps @ [n]) aids ret], st)
      (H, [I_nodes lid entries (apps @ ns) [] ret], st)"
    using Cons.IH [OF Cons.prems(1) n(2), of "apps @ [n]"] n(3) by simp
  show ?case
  proof (cases "is_file st a")
    case True
    have "alone lib env (insert ?A H, I_unlock ?A # [I_nodes lid entries (apps @ [n]) aids ret], st)
        (H, [I_nodes lid entries (apps @ ns) [] ret], st)"
      using rest A by (intro alone_unlock) (simp only: insert_minus_same not_False_eq_True)
    then have "alone lib env (insert ?A H, [I_appender_node True lid a entries apps aids ret], st)
        (H, [I_nodes lid entries (apps @ ns) [] ret], st)"
      using n(1) by (intro alone_one [where x = "I_appender_node True lid a entries apps aids ret"]) simp_all
    then have "alone lib env (H, [I_lock ?A, I_appender_node True lid a entries apps aids ret], st)
        (H, [I_nodes lid entries (apps @ ns) [] ret], st)"
      using A by (intro alone_lock)
    then show ?thesis using True by (intro alone_one) simp_all
  next
    case False
    have "alone lib env (H, [I_appender_node False lid a entries apps aids ret], st)
        (H, [I_nodes lid entries (apps @ ns) [] ret], st)"
      using rest n(1) by (intro alone_one [where x = "I_appender_node False lid a entries apps aids ret"]) simp_all
    then show ?thesis using False by (intro alone_one) simp_all
  qed
qed

lemma alone_logger_node:
  assumes H: "no_appender_lock H" "Logger_lock lid \<notin> H" and n: "logger_node lib st lid = Inr n"
  shows "alone lib env (H, [I_lock (Logger_lock lid), I_node lid ret], st)
    (H, [case ret of None \<Rightarrow> I_return (y_dump lib n) | Some (ns, lids) \<Rightarrow> I_mgr_load n ns lids], st)"
proof -
  let ?L = "Logger_lock lid"
  obtain apps where apps: "omap (\<lambda>aid. y_load lib (appender_ToYamlString lib (ls_appenders st ! aid)))
      (lg_appenders (ls_loggers st ! lid)) = Inr apps" and n': "n = node_end (node_head st lid) apps"
    using n by (auto simp: logger_node_def Let_def obind_Inr_iff node_end_def node_head_def)
  let ?out = "case ret of None \<Rightarrow> I_return (y_dump lib n) | Some (ns, lids) \<Rightarrow> I_mgr_load n ns lids"
  have "alone lib env (insert ?L H - {?L}, [?out], st) (H, [?out], st)"
    using H(2) by (simp add: insert_minus_same alone_refl)
  then have "alone lib env (insert ?L H, I_unlock ?L # [?out], st) (H, [?out], st)"
    by (rule alone_unlock)
  then have "alone lib env (insert ?L H, [I_nodes lid (node_head st lid) apps [] ret], st) (H, [?out], st)"
    by (intro alone_one [where x = "I_nodes lid (node_head st lid) apps [] ret"]) (auto simp: n' split: option.splits)
  then have "alone lib env (insert ?L H, [I_nodes lid (node_head st lid) [] (lg_appenders (ls_loggers st ! lid)) ret], st)
      (H, [?out], st)"
    using alone_nodes [OF _ apps, of "insert ?L H" env lid "node_head st lid" "[]" ret] H(1)
    by (auto intro: alone_trans)
  then have "alone lib env (insert ?L H, [I_node lid ret], st) (H, [?out], st)"
    by (intro alone_one [where x = "I_node lid ret"]) simp_all
  then show ?thesis using H(2) by (intro alone_lock)
qed

lemma alone_mgr_nodes:
  "omap (\<lambda>lid. obind (logger_ToYamlString lib st lid) (y_load lib)) lids = Inr ms \<Longrightarrow>
   alone lib env ({Mgr_lock}, [I_mgr_nodes ns lids], st) ({Mgr_lock}, [I_mgr_nodes (ns @ ms) []], st)"
proof (induction lids arbitrary: ns ms)
  case Nil
  then show ?case by (simp add: alone_refl)
next
  case (Cons lid lids)
  then obtain n m ms' where n: "logger_node lib st lid = Inr n" "y_load lib (y_dump lib n) = Inr m"
    "omap (\<lambda>lid. obind (logger_ToYamlString lib st lid) (y_load lib)) lids = Inr ms'" "ms = m # ms'"
    by (auto simp: obind_Inr_iff logger_ToYamlString_def)
  have "alone lib env ({Mgr_lock}, [I_mgr_nodes (ns @ [m]) lids], st) ({Mgr_lock}, [I_mgr_nodes (ns @ ms) []], st)"
    using Cons.IH [OF n(3), of "ns @ [m]"] n(4) by simp
  then have "alone lib env ({Mgr_lock}, [I_mgr_load n ns lids], st) ({Mgr_lock}, [I_mgr_nodes (ns @ ms) []], st)"
    using n(2) by (intro alone_one [where x = "I_mgr_load n ns lids"]) simp_all
  then have "alone lib env ({Mgr_lock}, [I_lock (Logger_lock lid), I_node lid (Some (ns, lids))], st)
      ({Mgr_lock}, [I_mgr_nodes (ns @ ms) []], st)"
    using alone_logger_node [of "{Mgr_lock}" lid lib st n env "Some (ns, lids)"] n(1) by (auto intro: alone_trans)
  then show ?case by (intro alone_one [where x = "I_mgr_nodes ns (lid # lids)"]) simp_all
qed

lemma logger_node_total: "readable lib \<Longrightarrow> \<exists>n. logger_node lib st lid = Inr n"
proof -
  assume law: "readable lib"
  have "\<exists>apps. omap (\<lambda>aid. y_load lib (appender_ToYamlString lib (ls_appenders st ! aid)))
      (lg_appenders (ls_loggers st ! lid)) = Inr apps"
    using law by (intro omap_total) (auto simp: readable_def appender_ToYamlString_def)
  then show ?thesis by (auto simp: logger_node_def Let_def)
qed

lemma mgr_nodes_total:
  "readable lib \<Longrightarrow> \<exists>ms. omap (\<lambda>lid. obind (logger_ToYamlString lib st lid) (y_load lib)) lids = Inr ms"
proof (rule omap_total)
  fix lid
  assume law: "readable lib"
  obtain n where "logger_node lib st lid = Inr n" using logger_node_total [OF law] by blast
  then show "\<exists>m. obind (logger_ToYamlString lib st lid) (y_load lib) = Inr m"
    using law by (simp add: logger_ToYamlString_def readable_def)
qed

subsection \<open>Calls as they are in the sequential definitions\<close>

fun call_result :: "yaml_lib \<Rightarrow> log_env \<Rightarrow> call \<Rightarrow> log_state \<Rightarrow> (string option \<times> log_state) outcome" where
  "call_result lib env (C_Log lid level ev) st = obind (Log env lid level ev st) (\<lambda>st. Inr (None, st))"
| "call_result lib env (C_P_LOG site lid level s) st =
     obind (P_LOG env site lid level s st) (\<lambda>st. Inr (None, st))"
| "call_result lib env (C_AddAppender lid aid) st = Inr (None, AddAppender lid aid st)"
| "call_result lib env (C_DelAppender lid aid) st = Inr (None, DelAppender lid aid st)"
| "call_result lib env (C_ClearAppenders lid) st = Inr (None, ClearAppenders lid st)"
| "call_result lib env (C_SetLevel lid level) st = Inr (None, logger_SetLevel lid level st)"
| "call_result lib env (C_SetFormatter lid val) st = Inr (None, logger_SetFormatter lid val st)"
| "call_result lib env (C_SetFormatter_pattern lid val) st = Inr (None, logger_SetFormatter_pattern lid val st)"
| "call_result lib env (C_ToYamlString lid) st =
     obind (logger_ToYamlString lib st lid) (\<lambda>s. Inr (Some s, st))"
| "call_result lib env (C_appender_SetFormatter aid val) st =
     Inr (None, upd_appender aid (appender_set_formatter val) st)"
| "call_result lib env (C_appender_SetLevel aid level) st =
     Inr (None, upd_appender aid (appender_set_level level) st)"
| "call_result lib env C_mgr_ToYamlString st =
     obind (mgr_ToYamlString lib st) (\<lambda>s. Inr (Some s, st))"
| "call_result lib env (C_print s) st = Inr (None, add_cout s st)"

definition returns_text :: "string option \<Rightarrow> instr list" where
  "returns_text ret = (case ret of None \<Rightarrow> [] | Some s \<Rightarrow> [I_return s])"

lemma alone_locked_call:
  assumes "call_step c st = (locked l [x], st)" "\<And>l. x \<noteq> I_lock l" "\<And>l. x \<noteq> I_unlock l"
    "instr_step lib env x st = Inr ([], st')"
  shows "alone lib env ({}, [I_call c], st) ({}, [], st')"
  using alone_locked_step [of l "{}" x lib env st st'] assms by (intro alone_one) auto

lemma alone_P_LOG:
  assumes wf: "wf_log st" and lid: "lid < length (ls_loggers st)"
  shows "\<exists>st'. P_LOG env site lid level s st = Inr st' \<and>
    alone lib env ({}, [I_call (C_P_LOG site lid level s)], st) ({}, [], st')"
proof (cases "lg_level (ls_loggers st ! lid) \<le> level")
  case True
  obtain st' where "Log env lid level (event_write s (macro_event site lid level)) st = Inr st'"
    using Log_total [OF wf lid] by blast
  with alone_C_Log [OF wf lid this, of lib] True lid show ?thesis
    by (auto simp: P_LOG_is_Log intro!: alone_one)
qed (use lid in \<open>auto simp: P_LOG_is_Log intro!: alone_step alone_refl\<close>)

lemma alone_mgr_ToYamlString:
  assumes law: "readable lib"
  shows "\<exists>t. mgr_ToYamlString lib st = Inr t \<and>
    alone lib env ({}, [I_call C_mgr_ToYamlString], st) ({}, [I_return t], st)"
proof -
  obtain ms where ms: "omap (\<lambda>lid. obind (logger_ToYamlString lib st lid) (y_load lib)) (map snd (ls_mgr st)) = Inr ms"
    using mgr_nodes_total [OF law] by blast
  let ?t = "y_dump lib (if ms = [] then YNull else YSeq ms)"
  have returned: "mgr_ToYamlString lib st = Inr ?t"
    using ms unfolding mgr_ToYamlString_def case_prod_unfold by (simp add: omap_map)
  have "alone lib env ({Mgr_lock}, I_unlock Mgr_lock # [I_return ?t], st) ({}, [I_return ?t], st)"
    by (intro alone_unlock) (simp add: alone_refl)
  then have "alone lib env ({Mgr_lock}, [I_mgr_nodes ms []], st) ({}, [I_return ?t], st)"
    by (intro alone_one [where x = "I_mgr_nodes ms []"]) simp_all
  then have "alone lib env ({Mgr_lock}, [I_mgr_nodes [] (map snd (ls_mgr st))], st) ({}, [I_return ?t], st)"
    using alone_mgr_nodes [OF ms, of env "[]"] by (auto intro: alone_trans)
  then have "alone lib env ({Mgr_lock}, [I_mgr_node], st) ({}, [I_return ?t], st)"
    by (intro alone_one [where x = I_mgr_node]) simp_all
  then have "alone lib env ({}, [I_lock Mgr_lock, I_mgr_node], st) ({}, [I_return ?t], st)"
    by (intro alone_lock) simp_all
  then show ?thesis using returned by (auto intro!: alone_one)
qed

lemma alone_call:
  assumes law: "readable lib" and wf: "wf_log st" and ok: "call_ok st c"
  shows "\<exists>ret st'. call_result lib env c st = Inr (ret, st') \<and>
    alone lib env ({}, [I_call c], st) ({}, returns_text ret, st')"
proof (cases c)
  case (C_Log lid level ev)
  then obtain st' where "Log env lid level ev st = Inr st'"
    using Log_total [OF wf, of lid env level ev] ok by auto
  with C_Log ok alone_C_Log [OF wf] show ?thesis by (auto simp: returns_text_def)
next
  case (C_P_LOG site lid level s)
  then show ?thesis using alone_P_LOG [OF wf, of lid env site level s lib] ok by (auto simp: returns_text_def)
next
  case (C_ToYamlString lid)
  obtain n where n: "logger_node lib st lid = Inr n" using logger_node_total [OF law] by blast
  with C_ToYamlString alone_logger_node [OF _ _ n, of "{}" env None] show ?thesis
    by (auto simp: returns_text_def logger_ToYamlString_def intro!: alone_one)
next
  case C_mgr_ToYamlString
  then show ?thesis using alone_mgr_ToYamlString [OF law, of st env] by (auto simp: returns_text_def)
next
  case (C_AddAppender lid aid)
  then show ?thesis using alone_AddAppender [OF wf] ok by (simp add: returns_text_def)
next
  case (C_SetFormatter lid val)
  then show ?thesis using alone_SetFormatter ok by (simp add: returns_text_def)
next
  case (C_SetFormatter_pattern lid val)
  then show ?thesis using alone_SetFormatter_pattern ok by (simp add: returns_text_def)
next
  case (C_SetLevel lid level)
  then show ?thesis by (auto simp: returns_text_def intro!: alone_step alone_refl)
next
  case (C_appender_SetLevel aid level)
  then show ?thesis by (auto simp: returns_text_def intro!: alone_step alone_refl)
next
  case (C_print s)
  then show ?thesis by (auto simp: returns_text_def intro!: alone_step alone_refl)
next
  case (C_DelAppender lid aid)
  then show ?thesis by (auto simp: returns_text_def intro!: alone_locked_call)
next
  case (C_ClearAppenders lid)
  then show ?thesis by (auto simp: returns_text_def intro!: alone_locked_call)
next
  case (C_appender_SetFormatter aid val)
  then show ?thesis by (auto simp: returns_text_def intro!: alone_locked_call)
qed

subsection \<open>In a system whose other threads are outside\<close>

definition owned_by :: "nat \<Rightarrow> lock set \<Rightarrow> lock \<Rightarrow> nat option" where
  "owned_by i H l = (if l \<in> H then Some i else None)"

definition at_state :: "nat \<Rightarrow> system \<Rightarrow> alone_state \<Rightarrow> system" where
  "at_state i s c = (case c of (H, k, st) \<Rightarrow>
     s\<lparr>sy_log := st, sy_owner := owned_by i H, sy_threads := (sy_threads s)[i := k]\<rparr>)"

lemma owned_by_upd:
  "l \<notin> H \<Longrightarrow> (owned_by i H)(l := Some i) = owned_by i (insert l H)"
  "(owned_by i H)(l := None) = owned_by i (H - {l})"
  by (auto simp: owned_by_def fun_eq_iff)

lemma alone_schedule:
  "alone lib env c c' \<Longrightarrow> i < length (sy_threads s) \<Longrightarrow>
   \<exists>n. run_schedule lib env (replicate n i) (at_state i s c) = Inr (at_state i s c')"
proof (induction rule: alone.induct)
  case (alone_refl c)
  then show ?case by (intro exI [where x = 0]) simp
next
  case (alone_lock l H k st c)
  then obtain n where "run_schedule lib env (replicate n i) (at_state i s (insert l H, k, st)) = Inr (at_state i s c)"
    by blast
  then show ?case using alone_lock.hyps(1) alone_lock.prems
    by (intro exI [where x = "Suc n"]) (simp add: at_state_def thread_step_def owned_by_upd owned_by_def)
next
  case (alone_unlock H l k st c)
  then obtain n where "run_schedule lib env (replicate n i) (at_state i s (H - {l}, k, st)) = Inr (at_state i s c)"
    by blast
  then show ?case using alone_unlock.prems
    by (intro exI [where x = "Suc n"]) (simp add: at_state_def thread_step_def owned_by_upd)
next
  case (alone_work x st new st' H k c)
  then obtain n where "run_schedule lib env (replicate n i) (at_state i s (H, new @ k, st')) = Inr (at_state i s c)"
    by blast
  moreover have "thread_step lib env i (at_state i s (H, x # k, st)) = Some (Inr (at_state i s (H, new @ k, st')))"
    using thread_step_work [of i "at_state i s (H, x # k, st)" x k lib env] alone_work.hyps(1-3) alone_work.prems
    by (cases s) (simp add: at_state_def)
  ultimately show ?case by (intro exI [where x = "Suc n"]) simp
qed

text \<open>C5: the steps of the threads implement the sequential definitions: a call that runs while no other
  thread holds a lock, whatever the other threads have left to do, returns, has exactly the effect on
  the logging state that the sequential definition of the operation gives it, returns the text this
  gives, and leaves no lock behind.\<close>

theorem call_alone_is_sequential:
  assumes "readable lib" and "wf_log (sy_log s)" and "call_ok (sy_log s) c" and "sy_owner s = (\<lambda>l. None)"
    and "i < length (sy_threads s)" and "sy_threads s ! i = I_call c # k"
  shows "\<exists>n ret st'. call_result lib env c (sy_log s) = Inr (ret, st') \<and>
    run_schedule lib env (replicate n i) s =
      Inr (s\<lparr>sy_log := st', sy_threads := (sy_threads s)[i := returns_text ret @ k]\<rparr>)"
proof -
  obtain ret st' where r: "call_result lib env c (sy_log s) = Inr (ret, st')"
    "alone lib env ({}, [I_call c], sy_log s) ({}, returns_text ret, st')"
    using alone_call [OF assms(1-3)] by blast
  have free: "owned_by i {} = (\<lambda>l. None)" by (simp add: owned_by_def fun_eq_iff)
  have "alone lib env ({}, I_call c # k, sy_log s) ({}, returns_text ret @ k, st')"
    using alone_append [OF r(2) refl refl, of k] by simp
  then obtain n where "run_schedule lib env (replicate n i) (at_state i s ({}, I_call c # k, sy_log s)) =
      Inr (at_state i s ({}, returns_text ret @ k, st'))"
    using alone_schedule [OF _ assms(5)] by blast
  moreover have "at_state i s ({}, I_call c # k, sy_log s) = s"
    using assms(4,6) list_update_id [of "sy_threads s" i] by (simp add: at_state_def free)
  moreover have "at_state i s ({}, returns_text ret @ k, st') =
      s\<lparr>sy_log := st', sy_threads := (sy_threads s)[i := returns_text ret @ k]\<rparr>"
    using assms(4) by (simp add: at_state_def free)
  ultimately show ?thesis using r(1) by (intro exI [where x = n] exI [where x = ret] exI [where x = st']) simp
qed

theorem call_alone_is_sequential_witness:
  "readable sample_yaml \<and> wf_log init_log_state \<and>
   (\<exists>n. run_schedule sample_yaml sample_env (replicate n 1)
       (init_system init_log_state [[I_call C_mgr_ToYamlString], [I_call (C_ClearAppenders 0)]]) =
     Inr (init_system (ClearAppenders 0 init_log_state) [[I_call C_mgr_ToYamlString], []]))"
proof -
  let ?s = "init_system init_log_state [[I_call C_mgr_ToYamlString], [I_call (C_ClearAppenders 0)]]"
  have "call_ok (sy_log ?s) (C_ClearAppenders 0)" by (simp add: init_system_def init_log_state_eq)
  from call_alone_is_sequential [OF sample_ok(1) _ this, of 1 "[]" sample_env]
  show ?thesis using wf_init sample_ok(1) by (auto simp: init_system_def returns_text_def)
qed

end
