(* ===== verification/LogThreadsConfig.thy ===== *)
theory LogThreadsConfig
  imports LogThreadsAlone LogsInForce
begin

text \<open>
  The listener of the variable \<open>logs\<close> as statements of a thread: the locks it takes are those of the
  operations it calls. A thread that runs it alone does what \<open>on_logs_changed\<close> says.
\<close>

subsection \<open>The listener as statements of a thread\<close>

text \<open>An appender of a definition: made, given its level and formatter, and added to the logger.\<close>

definition define_appender :: "(nat \<Rightarrow> u64) \<Rightarrow> log_appender_define \<Rightarrow> new_appender" where
  "define_appender junk a =
     (if ad_type a = 1 then New_file (ad_file a) junk else if ad_type a = 2 then New_stdout else New_null)"

definition define_formatter_calls :: "string \<Rightarrow> log_appender_define \<Rightarrow> nat \<Rightarrow> call list" where
  "define_formatter_calls name a aid =
     (if ad_formatter a = [] then []
      else (case new_LogFormatter (ad_formatter a) of (fmt, cout) \<Rightarrow>
              C_print cout #
              (if \<not> fm_error fmt then [C_appender_SetFormatter aid (Some fmt)]
               else [C_print (''log.name='' @ name @ '' appender type='' @ show_int (ad_type a)
                       @ '' formatter='' @ ad_formatter a @ '' is invalid'' @ newline)])))"

definition appender_job :: "(nat \<Rightarrow> u64) \<Rightarrow> string \<Rightarrow> nat \<Rightarrow> log_appender_define \<Rightarrow> job" where
  "appender_job junk name lid a =
     J_with_appender (define_appender junk a)
       (\<lambda>aid. C_appender_SetLevel aid (ad_level a) # define_formatter_calls name a aid @ [C_AddAppender lid aid])"

text \<open>The body of the first loop, from \<open>P_LOG_NAME(i.name)\<close> on, and that of the second.\<close>

definition define_jobs :: "(nat \<Rightarrow> u64) \<Rightarrow> log_define \<Rightarrow> nat \<Rightarrow> job list" where
  "define_jobs junk i lid =
     [J_call (C_SetLevel lid (ld_level i))] @
     (if ld_formatter i \<noteq> [] then [J_call (C_SetFormatter_pattern lid (ld_formatter i))] else []) @
     [J_call (C_ClearAppenders lid)] @
     map (appender_job junk (ld_name i) lid) (ld_appenders i)"

definition remove_jobs :: "nat \<Rightarrow> job list" where
  "remove_jobs lid = [J_call (C_SetLevel lid UNKNOW), J_call (C_ClearAppenders lid)]"

fun new_loop :: "(nat \<Rightarrow> u64) \<Rightarrow> log_define list \<Rightarrow> log_define list \<Rightarrow> instr list" where
  "new_loop junk old_value [] = []"
| "new_loop junk old_value (i # is) =
     (if kfind ld_name (ld_name i) old_value = Some i then []
      else [I_with_logger (ld_name i) (define_jobs junk i)]) @ new_loop junk old_value is"

fun old_loop :: "log_define list \<Rightarrow> log_define list \<Rightarrow> instr list" where
  "old_loop new_value [] = []"
| "old_loop new_value (i # is) =
     (if kfind ld_name (ld_name i) new_value = None then [I_with_logger (ld_name i) remove_jobs] else []) @
     old_loop new_value is"

definition listener_code ::
  "(nat \<Rightarrow> u64) \<Rightarrow> log_site \<Rightarrow> nat \<Rightarrow> log_define list \<Rightarrow> log_define list \<Rightarrow> instr list" where
  "listener_code junk site root old_value new_value =
     [I_call (C_P_LOG site root INFO ''on_logger_conf_changed'')] @
     new_loop junk old_value new_value @ old_loop new_value old_value"

subsection \<open>Alone, the thread does what the listener is defined to do\<close>

lemma alone_call1:
  assumes "readable lib" "wf_log st" "call_ok st c" "call_result lib env c st = Inr (None, st')"
  shows "alone lib env ({}, [I_call c], st) ({}, [], st')"
  using alone_call [OF assms(1-3), of env] assms(4) by (simp add: returns_text_def)

lemma alone_cons:
  "alone lib env (H, [x], st) (H, [], st1) \<Longrightarrow> alone lib env (H, k, st1) c \<Longrightarrow> alone lib env (H, x # k, st) c"
  using alone_append [of lib env "(H, [x], st)" "(H, [], st1)" H "[x]" st H "[]" st1 k] alone_trans by simp

lemma alone_with_logger:
  assumes g: "GetLogger name st = (lid, st1)" and jobs: "alone lib env ({}, map job_instr (f lid), st1) ({}, [], st')"
  shows "alone lib env ({}, [I_with_logger name f], st) ({}, [], st')"
proof -
  have "alone lib env ({Mgr_lock} - {Mgr_lock}, map job_instr (f lid), st1) ({}, [], st')"
    using jobs by simp
  then have "alone lib env ({Mgr_lock}, I_unlock Mgr_lock # map job_instr (f lid), st1) ({}, [], st')"
    by (rule alone_unlock)
  then have "alone lib env ({Mgr_lock}, [I_find_logger name f], st) ({}, [], st')"
    using g by (intro alone_one [where st' = st1]) simp_all
  then have "alone lib env ({}, [I_lock Mgr_lock, I_find_logger name f], st) ({}, [], st')"
    by (intro alone_lock) simp_all
  then show ?thesis by (intro alone_one [where x = "I_with_logger name f"]) simp_all
qed

text \<open>The appender that is being made is the last of the store.\<close>

lemma alloc_simps [simp]:
  "fst (alloc_appender ap st) = length (ls_appenders st)"
  "upd_appender (length (ls_appenders st)) f (snd (alloc_appender ap st)) = snd (alloc_appender (f ap) st)"
  "add_cout c (snd (alloc_appender ap st)) = snd (alloc_appender ap (add_cout c st))"
  "length (ls_appenders (snd (alloc_appender ap st))) = Suc (length (ls_appenders st))"
  "ls_loggers (snd (alloc_appender ap st)) = ls_loggers st"
  by (simp_all add: alloc_appender_def upd_appender_def add_cout_def)

lemma alone_formatter_calls:
  assumes law: "readable lib" and wf: "wf_log st"
    and s: "set_define_formatter name a ap = (ap', cout)"
  shows "alone lib env
    ({}, map I_call (define_formatter_calls name a (length (ls_appenders st))), snd (alloc_appender ap st))
    ({}, [], snd (alloc_appender ap' (add_cout cout st)))"
proof (cases "ad_formatter a = []")
  case True
  then show ?thesis using s
    by (simp add: set_define_formatter_def define_formatter_calls_def alone_refl)
next
  case False
  obtain fmt out where f: "new_LogFormatter (ad_formatter a) = (fmt, out)" by fastforce
  let ?n = "length (ls_appenders st)" and ?st = "snd (alloc_appender ap (add_cout out st))"
  have wf0: "wf_log (snd (alloc_appender ap st))" "wf_log ?st" using wf by (auto intro: wf_intros)
  have 1: "alone lib env ({}, [I_call (C_print out)], snd (alloc_appender ap st)) ({}, [], ?st)"
    by (rule alone_call1 [OF law wf0(1)]) simp_all
  let ?c = "if \<not> fm_error fmt then C_appender_SetFormatter ?n (Some fmt)
    else C_print (''log.name='' @ name @ '' appender type='' @ show_int (ad_type a)
           @ '' formatter='' @ ad_formatter a @ '' is invalid'' @ newline)"
  have n: "length (ls_appenders (add_cout out st)) = ?n" by (simp add: add_cout_def)
  have 2: "alone lib env ({}, [I_call ?c], ?st) ({}, [], snd (alloc_appender ap' (add_cout cout st)))"
    using s False f alloc_simps(2) [of "add_cout out st" _ ap, unfolded n]
    by (intro alone_call1 [OF law wf0(2)])
      (auto simp: set_define_formatter_def n)
  show ?thesis
    using alone_cons [OF 1 2] False f
    by (cases "fm_error fmt") (simp_all add: define_formatter_calls_def)
qed

lemma alone_appender:
  assumes law: "readable lib" and wf: "wf_log st" and lid: "lid < length (ls_loggers st)"
    and run: "apply_appender env junk name lid a st = Inr st'"
  shows "alone lib env ({}, [job_instr (appender_job junk name lid a)], st) ({}, [], st')"
proof -
  let ?n = "length (ls_appenders st)"
  obtain ap ap' cout where ap: "appender_of_define env (junk ?n) a = Some ap"
    "set_define_formatter name a (appender_set_level (ad_level a) ap) = (ap', cout)"
    "st' = AddAppender lid ?n (snd (alloc_appender ap' (add_cout cout st)))"
    using run by (auto simp: apply_appender_def alloc_appender_def split: option.splits prod.splits)
  have make: "make_appender env (define_appender junk a) ?n = Inr ap"
    using ap(1) by (auto simp: appender_of_define_def define_appender_def split: if_splits)
  let ?st1 = "snd (alloc_appender (appender_set_level (ad_level a) ap) st)"
  let ?st2 = "snd (alloc_appender ap' (add_cout cout st))"
  have wf1: "wf_log (snd (alloc_appender ap st))" "wf_log ?st2" using wf by (auto intro: wf_intros)
  have "alone lib env ({}, [I_call (C_appender_SetLevel ?n (ad_level a))], snd (alloc_appender ap st)) ({}, [], ?st1)"
    by (rule alone_call1 [OF law wf1(1)]) simp_all
  moreover have "alone lib env ({}, [I_call (C_AddAppender lid ?n)], ?st2) ({}, [], st')"
    using lid ap(3) by (intro alone_call1 [OF law wf1(2)]) simp_all
  ultimately have "alone lib env ({}, map I_call (C_appender_SetLevel ?n (ad_level a) #
      define_formatter_calls name a ?n @ [C_AddAppender lid ?n]), snd (alloc_appender ap st)) ({}, [], st')"
    using alone_formatter_calls [OF law wf ap(2)] by (auto intro: alone_cons alone_seq)
  then show ?thesis
    by (intro alone_one [where st' = "snd (alloc_appender ap st)"])
      (simp_all add: appender_job_def make case_prod_beta)
qed

lemma alone_define_appenders:
  "readable lib \<Longrightarrow> wf_log st \<Longrightarrow> lid < length (ls_loggers st) \<Longrightarrow> list_all known_appender as \<Longrightarrow>
   apply_appenders env junk name lid as st = Inr st' \<Longrightarrow>
   alone lib env ({}, map job_instr (map (appender_job junk name lid) as), st) ({}, [], st')"
proof (induction as arbitrary: st)
  case Nil
  then show ?case by (simp add: alone_refl)
next
  case (Cons a as)
  obtain st1 where 1: "apply_appender env junk name lid a st = Inr st1"
    "apply_appenders env junk name lid as st1 = Inr st'"
    using Cons.prems by (auto simp: obind_Inr_iff)
  have "wf_log st1" "lid < length (ls_loggers st1)"
    using apply_appender_effect [of st lid a env junk name] Cons.prems 1(1) by auto
  then have "alone lib env ({}, map job_instr (map (appender_job junk name lid) as), st1) ({}, [], st')"
    using Cons 1(2) by simp
  then show ?case
    using alone_cons [OF alone_appender [OF Cons.prems(1-3) 1(1)]] by simp
qed

lemma apply_define_prepared:
  "GetLogger (ld_name d) st = (lid, st1) \<Longrightarrow>
   apply_define env junk d st = apply_appenders env junk (ld_name d) lid (ld_appenders d) (prepared d lid st1)"
  by (simp add: apply_define_def prepared_def Let_def)

lemma alone_define:
  assumes law: "readable lib" and wf: "wf_log st" and known: "list_all known_appender (ld_appenders d)"
    and run: "apply_define env junk d st = Inr st'"
  shows "alone lib env ({}, [I_with_logger (ld_name d) (define_jobs junk d)], st) ({}, [], st')"
proof -
  obtain lid st1 where g: "GetLogger (ld_name d) st = (lid, st1)" by fastforce
  have wf1: "wf_log st1" and lid: "lid < length (ls_loggers st1)"
    using wf_GetLogger [OF wf, of "ld_name d"] GetLogger_named(1) [OF wf g] g by simp_all
  let ?a = "logger_SetLevel lid (ld_level d) st1"
  let ?b = "if ld_formatter d \<noteq> [] then logger_SetFormatter_pattern lid (ld_formatter d) ?a else ?a"
  have a: "wf_log ?a" "lid < length (ls_loggers ?a)"
    using wf_logger_SetLevel [OF wf1 lid] lid by (simp_all add: logger_SetLevel_def)
  have b: "wf_log ?b" "lid < length (ls_loggers ?b)"
    using wf_logger_SetFormatter_pattern [OF a] SetFormatter_pattern_effect [of lid ?a "ld_formatter d"] a
    by (auto simp: Let_def)
  have prep: "prepared d lid st1 = ClearAppenders lid ?b" by (simp add: prepared_def Let_def)
  have wfp: "wf_log (prepared d lid st1)" "lid < length (ls_loggers (prepared d lid st1))"
    using prepared_effect(1,5) [OF wf1 lid, of d] lid by simp_all
  have 1: "alone lib env ({}, [I_call (C_SetLevel lid (ld_level d))], st1) ({}, [], ?a)"
    using lid by (intro alone_call1 [OF law wf1]) simp_all
  have 2: "alone lib env ({}, map job_instr (if ld_formatter d \<noteq> []
      then [J_call (C_SetFormatter_pattern lid (ld_formatter d))] else []), ?a) ({}, [], ?b)"
    using alone_call1 [OF law a(1), of "C_SetFormatter_pattern lid (ld_formatter d)" env] a(2)
    by (simp add: alone_refl)
  have 3: "alone lib env ({}, [I_call (C_ClearAppenders lid)], ?b) ({}, [], prepared d lid st1)"
    unfolding prep using b(2) by (intro alone_call1 [OF law b(1)]) simp_all
  have 4: "alone lib env ({}, map job_instr (map (appender_job junk (ld_name d) lid) (ld_appenders d)),
      prepared d lid st1) ({}, [], st')"
    using run alone_define_appenders [OF law wfp known] by (simp add: apply_define_prepared [OF g])
  show ?thesis
    using alone_cons [OF 1 alone_seq [OF 2 alone_cons [OF 3 4]]]
    by (intro alone_with_logger [OF g]) (simp add: define_jobs_def)
qed

lemma alone_new_loop:
  "readable lib \<Longrightarrow> wf_log st \<Longrightarrow> \<forall>d \<in> set new. list_all known_appender (ld_appenders d) \<Longrightarrow>
   apply_new env junk old new st = Inr st' \<Longrightarrow> alone lib env ({}, new_loop junk old new, st) ({}, [], st')"
proof (induction new arbitrary: st)
  case Nil
  then show ?case by (simp add: alone_refl)
next
  case (Cons d ds)
  show ?case
  proof (cases "kfind ld_name (ld_name d) old = Some d")
    case True
    then show ?thesis using Cons by simp
  next
    case False
    then obtain st1 where 1: "apply_define env junk d st = Inr st1" "apply_new env junk old ds st1 = Inr st'"
      using Cons.prems(4) by (auto simp: obind_Inr_iff)
    have "wf_log st1" using apply_define_effect [of st d env junk] Cons.prems 1(1) by auto
    then have "alone lib env ({}, new_loop junk old ds, st1) ({}, [], st')" using Cons 1(2) by simp
    then show ?thesis
      using alone_cons [OF alone_define [OF Cons.prems(1,2) _ 1(1)]] Cons.prems(3) False by simp
  qed
qed

lemma alone_silence:
  assumes law: "readable lib" and wf: "wf_log st"
  shows "alone lib env ({}, [I_with_logger name remove_jobs], st) ({}, [], silence_logger name st)"
proof -
  obtain lid st1 where g: "GetLogger name st = (lid, st1)" by fastforce
  have wf1: "wf_log st1" and lid: "lid < length (ls_loggers st1)"
    using wf_GetLogger [OF wf, of name] GetLogger_named(1) [OF wf g] g by simp_all
  let ?a = "logger_SetLevel lid UNKNOW st1"
  have a: "wf_log ?a" "lid < length (ls_loggers ?a)"
    using wf_logger_SetLevel [OF wf1 lid] lid by (simp_all add: logger_SetLevel_def)
  have 1: "alone lib env ({}, [I_call (C_SetLevel lid UNKNOW)], st1) ({}, [], ?a)"
    using lid by (intro alone_call1 [OF law wf1]) simp_all
  have 2: "alone lib env ({}, [I_call (C_ClearAppenders lid)], ?a) ({}, [], silence_logger name st)"
    using a(2) g by (intro alone_call1 [OF law a(1)]) (simp_all add: silence_logger_def)
  show ?thesis
    using alone_cons [OF 1 2] by (intro alone_with_logger [OF g]) (simp add: remove_jobs_def)
qed

lemma alone_old_loop:
  "readable lib \<Longrightarrow> wf_log st \<Longrightarrow> alone lib env ({}, old_loop new old, st) ({}, [], remove_old new old st)"
proof (induction old arbitrary: st)
  case Nil
  then show ?case by (simp add: alone_refl)
next
  case (Cons d ds)
  show ?case
  proof (cases "kfind ld_name (ld_name d) new = None")
    case True
    have "wf_log (silence_logger (ld_name d) st)" using silence_effect [OF Cons.prems(2)] by blast
    then show ?thesis
      using alone_cons [OF alone_silence [OF Cons.prems]] Cons True by simp
  next
    case False
    then show ?thesis using Cons by auto
  qed
qed

lemma alone_listener:
  assumes law: "readable lib" and wf: "wf_log st" and new: "ksorted ld_name new"
    and known: "\<forall>d \<in> set new. list_all known_appender (ld_appenders d)"
    and run: "on_logs_changed env junk site old new st = Inr st'"
  shows "alone lib env ({}, listener_code junk site (GetRoot st) old new, st) ({}, [], st')"
proof -
  have root: "GetRoot st < length (ls_loggers st)" using wf by (simp add: GetRoot_def wf_log_def)
  obtain st1 st2 where 1: "P_LOG env site (GetRoot st) INFO ''on_logger_conf_changed'' st = Inr st1"
    and 2: "apply_new env junk old new st1 = Inr st2" and st': "st' = remove_old new old st2"
    using run by (auto simp: on_logs_changed_def obind_Inr_iff)
  have wf1: "wf_log st1" using P_LOG_total [OF wf root, of env site INFO "''on_logger_conf_changed''"] 1 by auto
  have wf2: "wf_log st2" using apply_new_effect [OF wf1 known ksorted_distinct [OF new], of env junk old] 2 by auto
  have "alone lib env ({}, [I_call (C_P_LOG site (GetRoot st) INFO ''on_logger_conf_changed'')], st) ({}, [], st1)"
    using root 1 by (intro alone_call1 [OF law wf]) simp_all
  from alone_cons [OF this alone_seq [OF alone_new_loop [OF law wf1 known 2] alone_old_loop [OF law wf2]]]
  show ?thesis by (simp add: listener_code_def st')
qed

end
