(* ===== verification/LogThreadsReconfigure.thy ===== *)
theory LogThreadsReconfigure
  imports LogThreadsConfig
begin

text \<open>
  Reconfiguring the loggers while other threads log. The statements are split into those that only log,
  which leave everything alone that setting up a logger reads or writes, and the others, whose effect on
  the rest of the state does not depend on what was logged (\<open>bare_step\<close>). So a stack of statements comes
  to the same (\<open>settles\<close>) whether its thread is alone or among threads that log.
\<close>

subsection \<open>What logging does not change\<close>

text \<open>A state without what was logged: the files and the standard output.\<close>

definition bare_appender :: "appender \<Rightarrow> appender" where
  "bare_appender ap = ap\<lparr>ap_sink :=
     (case ap_sink ap of
        StdOutAppender \<Rightarrow> StdOutAppender | FileAppender name _ _ \<Rightarrow> FileAppender name new_ofstream 0)\<rparr>"

definition bare :: "log_state \<Rightarrow> log_state" where
  "bare st = st\<lparr>ls_appenders := map bare_appender (ls_appenders st), ls_cout := []\<rparr>"

lemma bare_simps [simp]:
  "ls_loggers (bare st) = ls_loggers st" "ls_mgr (bare st) = ls_mgr st" "ls_root (bare st) = ls_root st"
  "length (ls_appenders (bare st)) = length (ls_appenders st)" "bare (add_cout s st) = bare st"
  by (simp_all add: bare_def)

lemma bare_appender_simps [simp]:
  "ap_level (bare_appender ap) = ap_level ap" "ap_formatter (bare_appender ap) = ap_formatter ap"
  "ap_has_formatter (bare_appender ap) = ap_has_formatter ap"
  "bare_appender (bare_appender ap) = bare_appender ap"
  by (simp_all add: bare_appender_def split: sink.splits)

lemma bare_bare [simp]: "bare (bare st) = bare st"
  by (simp add: bare_def)

lemma bare_nth: "aid < length (ls_appenders st) \<Longrightarrow> ls_appenders (bare st) ! aid = bare_appender (ls_appenders st ! aid)"
  by (simp add: bare_def)

lemma bare_upd_logger [simp]: "bare (upd_logger lid f st) = upd_logger lid f (bare st)"
  by (simp add: bare_def upd_logger_def)

lemma bare_upd_sink:
  "bare_appender (f (ls_appenders st ! aid)) = bare_appender (ls_appenders st ! aid) \<Longrightarrow> bare (upd_appender aid f st) = bare st"
proof -
  assume same: "bare_appender (f (ls_appenders st ! aid)) = bare_appender (ls_appenders st ! aid)"
  have "map bare_appender ((ls_appenders st)[aid := f (ls_appenders st ! aid)]) = map bare_appender (ls_appenders st)"
    by (rule nth_equalityI) (use same in \<open>auto simp: nth_update_if\<close>)
  then show ?thesis by (simp add: bare_def upd_appender_def)
qed

lemma bare_upd_appender:
  assumes "\<And>ap. bare_appender (f (bare_appender ap)) = bare_appender (f ap)"
  shows "bare (upd_appender aid f (bare st)) = bare (upd_appender aid f st)"
proof -
  let ?aps = "ls_appenders st"
  have "map bare_appender ((map bare_appender ?aps)[aid := f (map bare_appender ?aps ! aid)])
      = map bare_appender (?aps[aid := f (?aps ! aid)])"
    by (rule nth_equalityI) (use assms in \<open>auto simp: nth_update_if\<close>)
  then show ?thesis by (simp add: bare_def upd_appender_def)
qed

lemma bare_only_logs:
  assumes "wf_log st'" "bare st' = bare st"
  shows "only_logs st st'"
proof -
  have "same_settings (ls_appenders st ! a) (ls_appenders st' ! a)" if "a < length (ls_appenders st)" for a
  proof -
    have l: "length (ls_appenders st') = length (ls_appenders st)" using assms(2) by (metis bare_simps(4))
    have "bare_appender (ls_appenders st' ! a) = bare_appender (ls_appenders st ! a)"
      using assms(2) that l by (metis bare_nth)
    then show ?thesis
      by (cases "ls_appenders st ! a"; cases "ls_appenders st' ! a")
        (auto simp: bare_appender_def same_settings_def split: sink.splits)
  qed
  moreover have "length (ls_appenders st') = length (ls_appenders st)" "ls_loggers st' = ls_loggers st"
    "ls_mgr st' = ls_mgr st" "ls_root st' = ls_root st"
    using assms(2) by (metis bare_simps(4), metis bare_simps(1), metis bare_simps(2), metis bare_simps(3))
  ultimately show ?thesis using assms(1) by (simp add: only_logs_def list_all2_conv_all_nth)
qed

text \<open>The statements that logging consists of, which change nothing else, and what they leave to do.\<close>

fun logs_only :: "instr \<Rightarrow> bool" where
  "logs_only (I_lock l) \<longleftrightarrow> True"
| "logs_only (I_unlock l) \<longleftrightarrow> True"
| "logs_only (I_call (C_Log lid level ev)) \<longleftrightarrow> True"
| "logs_only (I_call (C_P_LOG site lid level s)) \<longleftrightarrow> True"
| "logs_only (I_call (C_print s)) \<longleftrightarrow> True"
| "logs_only (I_log_body lid level ev) \<longleftrightarrow> True"
| "logs_only (I_append aid level ev) \<longleftrightarrow> True"
| "logs_only (I_file_due aid now) \<longleftrightarrow> True"
| "logs_only (I_reopen aid) \<longleftrightarrow> True"
| "logs_only (I_set_last aid now) \<longleftrightarrow> True"
| "logs_only (I_write aid level ev) \<longleftrightarrow> True"
| "logs_only (I_cout s) \<longleftrightarrow> True"
| "logs_only (I_invalid lid s) \<longleftrightarrow> True"
| "logs_only x \<longleftrightarrow> False"

lemma logs_only_locked [simp]: "list_all logs_only (locked l k) \<longleftrightarrow> list_all logs_only k"
  by (simp add: locked_def)

lemma logs_only_step:
  assumes "logs_only x" "instr_step lib env x st = Inr (new, st')"
  shows "list_all logs_only new \<and> bare st' = bare st"
proof (cases x)
  case (I_call c)
  then show ?thesis using assms by (cases c) (auto simp: list_all_iff locked_def split: if_splits)
next
  case (I_log_body lid level ev)
  then show ?thesis using assms by (auto simp: log_body_def Let_def list_all_iff split: option.splits if_splits)
next
  case (I_append aid level ev)
  then show ?thesis using assms by (auto simp: append_body_def split: sink.splits)
next
  case (I_file_due aid now)
  then show ?thesis using assms by (auto simp: file_due_def split: sink.splits if_splits)
next
  case (I_reopen aid)
  then show ?thesis using assms
    by (auto simp: sink_ReOpen_def bare_appender_def intro!: bare_upd_sink split: sink.splits)
next
  case (I_set_last aid now)
  then show ?thesis using assms
    by (auto simp: sink_set_last_def bare_appender_def intro!: bare_upd_sink split: sink.splits)
next
  case (I_write aid level ev)
  then show ?thesis using assms
    by (auto simp: write_body_def Let_def bare_appender_def intro!: bare_upd_sink split: sink.splits option.splits)
qed (use assms in auto)

subsection \<open>What setting up does is not disturbed by logging\<close>

text \<open>A statement, and the state it leaves without what was logged: this depends on the state without what
  was logged only.\<close>

definition bare_step ::
  "yaml_lib \<Rightarrow> log_env \<Rightarrow> instr \<Rightarrow> log_state \<Rightarrow> (instr list \<times> log_state) outcome" where
  "bare_step lib env x st = obind (instr_step lib env x st) (\<lambda>(new, st'). Inr (new, bare st'))"

lemma bare_GetLogger:
  "GetLogger name (bare st) = (fst (GetLogger name st), bare (snd (GetLogger name st)))"
  by (cases "smap_find name (ls_mgr st)") (simp_all add: GetLogger_hit GetLogger_miss, simp_all add: bare_def)

lemma bare_alloc: "bare (snd (alloc_appender ap (bare st))) = bare (snd (alloc_appender ap st))"
  by (simp add: alloc_appender_def) (simp add: bare_def)

lemma bare_appender_ToYamlString: "appender_ToYamlString lib (bare_appender ap) = appender_ToYamlString lib ap"
  by (cases "ap_formatter ap"; cases "ap_sink ap")
    (simp_all add: appender_ToYamlString_def appender_node_def, simp_all add: bare_appender_def)

lemma bare_nodes_step:
  "all_appenders st aids \<Longrightarrow> nodes_step lib lid entries apps aids ret (bare st) = nodes_step lib lid entries apps aids ret st"
  by (cases aids)
    (simp_all add: all_appenders_def is_file_def bare_nth, simp add: bare_appender_def split: sink.split)

lemma bare_set_appender:
  "bare_appender (appender_set_level l (bare_appender ap)) = bare_appender (appender_set_level l ap)"
  "bare_appender (appender_set_formatter v (bare_appender ap)) = bare_appender (appender_set_formatter v ap)"
  "bare_appender (inherit_formatter v (bare_appender ap)) = bare_appender (inherit_formatter v ap)"
  "bare_appender ((bare_appender ap)\<lparr>ap_formatter := v\<rparr>) = bare_appender (ap\<lparr>ap_formatter := v\<rparr>)"
  by (simp_all add: appender_set_level_def appender_set_formatter_def inherit_formatter_def bare_appender_def
      split: sink.split)

lemma bare_call_step:
  "\<not> logs_only (I_call c) \<Longrightarrow> bare_step lib env (I_call c) (bare st) = bare_step lib env (I_call c) st"
  by (cases c)
    (auto simp: bare_step_def logger_SetLevel_def bare_set_appender intro!: bare_upd_appender split: prod.splits)

lemma bare_step_bare:
  assumes "\<not> logs_only x" "instr_ok st H x"
  shows "bare_step lib env x (bare st) = bare_step lib env x st"
proof (cases x)
  case (I_call c)
  then show ?thesis using assms bare_call_step by simp
next
  case (I_find_logger name f)
  then show ?thesis by (simp add: bare_step_def bare_GetLogger case_prod_beta)
next
  case (I_with_appender new f)
  then show ?thesis
    by (cases "make_appender env new (length (ls_appenders st))") (simp_all add: bare_step_def case_prod_beta bare_alloc)
next
  case (I_get_formatter lid aid)
  then show ?thesis using assms by (simp add: bare_step_def bare_nth)
next
  case (I_nodes lid entries apps aids ret)
  then show ?thesis using assms by (simp add: bare_step_def bare_nodes_step)
next
  case (I_appender_node held lid aid entries apps aids ret)
  then show ?thesis using assms
    by (cases "y_load lib (appender_ToYamlString lib (ls_appenders st ! aid))")
      (simp_all add: bare_step_def all_appenders_def bare_nth bare_appender_ToYamlString)
next
  case (I_mgr_load n ns lids)
  then show ?thesis by (cases "y_load lib (y_dump lib n)") (simp_all add: bare_step_def)
qed (use assms in \<open>auto simp: bare_step_def DelAppender_def ClearAppenders_def node_head_def bare_set_appender
  intro!: bare_upd_appender\<close>)

text \<open>What a stack of statements comes to, with everything left out that only logs.\<close>

inductive settles :: "yaml_lib \<Rightarrow> log_env \<Rightarrow> instr list \<Rightarrow> log_state \<Rightarrow> log_state \<Rightarrow> bool" for lib env where
  settles_end: "settles lib env [] q q"
| settles_log: "logs_only x \<Longrightarrow> settles lib env k q q' \<Longrightarrow> settles lib env (x # k) q q'"
| settles_set: "\<not> logs_only x \<Longrightarrow> bare_step lib env x q = Inr (new, q1) \<Longrightarrow>
    settles lib env (new @ k) q1 q' \<Longrightarrow> settles lib env (x # k) q q'"

inductive_cases settles_NilE: "settles lib env [] q q'"
inductive_cases settles_ConsE: "settles lib env (x # k) q q'"

lemma settles_ConsD:
  assumes "settles lib env (x # k) q q'"
  shows "logs_only x \<Longrightarrow> settles lib env k q q'"
    and "\<not> logs_only x \<Longrightarrow> bare_step lib env x q = Inr (new, q1) \<Longrightarrow> settles lib env (new @ k) q1 q'"
  using assms by (auto elim: settles_ConsE)

lemma settles_unique: "settles lib env k q a \<Longrightarrow> settles lib env k q b \<Longrightarrow> a = b"
proof (induction rule: settles.induct)
  case (settles_end q)
  then show ?case by (auto elim: settles_NilE)
next
  case (settles_log x k q q')
  then show ?case using settles_ConsD(1) by blast
next
  case (settles_set x q new q1 k q')
  then show ?case using settles_ConsD(2) by blast
qed

lemma settles_skip: "list_all logs_only new \<Longrightarrow> settles lib env (new @ k) q q' \<Longrightarrow> settles lib env k q q'"
  by (induction new) (simp_all add: settles_ConsD(1))

subsection \<open>The listener among threads that log\<close>

lemma step_shape:
  assumes ok: "valid_system lib s" and step: "thread_step lib env j s = Some (Inr s1)"
  obtains x k new where "sy_threads s ! j = x # k" "sy_threads s1 = (sy_threads s)[j := new @ k]"
    "if logs_only x then list_all logs_only new \<and> bare (sy_log s1) = bare (sy_log s)
     else bare_step lib env x (bare (sy_log s)) = Inr (new, bare (sy_log s1))"
  using step
proof (cases rule: thread_step_cases)
  case (lock l k)
  then show thesis using that [of "I_lock l" k "[]"] by simp
next
  case (unlock l k)
  then show thesis using that [of "I_unlock l" k "[]"] by simp
next
  case (work x k)
  then obtain new st where new: "instr_step lib env x (sy_log s) = Inr (new, st)"
    "s1 = s\<lparr>sy_log := st, sy_threads := (sy_threads s)[j := new @ k]\<rparr>"
    by (auto simp: obind_Inr_iff eq_commute [of "Inr s1"])
  have "instr_ok (sy_log s) (held s j) x"
    using system_okD(1) [OF _ thread_step_index [OF step] work(1)] ok by (simp add: valid_system_def)
  then have "\<not> logs_only x \<Longrightarrow> bare_step lib env x (bare (sy_log s)) = Inr (new, bare st)"
    using bare_step_bare [of x "sy_log s" "held s j" lib env] new(1) by (simp add: bare_step_def)
  then show thesis using that [OF work(1), of new] logs_only_step [OF _ new(1)] new(2) by simp
qed

lemma run_settles:
  "valid_system lib s \<Longrightarrow> run_schedule lib env sched s = Inr s' \<Longrightarrow> all_returned s' \<Longrightarrow>
   i < length (sy_threads s) \<Longrightarrow>
   \<forall>j < length (sy_threads s). j \<noteq> i \<longrightarrow> list_all logs_only (sy_threads s ! j) \<Longrightarrow>
   settles lib env (sy_threads s ! i) (bare (sy_log s)) (bare (sy_log s'))"
proof (induction sched arbitrary: s)
  case Nil
  then have "sy_threads s ! i = []" by (auto simp: all_returned_def list_all_length)
  then show ?case using Nil by (simp add: settles_end)
next
  case (Cons j sched)
  show ?case
  proof (cases "thread_step lib env j s")
    case None
    then show ?thesis using Cons by simp
  next
    case (Some r)
    then obtain s1 where r: "r = Inr s1"
      using thread_step_ok [of lib s env j] Cons.prems(1) by (auto simp: valid_system_def)
    have step: "thread_step lib env j s = Some (Inr s1)" using Some r by simp
    note j = thread_step_index [OF step]
    have v: "valid_system lib s1" using sys_step_ok(1) [OF Cons.prems(1)] step by (simp add: sys_step_def)
    obtain x k new where x: "sy_threads s ! j = x # k" "sy_threads s1 = (sy_threads s)[j := new @ k]"
      "if logs_only x then list_all logs_only new \<and> bare (sy_log s1) = bare (sy_log s)
       else bare_step lib env x (bare (sy_log s)) = Inr (new, bare (sy_log s1))"
      by (rule step_shape [OF Cons.prems(1) step])
    have logs: "j \<noteq> i \<Longrightarrow> list_all logs_only (x # k)" using Cons.prems(5) j x(1) by metis
    have "list_all logs_only (sy_threads s1 ! m)" if "m < length (sy_threads s1)" "m \<noteq> i" for m
      using that Cons.prems(5) x(2,3) logs by (cases "m = j") auto
    then have "settles lib env (sy_threads s1 ! i) (bare (sy_log s1)) (bare (sy_log s'))"
      using Cons.IH [OF v] Cons.prems(2-4) step x(2) by simp
    then show ?thesis
      using x logs j by (cases "j = i"; cases "logs_only x") (auto intro: settles.intros settles_skip)
  qed
qed

lemma listener_public:
  assumes wf: "wf_log st" and known: "\<forall>d \<in> set new. list_all known_appender (ld_appenders d)"
  shows "list_all (public_ok st) (listener_code junk site (GetRoot st) old new)"
proof -
  have calls: "list_all (call_ok st') (define_formatter_calls name a aid)"
    if "aid < length (ls_appenders st')" for st' name a aid
    using that by (simp add: define_formatter_calls_def split: prod.split)
  have "appender_calls_ok st' (define_appender junk a)
      (\<lambda>aid. C_appender_SetLevel aid (ad_level a) # define_formatter_calls name a aid @ [C_AddAppender lid aid])"
    if "known_appender a" "lid < length (ls_loggers st')" for st' name lid a
    using that calls by (auto simp: appender_calls_ok_def define_appender_def known_appender_def grows_def)
  then have "logger_jobs_ok st (define_jobs junk d)" if "d \<in> set new" for d
    using that known by (auto simp: logger_jobs_ok_def define_jobs_def appender_job_def list_all_iff)
  then have "list_all (public_ok st) (new_loop junk old ds)" if "set ds \<subseteq> set new" for ds
    using that by (induction ds) auto
  moreover have "list_all (public_ok st) (old_loop new ds)" for ds
    by (induction ds) (auto simp: remove_jobs_def logger_jobs_ok_def)
  moreover have "GetRoot st < length (ls_loggers st)" using wf by (simp add: GetRoot_def wf_log_def)
  ultimately show ?thesis by (simp add: listener_code_def)
qed

lemma listener_settles:
  assumes law: "readable lib" and wf: "wf_log st" and new: "ksorted ld_name new"
    and known: "\<forall>d \<in> set new. list_all known_appender (ld_appenders d)"
    and run: "on_logs_changed env junk site old new st = Inr st'"
  shows "settles lib env (listener_code junk site (GetRoot st) old new) (bare st) (bare st')"
proof -
  let ?code = "listener_code junk site (GetRoot st) old new"
  let ?s = "init_system st [?code]"
  have "valid_system lib ?s"
    using valid_init [OF law wf] listener_public [OF wf known] by (simp add: programs_ok_def)
  moreover obtain n where "run_schedule lib env (replicate n 0) (at_state 0 ?s ({}, ?code, st)) =
      Inr (at_state 0 ?s ({}, [], st'))"
    using alone_schedule [OF alone_listener [OF law wf new known run], of 0 ?s] by (auto simp: init_system_def)
  moreover have "at_state 0 ?s ({}, ?code, st) = ?s"
    by (simp add: at_state_def init_system_def owned_by_def fun_eq_iff)
  ultimately show ?thesis
    using run_settles [of lib ?s env "replicate n 0" "at_state 0 ?s ({}, [], st')" 0]
    by (simp add: all_returned_def at_state_def init_system_def)
qed

text \<open>C7: the loggers can be reconfigured while other threads log. Let one thread run the listener of
  \<open>logs\<close> for a change of the definitions, and any number of others send whatever they like to whatever
  loggers. However their statements interleave, no step faults and some thread can go on until all are
  done, and then the logging state is what the sequential listener would have made of it, but for what
  was logged: every logger is in line with the new definitions.\<close>

theorem reconfigure_while_logging:
  assumes law: "readable lib" and wf: "wf_log st" and new: "ksorted ld_name new"
    and known: "\<forall>d \<in> set new. list_all known_appender (ld_appenders d)"
    and i: "i < length threads" "threads ! i = listener_code junk site (GetRoot st) old new"
    and others: "\<forall>j < length threads. j \<noteq> i \<longrightarrow>
      list_all (\<lambda>x. logs_only x \<and> public_ok st x) (threads ! j)"
  shows "\<exists>s st'. run_schedule lib env sched (init_system st threads) = Inr s \<and>
    on_logs_changed env junk site old new st = Inr st' \<and>
    (if all_returned s then only_logs st' (sy_log s) \<and> brought_in_line old new st (sy_log s)
     else \<exists>j. thread_step lib env j s \<noteq> None)"
proof -
  let ?s = "init_system st threads"
  have "list_all (public_ok st) (threads ! j)" if "j < length threads" for j
    using that i listener_public [OF wf known] others by (cases "j = i") (auto simp: list_all_iff)
  then have v: "valid_system lib ?s"
    using valid_init [OF law wf] by (simp add: programs_ok_def list_all_length)
  obtain s where s: "run_schedule lib env sched ?s = Inr s" "valid_system lib s"
    using run_schedule_ok [OF v] by blast
  obtain st' where st': "on_logs_changed env junk site old new st = Inr st'" "wf_log st'"
    "brought_in_line old new st st'"
    using configuration_applies [OF wf new known] by blast
  have "only_logs st' (sy_log s)" if "all_returned s"
  proof -
    have "settles lib env (sy_threads ?s ! i) (bare (sy_log ?s)) (bare (sy_log s))"
      by (rule run_settles [OF v s(1) that])
        (use i others in \<open>auto simp: init_system_def list_all_iff\<close>)
    then have "bare (sy_log s) = bare st'"
      using settles_unique [OF listener_settles [OF law wf new known st'(1)]] i(2) by (simp add: init_system_def)
    moreover have "wf_log (sy_log s)" using s(2) by (simp add: valid_system_def system_ok_def)
    ultimately show ?thesis by (intro bare_only_logs)
  qed
  moreover have "brought_in_line old new st (sy_log s)" if "only_logs st' (sy_log s)"
    using in_line_only_logs [OF st'(3) only_logs_refl [OF wf] that st'(2)] .
  moreover have "\<exists>j. thread_step lib env j s \<noteq> None" if "\<not> all_returned s"
    using logging.progress [OF s(2), of env] that by (auto simp: all_returned_iff sys_step_def)
  ultimately show ?thesis using s(1) st'(1) by (intro exI [of _ s] exI [of _ st']) simp
qed

theorem reconfigure_while_logging_witness:
  "(let d = \<lparr>ld_name = ''net'', ld_level = WARN, ld_formatter = [],
             ld_appenders = [\<lparr>ad_type = 2, ad_level = ERROR, ad_formatter = [], ad_file = []\<rparr>]\<rparr>
    in \<forall>junk site. \<exists>sched s. run_schedule sample_yaml sample_env sched
         (init_system init_log_state
           [[I_call (C_P_LOG site 0 ERROR ''up''), I_call (C_P_LOG site 0 WARN ''down'')],
            listener_code junk site (GetRoot init_log_state) [] [d]]) = Inr s \<and>
       all_returned s \<and> brought_in_line [] [d] init_log_state (sy_log s))"
proof -
  let ?d = "\<lparr>ld_name = ''net'', ld_level = WARN, ld_formatter = [],
    ld_appenders = [\<lparr>ad_type = 2, ad_level = ERROR, ad_formatter = [], ad_file = []\<rparr>]\<rparr>"
  have known: "ksorted ld_name [?d]" "\<forall>d \<in> set [?d]. list_all known_appender (ld_appenders d)"
    by (simp_all add: known_appender_def)
  have "\<exists>sched s. run_schedule sample_yaml sample_env sched
      (init_system init_log_state
        [[I_call (C_P_LOG site 0 ERROR ''up''), I_call (C_P_LOG site 0 WARN ''down'')],
         listener_code junk site (GetRoot init_log_state) [] [?d]]) = Inr s \<and>
    all_returned s \<and> brought_in_line [] [?d] init_log_state (sy_log s)" for junk site
  proof -
    let ?log = "[I_call (C_P_LOG site 0 ERROR ''up''), I_call (C_P_LOG site 0 WARN ''down'')]"
    let ?threads = "[?log, listener_code junk site (GetRoot init_log_state) [] [?d]]"
    have log: "list_all (\<lambda>x. logs_only x \<and> public_ok init_log_state x) ?log"
      by (simp add: init_log_state_eq)
    have "programs_ok init_log_state ?threads"
      using log listener_public [OF wf_init known(2)] by (simp add: programs_ok_def)
    then obtain sched s where s: "run_schedule sample_yaml sample_env sched (init_system init_log_state ?threads) = Inr s"
      "all_returned s"
      using some_run_returns valid_init [OF sample_ok(1) wf_init] by blast
    have "\<exists>s st'. run_schedule sample_yaml sample_env sched (init_system init_log_state ?threads) = Inr s \<and>
      on_logs_changed sample_env junk site [] [?d] init_log_state = Inr st' \<and>
      (if all_returned s then only_logs st' (sy_log s) \<and> brought_in_line [] [?d] init_log_state (sy_log s)
       else \<exists>j. thread_step sample_yaml sample_env j s \<noteq> None)"
      by (rule reconfigure_while_logging [OF sample_ok(1) wf_init known, of 1])
        (use log in \<open>auto simp: less_Suc_eq\<close>)
    then show ?thesis using s by (intro exI [of _ sched] exI [of _ s]) auto
  qed
  then show ?thesis by (simp only: Let_def) blast
qed

end
