(* ===== verification/LogThreadsDeliver.thy ===== *)
theory LogThreadsDeliver
  imports LogThreadsSafe
begin

text \<open>
  What comes out when threads log at the same time and nothing is reconfigured: every appender gets
  every line of every thread once and whole, and the lines of one thread in the order in which it
  logged them.
\<close>

subsection \<open>Interleavings\<close>

text \<open>The lists that arise by taking, again and again, the first element of one of the given lists until all
  are empty.\<close>

inductive interleaves :: "'a list list \<Rightarrow> 'a list \<Rightarrow> bool" where
  interleaves_Nil: "list_all (\<lambda>xs. xs = []) xss \<Longrightarrow> interleaves xss []"
| interleaves_Cons: "i < length xss \<Longrightarrow> xss ! i = x # xs \<Longrightarrow> interleaves (xss[i := xs]) zs \<Longrightarrow>
    interleaves xss (x # zs)"

subsection \<open>Lines\<close>

definition line :: "log_env \<Rightarrow> log_state \<Rightarrow> nat \<Rightarrow> level \<Rightarrow> log_event \<Rightarrow> string" where
  "line env st aid level ev =
     formatter_format (le_strftime env) (logger_name st) (the (ap_formatter (ls_appenders st ! aid))) level ev @
     (if is_file st aid then [] else newline)"

definition log_lines :: "log_env \<Rightarrow> log_state \<Rightarrow> nat \<Rightarrow> nat \<Rightarrow> level \<Rightarrow> log_event \<Rightarrow> string list" where
  "log_lines env st aid lid level ev =
     (if ap_level (ls_appenders st ! aid) \<le> level
      then map (\<lambda>_. line env st aid level ev) (filter ((=) aid) (route st lid level)) else [])"

text \<open>The lines a call hands to an appender.\<close>

fun call_lines :: "log_env \<Rightarrow> log_state \<Rightarrow> nat \<Rightarrow> instr \<Rightarrow> string list" where
  "call_lines env st aid (I_call (C_Log lid level ev)) = log_lines env st aid lid level ev"
| "call_lines env st aid (I_call (C_P_LOG site lid level s)) =
     log_lines env st aid lid level (event_write s (macro_event site lid level))"
| "call_lines env st aid _ = []"

text \<open>What an appender has written so far.\<close>

definition text_at :: "log_state \<Rightarrow> nat \<Rightarrow> string" where
  "text_at st aid =
     (case ap_sink (ls_appenders st ! aid) of
        StdOutAppender \<Rightarrow> ls_cout st | FileAppender name os t \<Rightarrow> os_data os)"

text \<open>Files are open and good, and none is due to be opened again at a time.\<close>

definition calm :: "log_state \<Rightarrow> u64 \<Rightarrow> bool" where
  "calm st now \<longleftrightarrow> (\<forall>aid < length (ls_appenders st).
     case ap_sink (ls_appenders st ! aid) of
       StdOutAppender \<Rightarrow> True
     | FileAppender name os t \<Rightarrow> os_open os \<and> \<not> os_fail os \<and> \<not> t + 3 \<le> now)"

definition one_stdout :: "log_state \<Rightarrow> bool" where
  "one_stdout st \<longleftrightarrow> (\<forall>a < length (ls_appenders st). \<forall>b < length (ls_appenders st).
     \<not> is_file st a \<longrightarrow> \<not> is_file st b \<longrightarrow> a = b)"

text \<open>A thread that only logs.\<close>

fun logs_only :: "log_state \<Rightarrow> instr \<Rightarrow> bool" where
  "logs_only st (I_call (C_Log lid level ev)) \<longleftrightarrow> lid < length (ls_loggers st) \<and> calm st (ev_time ev)"
| "logs_only st (I_call (C_P_LOG site lid level s)) \<longleftrightarrow> lid < length (ls_loggers st) \<and> calm st (site_time site)"
| "logs_only st _ \<longleftrightarrow> False"

subsection \<open>The configuration stays\<close>

definition same_appender :: "appender \<Rightarrow> appender \<Rightarrow> bool" where
  "same_appender ap ap' \<longleftrightarrow> ap_level ap' = ap_level ap \<and> ap_formatter ap' = ap_formatter ap \<and>
     (case ap_sink ap of
        StdOutAppender \<Rightarrow> ap_sink ap' = StdOutAppender
      | FileAppender name os t \<Rightarrow> \<exists>os'. ap_sink ap' = FileAppender name os' t \<and>
          os_open os' = os_open os \<and> os_fail os' = os_fail os)"

definition same_config :: "log_state \<Rightarrow> log_state \<Rightarrow> bool" where
  "same_config st st' \<longleftrightarrow> ls_loggers st' = ls_loggers st \<and> ls_root st' = ls_root st \<and>
     length (ls_appenders st') = length (ls_appenders st) \<and>
     (\<forall>aid < length (ls_appenders st). same_appender (ls_appenders st ! aid) (ls_appenders st' ! aid))"

lemma same_appender_refl [simp]: "same_appender ap ap"
  by (auto simp: same_appender_def split: sink.split)

lemma same_config_refl [simp]: "same_config st st"
  by (simp add: same_config_def)

lemma same_config_sink:
  "same_config st st' \<Longrightarrow> aid < length (ls_appenders st) \<Longrightarrow>
   is_file st' aid = is_file st aid \<and> ap_level (ls_appenders st' ! aid) = ap_level (ls_appenders st ! aid) \<and>
   ap_formatter (ls_appenders st' ! aid) = ap_formatter (ls_appenders st ! aid)"
  by (auto simp: same_config_def same_appender_def is_file_def split: sink.splits)

lemma same_config_names: "same_config st st' \<Longrightarrow> logger_name st' = logger_name st"
  by (rule logger_name_cong) (simp add: same_config_def)

text \<open>Statements of a logging call, with what is known of them in the configuration \<open>st\<close>.\<close>

fun log_code :: "log_state \<Rightarrow> instr \<Rightarrow> bool" where
  "log_code st (I_lock l) \<longleftrightarrow> True"
| "log_code st (I_unlock l) \<longleftrightarrow> True"
| "log_code st (I_call c) \<longleftrightarrow> logs_only st (I_call c)"
| "log_code st (I_log_body lid level ev) \<longleftrightarrow> lid < length (ls_loggers st) \<and> calm st (ev_time ev)"
| "log_code st (I_append aid level ev) \<longleftrightarrow> attachable st aid \<and> calm st (ev_time ev)"
| "log_code st (I_file_due aid now) \<longleftrightarrow> aid < length (ls_appenders st) \<and> calm st now"
| "log_code st (I_write aid level ev) \<longleftrightarrow> attachable st aid \<and> calm st (ev_time ev)"
| "log_code st (I_cout s) \<longleftrightarrow> s = newline"
| "log_code st _ \<longleftrightarrow> False"

text \<open>A line is written and ended directly before the lock of its appender is released.\<close>

definition follows :: "log_state \<Rightarrow> instr \<Rightarrow> instr list \<Rightarrow> bool" where
  "follows st x k \<longleftrightarrow>
     (case x of
        I_write aid level ev \<Rightarrow> \<exists>k'. k = I_unlock (Appender_lock aid) # k'
      | I_cout s \<Rightarrow> \<exists>aid k'. k = I_unlock (Appender_lock aid) # k' \<and>
          aid < length (ls_appenders st) \<and> \<not> is_file st aid
      | _ \<Rightarrow> True)"

fun shape :: "log_state \<Rightarrow> instr list \<Rightarrow> bool" where
  "shape st [] \<longleftrightarrow> True"
| "shape st (x # k) \<longleftrightarrow> log_code st x \<and> follows st x k \<and> shape st k"

definition no_cout :: "instr list \<Rightarrow> bool" where
  "no_cout k \<longleftrightarrow> (\<forall>s. I_cout s \<notin> set k)"

definition thread_ok :: "log_state \<Rightarrow> instr list \<Rightarrow> bool" where
  "thread_ok st k \<longleftrightarrow> shape st k \<and> no_cout (tl k)"

lemma shape_append: "shape st a \<Longrightarrow> shape st b \<Longrightarrow> shape st (a @ b)"
proof (induction a)
  case (Cons x a)
  have "follows st x (a @ b)" using Cons.prems(1) by (auto simp: follows_def split: instr.splits)
  with Cons show ?case by simp
qed simp

text \<open>What a statement will still hand to the appender \<open>a\<close>.\<close>

fun pending :: "log_env \<Rightarrow> log_state \<Rightarrow> nat \<Rightarrow> instr \<Rightarrow> string list" where
  "pending env st a (I_call c) = call_lines env st a (I_call c)"
| "pending env st a (I_log_body lid level ev) =
     (let lg = ls_loggers st ! lid
      in if lg_appenders lg \<noteq> []
         then concat (map (\<lambda>aid. if aid = a \<and> ap_level (ls_appenders st ! a) \<le> level
                then [line env st a level ev] else []) (lg_appenders lg))
         else case lg_root lg of None \<Rightarrow> [] | Some r \<Rightarrow> log_lines env st a r level ev)"
| "pending env st a (I_append aid level ev) =
     (if aid = a \<and> ap_level (ls_appenders st ! a) \<le> level then [line env st a level ev] else [])"
| "pending env st a (I_write aid level ev) = (if aid = a then [line env st a level ev] else [])"
| "pending env st a _ = []"

definition pending_code :: "log_env \<Rightarrow> log_state \<Rightarrow> nat \<Rightarrow> instr list \<Rightarrow> string list" where
  "pending_code env st a k = concat (map (pending env st a) k)"

lemma pending_code_simps [simp]:
  "pending_code env st a [] = []"
  "pending_code env st a (x # k) = pending env st a x @ pending_code env st a k"
  "pending_code env st a (j @ k) = pending_code env st a j @ pending_code env st a k"
  by (simp_all add: pending_code_def)

lemma filter_lines:
  "concat (map (\<lambda>aid. if aid = a \<and> P then [l] else []) aids) = (if P then map (\<lambda>_. l) (filter ((=) a) aids) else [])"
  "concat (map (\<lambda>aid. if aid = a then [l] else []) aids) = map (\<lambda>_. l) (filter ((=) a) aids)"
  by (induction aids) auto

lemma no_cout_tl: "no_cout k \<Longrightarrow> no_cout (tl k)"
  by (cases k) (auto simp: no_cout_def)

text \<open>Statements that write nothing keep what is pending.\<close>

lemma pending_Log:
  assumes wf: "wf_log st" and lid: "lid < length (ls_loggers st)"
  shows "log_lines env st a lid level ev =
    (if lg_level (ls_loggers st ! lid) \<le> level then pending env st a (I_log_body lid level ev) else [])"
proof -
  have root: "ls_root st < length (ls_loggers st)" "lg_root (ls_loggers st ! ls_root st) = None"
    using wf by (auto simp: wf_log_def)
  show ?thesis
    using wf_logger_of [OF wf lid] root
    by (auto simp: log_lines_def route_def Let_def filter_lines)
qed

lemma same_config_wf_names:
  "same_config st st' \<Longrightarrow> ls_loggers st' = ls_loggers st" "same_config st st' \<Longrightarrow> ls_root st' = ls_root st"
  by (simp_all add: same_config_def)

lemma quiet_call:
  assumes wf: "wf_log st" and same: "same_config st st'" and ok: "logs_only st (I_call c)"
  shows "\<exists>new. call_step c st' = (new, st') \<and> shape st new \<and> no_cout new \<and>
    pending_code env st a new = pending env st a (I_call c)"
proof -
  note cfg = same_config_wf_names [OF same]
  show ?thesis
  proof (cases c)
    case (C_Log lid level ev)
    then show ?thesis using ok pending_Log [OF wf, of lid env a level ev] cfg
      by (auto simp: locked_def no_cout_def follows_def split: instr.splits)
  next
    case (C_P_LOG site lid level s)
    have t: "ev_time (event_write s (macro_event site lid level)) = site_time site"
      by (simp add: event_write_def macro_event_def new_LogEvent_def)
    show ?thesis
      using C_P_LOG t ok cfg
      by (auto simp: no_cout_def follows_def log_lines_def route_def Let_def)
  qed (use ok in simp_all)
qed

lemma shape_simple:
  "(\<And>x. x \<in> set k \<Longrightarrow> log_code st x \<and> (\<forall>j. follows st x j)) \<Longrightarrow> shape st k"
  by (induction k) auto

lemma quiet_body:
  assumes wf: "wf_log st" and same: "same_config st st'" and ok: "log_code st (I_log_body lid level ev)"
  shows "shape st (log_body lid level ev st') \<and> no_cout (log_body lid level ev st') \<and>
    pending_code env st a (log_body lid level ev st') = pending env st a (I_log_body lid level ev)"
proof -
  note cfg = same_config_wf_names [OF same]
  have lid: "lid < length (ls_loggers st)" using ok by simp
  have "ls_root st < length (ls_loggers st)" using wf by (simp add: wf_log_def)
  then have "shape st (log_body lid level ev st')"
    using wf_logger_of [OF wf lid] ok
    by (intro shape_simple) (auto simp: log_body_def Let_def follows_def list_all_iff cfg split: if_splits)
  moreover have "no_cout (log_body lid level ev st')"
    by (auto simp: log_body_def Let_def no_cout_def split: option.split)
  moreover have "pending_code env st a (log_body lid level ev st') = pending env st a (I_log_body lid level ev)"
    by (auto simp: log_body_def Let_def cfg pending_code_def comp_def split: option.split)
  ultimately show ?thesis by blast
qed

lemma quiet_step:
  assumes wf: "wf_log st" and same: "same_config st st'" and ok: "log_code st x"
    and x: "\<And>l. x \<noteq> I_lock l" "\<And>l. x \<noteq> I_unlock l" "\<And>aid level ev. x \<noteq> I_write aid level ev"
      "\<And>s. x \<noteq> I_cout s"
  shows "\<exists>new. instr_step lib env x st' = Inr (new, st') \<and> shape st new \<and> no_cout new \<and>
    pending_code env st a new = pending env st a x"
proof (cases x)
  case (I_call c)
  then show ?thesis using quiet_call [OF wf same, of c] ok by auto
next
  case (I_log_body lid level ev)
  then show ?thesis using quiet_body [OF wf same] ok by auto
next
  case (I_append aid level ev)
  have aid: "aid < length (ls_appenders st)" using ok I_append by (auto simp: attachable_def)
  show ?thesis
    using same_config_sink [OF same aid] ok I_append aid
    by (auto simp: append_body_def locked_def no_cout_def follows_def split: sink.split)
next
  case (I_file_due aid now)
  have aid: "aid < length (ls_appenders st)" and calm: "calm st now" using ok I_file_due by auto
  have "file_due aid now st' = []"
  proof (cases "ap_sink (ls_appenders st ! aid)")
    case StdOutAppender
    then show ?thesis using same aid by (auto simp: file_due_def same_config_def same_appender_def)
  next
    case (FileAppender name os t)
    then have "\<not> t + 3 \<le> now" using calm aid by (auto simp: calm_def)
    moreover obtain os' where "ap_sink (ls_appenders st' ! aid) = FileAppender name os' t"
      using same aid FileAppender by (fastforce simp: same_config_def same_appender_def)
    ultimately show ?thesis by (simp add: file_due_def)
  qed
  then show ?thesis using I_file_due by (simp add: no_cout_def)
qed (use ok x in simp_all)

text \<open>Writing.\<close>

text \<open>A write, to the standard output and to a file.\<close>

definition writes_line ::
  "log_env \<Rightarrow> log_state \<Rightarrow> nat \<Rightarrow> level \<Rightarrow> log_event \<Rightarrow> log_state \<Rightarrow> log_state \<Rightarrow> bool" where
  "writes_line env st aid level ev st' st'' \<longleftrightarrow>
     same_config st st'' \<and>
     (\<forall>a < length (ls_appenders st). a \<noteq> aid \<longrightarrow> is_file st a \<or> is_file st aid \<longrightarrow> text_at st'' a = text_at st' a) \<and>
     text_at st'' aid @ (if is_file st aid then [] else newline) = text_at st' aid @ line env st aid level ev"

lemma write_stdout:
  assumes same: "same_config st st'" and aid: "aid < length (ls_appenders st)"
    and fm: "ap_formatter (ls_appenders st ! aid) = Some fm"
    and sink: "ap_sink (ls_appenders st ! aid) = StdOutAppender"
    and msg_def: "msg = formatter_format (le_strftime env) (logger_name st) fm level ev"
  shows "instr_step lib env (I_write aid level ev) st' = Inr ([I_cout newline], add_cout msg st')"
    "writes_line env st aid level ev st' (add_cout msg st')"
proof -
  have sink': "ap_sink (ls_appenders st' ! aid) = StdOutAppender"
    using same aid sink by (auto simp: same_config_def same_appender_def)
  then show "instr_step lib env (I_write aid level ev) st' = Inr ([I_cout newline], add_cout msg st')"
    using same_config_sink [OF same aid] fm by (simp add: write_body_def Let_def msg_def same_config_names [OF same])
  have "text_at (add_cout msg st') a = text_at st' a" if "a < length (ls_appenders st)" "is_file st a" for a
    using that same_config_sink [OF same that(1)] by (auto simp: text_at_def is_file_def split: sink.splits)
  then show "writes_line env st aid level ev st' (add_cout msg st')"
    using same sink sink' fm
    by (auto simp: writes_line_def same_config_def text_at_def is_file_def line_def msg_def)
qed

lemma write_file:
  assumes same: "same_config st st'" and aid: "aid < length (ls_appenders st)" and calm: "calm st (ev_time ev)"
    and fm: "ap_formatter (ls_appenders st ! aid) = Some fm"
    and sink: "ap_sink (ls_appenders st ! aid) = FileAppender name os t"
  shows "\<exists>st''. instr_step lib env (I_write aid level ev) st' = Inr ([], st'') \<and> writes_line env st aid level ev st' st''"
proof -
  define msg where "msg = formatter_format (le_strftime env) (logger_name st) fm level ev"
  obtain os' where sink': "ap_sink (ls_appenders st' ! aid) = FileAppender name os' t"
    and os': "os_open os'" "\<not> os_fail os'"
    using same aid calm sink by (fastforce simp: same_config_def same_appender_def calm_def)
  have len: "length (ls_appenders st') = length (ls_appenders st)" using same by (simp add: same_config_def)
  let ?st = "upd_appender aid (\<lambda>ap. ap\<lparr>ap_sink := FileAppender name (os'\<lparr>os_data := os_data os' @ msg\<rparr>) t\<rparr>) st'"
  have "instr_step lib env (I_write aid level ev) st' = Inr ([], ?st)"
    using sink' same_config_sink [OF same aid] fm os'
    by (simp add: write_body_def Let_def msg_def same_config_names [OF same] os_write_def)
  moreover have "same_config st ?st"
    using same sink' aid len
    by (auto simp: same_config_def upd_appender_def nth_list_update same_appender_def split: sink.splits)
  moreover have "text_at ?st a = text_at st' a" if "a \<noteq> aid" for a
    using that by (simp add: text_at_def upd_appender_def split: sink.split)
  ultimately show ?thesis
    using sink sink' fm aid len
    by (intro exI [where x = ?st]) (simp add: writes_line_def text_at_def is_file_def line_def msg_def upd_appender_def)
qed

lemma write_step:
  assumes same: "same_config st st'" and ok: "log_code st (I_write aid level ev)"
  shows "\<exists>st''. instr_step lib env (I_write aid level ev) st' =
      Inr (if is_file st aid then [] else [I_cout newline], st'') \<and> writes_line env st aid level ev st' st''"
proof -
  obtain fm where "ap_formatter (ls_appenders st ! aid) = Some fm" "aid < length (ls_appenders st)" "calm st (ev_time ev)"
    using ok by (auto simp: attachable_def)
  then show ?thesis
    using write_stdout [OF same _ _ _ refl] write_file [OF same] by (cases "ap_sink (ls_appenders st ! aid)") (fastforce simp: is_file_def)+
qed

subsection \<open>Runs\<close>

definition logging_ok :: "log_state \<Rightarrow> system \<Rightarrow> bool" where
  "logging_ok st s \<longleftrightarrow> system_ok s \<and> same_config st (sy_log s) \<and>
     (\<forall>i < length (sy_threads s). thread_ok st (sy_threads s ! i))"

text \<open>A thread has written a line to the standard output and not yet its end.\<close>

definition midline :: "system \<Rightarrow> bool" where
  "midline s \<longleftrightarrow> (\<exists>i < length (sy_threads s). \<exists>t k. sy_threads s ! i = I_cout t # k)"

definition line_end :: "log_state \<Rightarrow> system \<Rightarrow> nat \<Rightarrow> string" where
  "line_end st s a = (if \<not> is_file st a \<and> midline s then newline else [])"

lemma logs_only_code: "logs_only st x \<Longrightarrow> public_ok st x \<and> log_code st x \<and> (\<forall>k. follows st x k) \<and> (\<forall>s. x \<noteq> I_cout s)"
  by (cases "(st, x)" rule: logs_only.cases) (auto simp: follows_def)

lemma logging_ok_init:
  assumes "wf_log st" "list_all (list_all (logs_only st)) threads"
  shows "logging_ok st (init_system st threads)" "\<not> midline (init_system st threads)"
proof -
  have "programs_ok st threads"
    using assms(2) logs_only_code by (auto simp: programs_ok_def list_all_iff)
  then have "system_ok (init_system st threads)"
    using valid_init [OF sample_ok(1) assms(1)] by (simp add: valid_system_def)
  moreover have "thread_ok st k" if "k \<in> set threads" for k
  proof -
    have k: "\<forall>x \<in> set k. logs_only st x" using assms(2) that by (auto simp: list_all_iff)
    then have "shape st k" using logs_only_code by (intro shape_simple) blast
    moreover have "no_cout (tl k)"
      using k logs_only_code unfolding no_cout_def by (metis list.sel(2) list.set_sel(2))
    ultimately show ?thesis by (simp add: thread_ok_def)
  qed
  ultimately show "logging_ok st (init_system st threads)"
    by (simp add: logging_ok_def init_system_def)
  show "\<not> midline (init_system st threads)"
  proof
    assume "midline (init_system st threads)"
    then obtain i t k where i: "i < length threads" "threads ! i = I_cout t # k"
      by (auto simp: midline_def init_system_def)
    moreover have "list_all (logs_only st) (threads ! i)" using assms(2) i(1) by (simp add: list_all_length)
    ultimately show False by simp
  qed
qed

text \<open>The thread that is in the middle of a line holds the lock of the standard-output appender.\<close>

lemma midline_owner:
  assumes ok: "logging_ok st s" and i: "i < length (sy_threads s)" "sy_threads s ! i = I_cout t # k"
  shows "\<exists>aid < length (ls_appenders st). \<not> is_file st aid \<and> sy_owner s (Appender_lock aid) = Some i"
proof -
  have "thread_ok st (I_cout t # k)" using ok i unfolding logging_ok_def by metis
  then obtain aid k' where k: "k = I_unlock (Appender_lock aid) # k'" "aid < length (ls_appenders st)"
    "\<not> is_file st aid" by (auto simp: thread_ok_def follows_def)
  have "code_to (sy_log s) (held s i) k {}"
    using system_okD(2) [of s i "I_cout t" k] ok i by (simp add: logging_ok_def)
  then have "sy_owner s (Appender_lock aid) = Some i" using k(1) by (simp add: held_def)
  then show ?thesis using k by blast
qed

lemma write_owner:
  assumes ok: "logging_ok st s" and i: "i < length (sy_threads s)" "sy_threads s ! i = I_write aid level ev # k"
  shows "sy_owner s (Appender_lock aid) = Some i" "\<exists>k'. k = I_unlock (Appender_lock aid) # k'"
proof -
  show "sy_owner s (Appender_lock aid) = Some i"
    using system_okD(1) [of s i "I_write aid level ev" k] ok i by (simp add: logging_ok_def held_def)
  have "thread_ok st (I_write aid level ev # k)" using ok i unfolding logging_ok_def by metis
  then show "\<exists>k'. k = I_unlock (Appender_lock aid) # k'" by (simp add: thread_ok_def follows_def)
qed

lemma log_code_lib: "log_code st x \<Longrightarrow> instr_step lib env x st' = instr_step lib' env x st'"
  by (cases x) auto

lemma thread_step_lib:
  assumes "logging_ok st s"
  shows "thread_step lib env i s = thread_step lib' env i s"
proof (cases "i < length (sy_threads s) \<and> sy_threads s ! i \<noteq> []")
  case True
  then obtain x k where x: "sy_threads s ! i = x # k" by (cases "sy_threads s ! i") auto
  have "thread_ok st (x # k)" using assms True x unfolding logging_ok_def by metis
  then have same: "instr_step lib env x (sy_log s) = instr_step lib' env x (sy_log s)"
    by (intro log_code_lib [of st]) (simp add: thread_ok_def)
  show ?thesis
  proof (cases "\<exists>l. x = I_lock l \<or> x = I_unlock l")
    case True
    then show ?thesis using x by (auto simp: thread_step_def)
  next
    case False
    then show ?thesis using x True same by (simp add: thread_step_work)
  qed
qed (auto simp: thread_step_def)

lemma midline_update:
  assumes "i < length (sy_threads s)" "sy_threads s' = (sy_threads s)[i := k']"
    "\<nexists>t k. sy_threads s ! i = I_cout t # k" "\<nexists>t k. k' = I_cout t # k"
  shows "midline s' = midline s"
proof -
  have "(\<exists>t k. sy_threads s' ! j = I_cout t # k) \<longleftrightarrow> (\<exists>t k. sy_threads s ! j = I_cout t # k)" for j
    using assms by (cases "j = i") auto
  then show ?thesis using assms(2) by (simp add: midline_def)
qed

text \<open>A step: what it does to an appender's text and to what is pending for it.\<close>

definition delivers :: "log_env \<Rightarrow> log_state \<Rightarrow> nat \<Rightarrow> nat \<Rightarrow> system \<Rightarrow> system \<Rightarrow> string list \<Rightarrow> bool" where
  "delivers env st a i s s' ls \<longleftrightarrow>
     text_at (sy_log s') a @ line_end st s' a = text_at (sy_log s) a @ line_end st s a @ concat ls \<and>
     (\<exists>k'. sy_threads s' = (sy_threads s)[i := k'] \<and>
        pending_code env st a (sy_threads s ! i) = ls @ pending_code env st a k')"

lemma thread_ok_append:
  assumes "thread_ok st (x # k)" "shape st new" "no_cout new"
  shows "thread_ok st (new @ k) \<and> (\<nexists>t k'. new @ k = I_cout t # k')"
proof -
  have k: "shape st k" "no_cout k" using assms(1) by (simp_all add: thread_ok_def)
  have "no_cout (new @ k)" using assms(3) k(2) by (auto simp: no_cout_def)
  then have "no_cout (tl (new @ k))" "\<nexists>t k'. new @ k = I_cout t # k'"
    unfolding no_cout_def by (metis list.sel(2) list.set_sel(2), metis list.set_intros(1))
  then show ?thesis using shape_append [OF assms(2) k(1)] by (simp add: thread_ok_def)
qed

lemma logging_ok_step:
  assumes "logging_ok st s" "thread_step lib env i s = Some (Inr s')"
    "same_config st (sy_log s')" "sy_threads s' = (sy_threads s)[i := k']" "thread_ok st k'"
  shows "logging_ok st s'"
proof -
  have "thread_step sample_yaml env i s = Some (Inr s')" using assms(1,2) thread_step_lib by metis
  then have "system_ok s'"
    using thread_step_ok [OF sample_ok(1)] assms(1) by (fastforce simp: logging_ok_def)
  then show ?thesis
    using assms by (auto simp: logging_ok_def nth_update_if)
qed

text \<open>A step that writes nothing.\<close>

lemma deliver_nothing:
  assumes ok: "logging_ok st s" and step: "thread_step lib env i s = Some (Inr s')"
    and x: "sy_threads s ! i = x # k" "\<And>t. x \<noteq> I_cout t"
    and same: "sy_log s' = sy_log s" "sy_threads s' = (sy_threads s)[i := new @ k]"
    and new: "shape st new" "no_cout new" "pending_code env st a new = pending env st a x"
  shows "logging_ok st s' \<and> delivers env st a i s s' []"
proof -
  note i = thread_step_index [OF step]
  have "thread_ok st (x # k)" using ok i x(1) unfolding logging_ok_def by metis
  then have k: "thread_ok st (new @ k)" "\<nexists>t k'. new @ k = I_cout t # k'"
    using thread_ok_append [OF _ new(1,2)] by blast+
  have "logging_ok st s'"
    using ok same k(1) by (intro logging_ok_step [OF ok step, of "new @ k"]) (simp_all add: logging_ok_def)
  moreover have "midline s' = midline s" using x by (intro midline_update [OF i same(2) _ k(2)]) auto
  ultimately show ?thesis using x same new(3) by (auto simp: delivers_def line_end_def)
qed

text \<open>Two threads cannot both be in the middle of a line.\<close>

lemma one_midline:
  assumes one: "one_stdout st" and ok: "logging_ok st s" and "midline s"
    and aid: "aid < length (ls_appenders st)" "\<not> is_file st aid" "sy_owner s (Appender_lock aid) = Some i"
  shows "\<exists>t k. sy_threads s ! i = I_cout t # k"
proof -
  obtain j t k where j: "j < length (sy_threads s)" "sy_threads s ! j = I_cout t # k"
    using assms(3) by (auto simp: midline_def)
  then obtain b where "b < length (ls_appenders st)" "\<not> is_file st b" "sy_owner s (Appender_lock b) = Some j"
    using midline_owner [OF ok] by blast
  then have "j = i" using one aid by (auto simp: one_stdout_def)
  then show ?thesis using j by blast
qed

text \<open>The end of a line on the standard output.\<close>

lemma deliver_cout:
  assumes one: "one_stdout st" and ok: "logging_ok st s" and step: "thread_step lib env i s = Some (Inr s')"
    and x: "sy_threads s ! i = I_cout t # k" and a: "a < length (ls_appenders st)"
    and s': "s' = s\<lparr>sy_log := add_cout newline (sy_log s), sy_threads := (sy_threads s)[i := k]\<rparr>"
  shows "logging_ok st s' \<and> delivers env st a i s s' []"
proof -
  note i = thread_step_index [OF step]
  have same: "same_config st (sy_log s)" using ok by (simp add: logging_ok_def)
  have "thread_ok st (I_cout t # k)" using ok i x unfolding logging_ok_def by metis
  then have xk: "shape st k" "no_cout k" by (simp_all add: thread_ok_def)
  then have k: "thread_ok st k" by (cases k) (auto simp: thread_ok_def no_cout_def)
  have ok': "logging_ok st s'"
    using same k unfolding s' by (intro logging_ok_step [OF ok step [unfolded s'], of k]) (simp_all add: same_config_def)
  obtain aid where aid: "aid < length (ls_appenders st)" "\<not> is_file st aid" "sy_owner s (Appender_lock aid) = Some i"
    using midline_owner [OF ok i x] by blast
  have "\<not> midline s'"
  proof
    assume "midline s'"
    then obtain t k' where "sy_threads s' ! i = I_cout t # k'"
      using one_midline [OF one ok' _ aid(1,2), of i] aid(3) by (auto simp: s')
    then show False using xk(2) i by (auto simp: s' no_cout_def)
  qed
  moreover have "midline s" using i x by (auto simp: midline_def)
  moreover have "text_at (add_cout newline (sy_log s)) a =
      text_at (sy_log s) a @ (if is_file st a then [] else newline)"
    using same_config_sink [OF same a] by (auto simp: text_at_def is_file_def split: sink.splits)
  ultimately show ?thesis using ok' x by (auto simp: s' delivers_def line_end_def)
qed

text \<open>A line.\<close>

lemma deliver_write:
  assumes one: "one_stdout st" and ok: "logging_ok st s" and step: "thread_step lib env i s = Some r"
    and x: "sy_threads s ! i = I_write aid level ev # k" and a: "a < length (ls_appenders st)"
  shows "\<exists>s'. r = Inr s' \<and> logging_ok st s' \<and>
    delivers env st a i s s' (if aid = a then [line env st a level ev] else [])"
proof -
  note i = thread_step_index [OF step]
  have same: "same_config st (sy_log s)" using ok by (simp add: logging_ok_def)
  have "thread_ok st (I_write aid level ev # k)" using ok i x unfolding logging_ok_def by metis
  then have w: "log_code st (I_write aid level ev)" and xk: "follows st (I_write aid level ev) k" "shape st k" "no_cout k"
    by (simp_all add: thread_ok_def)
  have aid: "aid < length (ls_appenders st)" using w by (auto simp: attachable_def)
  define new where "new = (if is_file st aid then [] else [I_cout newline])"
  obtain st' where st': "instr_step lib env (I_write aid level ev) (sy_log s) = Inr (new, st')" "same_config st st'"
    "a \<noteq> aid \<Longrightarrow> is_file st a \<or> is_file st aid \<Longrightarrow> text_at st' a = text_at (sy_log s) a"
    "text_at st' aid @ (if is_file st aid then [] else newline) = text_at (sy_log s) aid @ line env st aid level ev"
    using write_step [OF same w, of lib env] a unfolding new_def writes_line_def by metis
  let ?s = "s\<lparr>sy_log := st', sy_threads := (sy_threads s)[i := new @ k]\<rparr>"
  have r: "r = Inr ?s" using step i x st'(1) by (simp add: thread_step_work)
  have "thread_ok st (new @ k)"
    using xk aid by (auto simp: thread_ok_def new_def follows_def no_cout_tl)
  then have ok': "logging_ok st ?s"
    using step r st'(2) by (intro logging_ok_step [OF ok, of lib env i _ "new @ k"]) simp_all
  have mid: "midline ?s \<longleftrightarrow> midline s \<or> \<not> is_file st aid"
  proof (cases "is_file st aid")
    case True
    then show ?thesis using xk(3) x by (subst midline_update [OF i]) (auto simp: new_def no_cout_def)
  next
    case False
    then have "sy_threads ?s ! i = I_cout newline # k" using i by (simp add: new_def)
    then show ?thesis using False i by (auto simp: midline_def)
  qed
  have not_mid: "\<not> midline s" if "\<not> is_file st aid"
    using one_midline [OF one ok _ aid that, of i] write_owner(1) [OF ok i x] x by auto
  have "text_at st' a @ line_end st ?s a = text_at (sy_log s) a @ line_end st s a @
      (if aid = a then line env st a level ev else [])"
    using st'(3,4) not_mid mid one a aid by (cases "aid = a") (auto simp: line_end_def one_stdout_def)
  moreover have "pending_code env st a new = []" by (simp add: new_def)
  ultimately show ?thesis using r ok' x by (intro exI [where x = ?s]) (auto simp: delivers_def)
qed

lemma deliver_step:
  assumes wf: "wf_log st" and one: "one_stdout st" and ok: "logging_ok st s"
    and step: "thread_step lib env i s = Some r" and a: "a < length (ls_appenders st)"
  shows "\<exists>s' ls. r = Inr s' \<and> logging_ok st s' \<and> delivers env st a i s s' ls \<and> length ls \<le> 1"
  using step
proof (cases rule: thread_step_cases)
  case (lock l k)
  then show ?thesis
    using deliver_nothing [OF ok step [unfolded lock(3)] lock(1), where new = "[]"] by (fastforce simp: no_cout_def)
next
  case (unlock l k)
  then show ?thesis
    using deliver_nothing [OF ok step [unfolded unlock(2)] unlock(1), where new = "[]"] by (fastforce simp: no_cout_def)
next
  case (work x k)
  have same: "same_config st (sy_log s)" and x: "log_code st x"
    using ok thread_step_index [OF step] work(1) by (auto simp: logging_ok_def thread_ok_def dest!: spec)
  consider (begins) aid level ev where "x = I_write aid level ev" | (cout) t where "x = I_cout t"
    | (quiet) "\<And>aid level ev. x \<noteq> I_write aid level ev" "\<And>t. x \<noteq> I_cout t" by blast
  then show ?thesis
  proof cases
    case quiet
    obtain new where new: "instr_step lib env x (sy_log s) = Inr (new, sy_log s)" "shape st new" "no_cout new"
      "pending_code env st a new = pending env st a x"
      using quiet_step [OF wf same x work(2,3) quiet] by blast
    have "r = Inr (s\<lparr>sy_threads := (sy_threads s)[i := new @ k]\<rparr>)" using work(4) new(1) by simp
    then show ?thesis
      using deliver_nothing [OF ok _ work(1) quiet(2), where new = new] step new(2-4) by fastforce
  next
    case (cout t)
    then have "r = Inr (s\<lparr>sy_log := add_cout newline (sy_log s), sy_threads := (sy_threads s)[i := k]\<rparr>)"
      using work(4) x by simp
    then show ?thesis using deliver_cout [OF one ok _ _ a] step work(1) cout by fastforce
  next
    case (begins aid level ev)
    then show ?thesis using deliver_write [OF one ok step _ a] work(1) by fastforce
  qed
qed

lemma interleaves_more:
  assumes "interleaves (xss[i := xs]) zs" "i < length xss" "xss ! i = ls @ xs" "length ls \<le> 1"
  shows "interleaves xss (ls @ zs)"
proof (cases ls)
  case Nil
  then have "xss[i := xs] = xss" using assms(3) list_update_id [of xss i] by simp
  then show ?thesis using assms(1) Nil by simp
next
  case (Cons l ls')
  then have "ls' = []" using assms(4) by simp
  then show ?thesis using assms Cons interleaves_Cons [of i xss l xs zs] by simp
qed

lemma deliver_run:
  assumes wf: "wf_log st" and one: "one_stdout st" and a: "a < length (ls_appenders st)"
  shows "logging_ok st s \<Longrightarrow> run_schedule lib env sched s = Inr s' \<Longrightarrow> all_returned s' \<Longrightarrow>
    \<exists>lines. interleaves (map (pending_code env st a) (sy_threads s)) lines \<and>
      text_at (sy_log s') a = text_at (sy_log s) a @ line_end st s a @ concat lines"
proof (induction sched arbitrary: s)
  case Nil
  then have over: "sy_threads s ! i = []" if "i < length (sy_threads s)" for i
    using that by (simp add: all_returned_def list_all_length)
  then have "\<not> midline s" using over by (auto simp: midline_def)
  moreover have "interleaves (map (pending_code env st a) (sy_threads s)) []"
    using over by (intro interleaves_Nil) (simp add: list_all_length)
  ultimately show ?case using Nil.prems(2) by (intro exI [where x = "[]"]) (simp add: line_end_def)
next
  case (Cons i sched)
  show ?case
  proof (cases "thread_step lib env i s")
    case None
    then show ?thesis using Cons by simp
  next
    case (Some r)
    obtain s1 ls where s1: "r = Inr s1" "logging_ok st s1" "delivers env st a i s s1 ls" "length ls \<le> 1"
      using deliver_step [OF wf one Cons.prems(1) Some a] by blast
    obtain zs where zs: "interleaves (map (pending_code env st a) (sy_threads s1)) zs"
      "text_at (sy_log s') a = text_at (sy_log s1) a @ line_end st s1 a @ concat zs"
      using Cons.IH [OF s1(2)] Cons.prems(2,3) Some s1(1) by auto
    obtain k' where k': "sy_threads s1 = (sy_threads s)[i := k']"
      "pending_code env st a (sy_threads s ! i) = ls @ pending_code env st a k'"
      and out: "text_at (sy_log s1) a @ line_end st s1 a = text_at (sy_log s) a @ line_end st s a @ concat ls"
      using s1(3) by (auto simp: delivers_def)
    have "interleaves (map (pending_code env st a) (sy_threads s)) (ls @ zs)"
      using zs(1) k' s1(4) thread_step_index [OF Some]
      by (intro interleaves_more [where i = i and xs = "pending_code env st a k'"]) (simp_all add: map_update)
    moreover have "text_at (sy_log s') a = text_at (sy_log s) a @ line_end st s a @ concat (ls @ zs)"
      using zs(2) arg_cong [OF out, of "\<lambda>t. t @ concat zs"] by simp
    ultimately show ?thesis by blast
  qed
qed

lemma pending_calls:
  "list_all (logs_only st) k \<Longrightarrow> pending_code env st a k = concat (map (call_lines env st a) k)"
proof (induction k)
  case (Cons x k)
  then have "pending env st a x = call_lines env st a x"
    by (cases "(st, x)" rule: logs_only.cases) simp_all
  with Cons show ?case by simp
qed simp

text \<open>C4: concurrent logging delivers: when threads only log, on files that are open and not due to be
  opened again and with at most one appender for the standard output, then whatever the order of
  their steps, once all of them have returned every appender has written, behind what it had
  written before, the lines that the calls of the threads route to it: each line once and whole,
  none in the middle of another, and those of one thread in the order in which it logged them.\<close>

theorem concurrent_logging_delivers:
  assumes "wf_log st" and "one_stdout st" and "list_all (list_all (logs_only st)) threads"
    and "run_schedule lib env sched (init_system st threads) = Inr s" and "all_returned s"
    and "a < length (ls_appenders st)"
  shows "\<exists>lines. interleaves (map (\<lambda>k. concat (map (call_lines env st a) k)) threads) lines \<and>
    text_at (sy_log s) a = text_at st a @ concat lines"
proof -
  let ?s = "init_system st threads"
  obtain lines where l: "interleaves (map (pending_code env st a) (sy_threads ?s)) lines"
    "text_at (sy_log s) a = text_at (sy_log ?s) a @ line_end st ?s a @ concat lines"
    using deliver_run [OF assms(1,2,6) logging_ok_init(1) [OF assms(1,3)] assms(4,5)] by blast
  have eq: "map (pending_code env st a) threads = map (\<lambda>k. concat (map (call_lines env st a) k)) threads"
    using assms(3) pending_calls unfolding list_all_iff by (intro map_cong refl) blast
  have "interleaves (map (\<lambda>k. concat (map (call_lines env st a) k)) threads) lines"
    using l(1) unfolding init_system_def system.simps eq .
  moreover have "line_end st ?s a = []" using logging_ok_init(2) [OF assms(1,3)] by (simp add: line_end_def)
  then have "text_at (sy_log s) a = text_at st a @ concat lines" using l(2) by (simp add: init_system_def)
  ultimately show ?thesis by blast
qed

definition two_loggers :: "instr list list" where
  "two_loggers =
     [[I_call (C_P_LOG \<lparr>site_file = ''a.cpp'', site_line = 1, site_thread = 1, site_time = 0\<rparr> 0 INFO ''one'')],
      [I_call (C_P_LOG \<lparr>site_file = ''b.cpp'', site_line = 2, site_thread = 2, site_time = 0\<rparr> 0 WARN ''two''),
       I_call (C_P_LOG \<lparr>site_file = ''b.cpp'', site_line = 3, site_thread = 2, site_time = 0\<rparr> 0 DEBUG ''quiet'')]]"

theorem concurrent_logging_delivers_witness:
  "\<exists>s sched lines. run_schedule sample_yaml sample_env sched (init_system init_log_state two_loggers) = Inr s \<and>
     all_returned s \<and>
     interleaves (map (\<lambda>k. concat (map (call_lines sample_env init_log_state 0) k)) two_loggers) lines \<and>
     text_at (sy_log s) 0 = concat lines"
proof -
  have one: "one_stdout init_log_state"
    by (simp add: one_stdout_def init_log_state_eq)
  have logs: "list_all (list_all (logs_only init_log_state)) two_loggers"
    by (simp add: two_loggers_def calm_def init_log_state_eq new_StdOutAppender_def)
  have "programs_ok init_log_state two_loggers"
    using logs logs_only_code by (auto simp: programs_ok_def list_all_iff)
  then obtain sched s where s: "run_schedule sample_yaml sample_env sched (init_system init_log_state two_loggers) = Inr s"
    "all_returned s"
    using some_run_returns [OF valid_init [OF sample_ok(1) wf_init]] by blast
  obtain lines where lines: "interleaves (map (\<lambda>k. concat (map (call_lines sample_env init_log_state 0) k)) two_loggers) lines"
    "text_at (sy_log s) 0 = text_at init_log_state 0 @ concat lines"
    using concurrent_logging_delivers [OF wf_init one logs s, of 0] by (auto simp: init_log_state_eq)
  moreover have "text_at init_log_state 0 = []"
    by (simp add: text_at_def init_log_state_eq new_StdOutAppender_def)
  ultimately show ?thesis using s by auto
qed

end
