(* ===== verification/LogThreadsRace.thy ===== *)
theory LogThreadsRace
  imports LogThreadsDeliver
begin

text \<open>
  Two places where the locks of \<open>primo/log/Logger.cpp\<close> do not cover what they are there for: whether a
  file is due to be opened again is tested, and the time noted, outside the lock of the appender, and
  \<open>AddAppender\<close> gives the appender a formatter after it has released that lock.
\<close>

definition text_event :: "nat \<Rightarrow> u64 \<Rightarrow> string \<Rightarrow> log_event" where
  "text_event lid time s = event_write s (new_LogEvent lid INFO [] 0 0 0 0 time [])"

definition plain_formatter :: formatter where
  "plain_formatter = \<lparr>fm_pattern = ''%m'', fm_items = [MessageFormatItem], fm_error = False\<rparr>"

text \<open>Two loggers that share a file appender, last opened at time 0, and two threads that log at time 10.\<close>

definition shared_file :: log_state where
  "shared_file =
     \<lparr>ls_loggers = [new_Logger ''root'',
        (new_Logger ''a'')\<lparr>lg_appenders := [0], lg_root := Some 0\<rparr>,
        (new_Logger ''b'')\<lparr>lg_appenders := [0], lg_root := Some 0\<rparr>],
      ls_appenders = [\<lparr>ap_level = DEBUG, ap_has_formatter = True, ap_formatter = Some plain_formatter,
        ap_sink = FileAppender ''f'' \<lparr>os_open = True, os_fail = False, os_data = ''old ''\<rparr> 0\<rparr>],
      ls_mgr = [(''a'', 1), (''b'', 2), (''root'', 0)], ls_root = 0, ls_cout = []\<rparr>"

definition log_at_once :: "instr list list" where
  "log_at_once =
     [[I_call (C_Log 1 INFO (text_event 1 10 ''one ''))],
      [I_call (C_Log 2 INFO (text_event 2 10 ''two ''))]]"

definition file_after :: "nat list \<Rightarrow> string option" where
  "file_after sched =
     (case run_schedule sample_yaml sample_env sched (init_system shared_file log_at_once) of
        Inl e \<Rightarrow> None
      | Inr s \<Rightarrow> if all_returned s then Some (text_at (sy_log s) 0) else None)"

text \<open>A line can be lost that has just been written: of two threads that log to a file appender through
  different loggers when the file is due to be opened again, both can find it due before the first
  has noted the time; then the second opens, and empties, the file again after the first has
  written its line. One after the other, the same two calls leave both lines.\<close>

theorem reopening_race_loses_line:
  "file_after (replicate 20 0 @ replicate 20 1) = Some ''one two '' \<and>
   file_after (replicate 5 0 @ replicate 5 1 @ replicate 20 0 @ replicate 20 1) = Some ''two ''"
proof
  show "file_after (replicate 20 0 @ replicate 20 1) = Some ''one two ''" by code_simp
  show "file_after (replicate 5 0 @ replicate 5 1 @ replicate 20 0 @ replicate 20 1) = Some ''two ''" by code_simp
qed

text \<open>A thread gives an appender its own formatter while another attaches it to a logger.\<close>

definition bare_appender :: log_state where
  "bare_appender = shared_file\<lparr>ls_appenders := [new_StdOutAppender],
     ls_loggers := [(new_Logger ''root'')\<lparr>lg_formatter := Some (plain_formatter\<lparr>fm_pattern := ''root''\<rparr>)\<rparr>],
     ls_mgr := [(''root'', 0)]\<rparr>"

definition formatter_after :: "nat list \<Rightarrow> (bool \<times> string) option" where
  "formatter_after sched =
     (case run_schedule sample_yaml sample_env sched (init_system bare_appender
         [[I_call (C_AddAppender 0 0)], [I_call (C_appender_SetFormatter 0 (Some plain_formatter))]]) of
        Inl e \<Rightarrow> None
      | Inr s \<Rightarrow>
          (let ap = ls_appenders (sy_log s) ! 0
           in if all_returned s then Some (ap_has_formatter ap, fm_pattern (the (ap_formatter ap))) else None))"

lemma attaching_overwrites_formatter:
  "formatter_after (replicate 20 0 @ replicate 20 1) = Some (True, ''%m'')"
  "formatter_after (replicate 20 1 @ replicate 20 0) = Some (True, ''%m'')"
  "formatter_after (replicate 5 0 @ replicate 20 1 @ replicate 20 0) = Some (True, ''root'')"
  by code_simp+

end
