(* ===== verification/Locks.thy ===== *)
theory Locks
  imports Prelude
begin

text \<open>
  Locks: the lock classes and scope guards of \<open>primo/thread.h\<close>, and how \<open>CfgVar\<close> of \<open>primo/config.h\<close>
  uses its read-write lock. A lock is its state as the system keeps it: who holds it. Taking a lock
  that cannot be taken now blocks, which is \<open>None\<close>; a lock that the calling thread holds itself in
  a conflicting way blocks for ever. The first section states what a scope guard relies on as a
  locale; every lock class interprets it.
\<close>

subsection \<open>Scope guards\<close>

text \<open>\<open>ScopeLockImpl\<close>, \<open>ReadScopeLockImpl\<close> and \<open>WriteScopeLockImpl\<close> are the same code around \<open>lock\<close>,
  \<open>rdlock\<close> and \<open>wrlock\<close>. A guard is the state of its lock and \<open>mLocked\<close>.\<close>

definition ScopeLock :: "('m \<Rightarrow> 'm option) \<Rightarrow> 'm \<Rightarrow> ('m \<times> bool) option" where
  "ScopeLock lock mutex = map_option (\<lambda>m. (m, True)) (lock mutex)"

definition guard_lock :: "('m \<Rightarrow> 'm option) \<Rightarrow> 'm \<times> bool \<Rightarrow> ('m \<times> bool) option" where
  "guard_lock lock g =
     (case g of (mutex, mLocked) \<Rightarrow>
        if \<not> mLocked then map_option (\<lambda>m. (m, True)) (lock mutex) else Some (mutex, mLocked))"

definition guard_unlock :: "('m \<Rightarrow> 'm) \<Rightarrow> 'm \<times> bool \<Rightarrow> 'm \<times> bool" where
  "guard_unlock unlock g =
     (case g of (mutex, mLocked) \<Rightarrow> if mLocked then (unlock mutex, False) else (mutex, mLocked))"

definition guard_destroy :: "('m \<Rightarrow> 'm) \<Rightarrow> 'm \<times> bool \<Rightarrow> 'm" where
  "guard_destroy unlock g = fst (guard_unlock unlock g)"

text \<open>A guard used by one thread while nobody else touches the lock: construction, then calls of
  \<open>lock\<close> (\<open>True\<close>) and \<open>unlock\<close> (\<open>False\<close>), then destruction.\<close>

fun guard_calls :: "('m \<Rightarrow> 'm option) \<Rightarrow> ('m \<Rightarrow> 'm) \<Rightarrow> bool list \<Rightarrow> 'm \<times> bool \<Rightarrow> ('m \<times> bool) option" where
  "guard_calls lock unlock [] g = Some g"
| "guard_calls lock unlock (True # cs) g = Option.bind (guard_lock lock g) (guard_calls lock unlock cs)"
| "guard_calls lock unlock (False # cs) g = guard_calls lock unlock cs (guard_unlock unlock g)"

definition guarded :: "('m \<Rightarrow> 'm option) \<Rightarrow> ('m \<Rightarrow> 'm) \<Rightarrow> bool list \<Rightarrow> 'm \<Rightarrow> 'm option" where
  "guarded lock unlock cs mutex =
     map_option (guard_destroy unlock) (Option.bind (ScopeLock lock mutex) (guard_calls lock unlock cs))"

locale lockable =
  fixes lock :: "'m \<Rightarrow> 'm option" and unlock :: "'m \<Rightarrow> 'm"
  assumes unlock_lock: "lock m = Some m' \<Longrightarrow> unlock m' = m"
begin

lemma guard_calls_balanced:
  "lock m = Some m' \<Longrightarrow> g = (m', True) \<or> g = (m, False) \<Longrightarrow>
   \<exists>g'. guard_calls lock unlock cs g = Some g' \<and> (g' = (m', True) \<or> g' = (m, False))"
proof (induction cs arbitrary: g)
  case (Cons c cs)
  have "unlock m' = m" using Cons.prems(1) by (rule unlock_lock)
  then show ?case
    using Cons.IH [OF Cons.prems(1)] Cons.prems
    by (cases c) (auto simp: guard_lock_def guard_unlock_def)
qed auto

lemma guarded_balanced: "guarded lock unlock cs m = (if lock m = None then None else Some m)"
proof (cases "lock m")
  case (Some m')
  then obtain g' where g': "guard_calls lock unlock cs (m', True) = Some g'" "g' = (m', True) \<or> g' = (m, False)"
    using guard_calls_balanced [OF Some] by blast
  then have "guard_destroy unlock g' = m"
    using unlock_lock [OF Some] by (auto simp: guard_destroy_def guard_unlock_def)
  with Some g'(1) show ?thesis by (simp add: guarded_def ScopeLock_def)
qed (simp add: guarded_def ScopeLock_def)

end

subsection \<open>The lock classes\<close>

text \<open>\<open>Mutex\<close>: the thread that holds it.\<close>

definition mutex_lock :: "nat \<Rightarrow> nat option \<Rightarrow> nat option option" where
  "mutex_lock t m = (if m = None then Some (Some t) else None)"

definition mutex_unlock :: "nat option \<Rightarrow> nat option" where
  "mutex_unlock m = None"

text \<open>\<open>SpinLock\<close>: whether it is taken.\<close>

definition spin_lock :: "bool \<Rightarrow> bool option" where
  "spin_lock m = (if m then None else Some True)"

definition spin_unlock :: "bool \<Rightarrow> bool" where
  "spin_unlock m = False"

text \<open>\<open>RWMutex\<close>: the threads that hold it for reading, as often as they do, and the one that holds it
  for writing. A reader is let in whenever nobody writes.\<close>

record rwlock =
  rw_readers :: "nat list"
  rw_writer :: "nat option"

definition free_rwlock :: rwlock where
  "free_rwlock = \<lparr>rw_readers = [], rw_writer = None\<rparr>"

definition rdlock :: "nat \<Rightarrow> rwlock \<Rightarrow> rwlock option" where
  "rdlock t rw = (if rw_writer rw = None then Some (rw\<lparr>rw_readers := t # rw_readers rw\<rparr>) else None)"

definition wrlock :: "nat \<Rightarrow> rwlock \<Rightarrow> rwlock option" where
  "wrlock t rw =
     (if rw_writer rw = None \<and> rw_readers rw = [] then Some (rw\<lparr>rw_writer := Some t\<rparr>) else None)"

definition rw_unlock :: "nat \<Rightarrow> rwlock \<Rightarrow> rwlock" where
  "rw_unlock t rw =
     (if rw_writer rw = Some t then rw\<lparr>rw_writer := None\<rparr>
      else rw\<lparr>rw_readers := remove1 t (rw_readers rw)\<rparr>)"

text \<open>\<open>NullMutex\<close> and \<open>NullRWMutex\<close>.\<close>

definition null_lock :: "unit \<Rightarrow> unit option" where
  "null_lock m = Some m"

definition null_unlock :: "unit \<Rightarrow> unit" where
  "null_unlock m = m"

interpretation mutex: lockable "mutex_lock t" mutex_unlock for t
  by unfold_locales (auto simp: mutex_lock_def mutex_unlock_def split: if_splits)

interpretation spin: lockable spin_lock spin_unlock
  by unfold_locales (auto simp: spin_lock_def spin_unlock_def split: if_splits)

interpretation reader: lockable "rdlock t" "rw_unlock t" for t
  by unfold_locales (auto simp: rdlock_def rw_unlock_def split: if_splits)

interpretation writer: lockable "wrlock t" "rw_unlock t" for t
  by unfold_locales (auto simp: wrlock_def rw_unlock_def split: if_splits)

interpretation null: lockable null_lock null_unlock
  by unfold_locales (simp add: null_lock_def null_unlock_def)

text \<open>Scope guards are balanced: whatever sequence of \<open>lock\<close> and \<open>unlock\<close> a thread calls on a guard
  between its construction and its destruction, once the construction has got the lock no later
  call blocks, and at the end the lock is as it was before; this holds of the guards of every lock
  class, for reading and for writing.\<close>

theorem scope_guards_balanced:
  "guarded (mutex_lock t) mutex_unlock cs m = (if mutex_lock t m = None then None else Some m) \<and>
   guarded spin_lock spin_unlock cs b = (if spin_lock b = None then None else Some b) \<and>
   guarded (rdlock t) (rw_unlock t) cs rw = (if rdlock t rw = None then None else Some rw) \<and>
   guarded (wrlock t) (rw_unlock t) cs rw = (if wrlock t rw = None then None else Some rw) \<and>
   guarded null_lock null_unlock cs u = Some u"
  using mutex.guarded_balanced spin.guarded_balanced reader.guarded_balanced writer.guarded_balanced
    null.guarded_balanced [of cs u] by (simp add: null_lock_def)

subsection \<open>Listeners that use their own variable\<close>

text \<open>What the operations of \<open>CfgVar\<close> do to the variable's lock. A listener runs while \<open>SetValue\<close> holds
  the lock for reading; \<open>ops\<close> lists the operations on the same variable that the listeners perform,
  in order, and \<open>equal\<close> says that the value set is the current one.\<close>

datatype lock_action = Rd_lock | Wr_lock | Unlock

datatype var_op =
    Op_GetValue | Op_ToString | Op_GetListener
  | Op_AddListener | Op_DelListener | Op_ClearListener
  | Op_SetValue bool "var_op list"

fun op_actions :: "var_op \<Rightarrow> lock_action list" where
  "op_actions Op_GetValue = [Rd_lock, Unlock]"
| "op_actions Op_ToString = [Rd_lock, Unlock]"
| "op_actions Op_GetListener = [Rd_lock, Unlock]"
| "op_actions Op_AddListener = [Wr_lock, Unlock]"
| "op_actions Op_DelListener = [Wr_lock, Unlock]"
| "op_actions Op_ClearListener = [Wr_lock, Unlock]"
| "op_actions (Op_SetValue equal ops) =
     (if equal then [Rd_lock, Unlock] else Rd_lock # concat (map op_actions ops) @ [Unlock, Wr_lock, Unlock])"

fun run_actions :: "nat \<Rightarrow> lock_action list \<Rightarrow> rwlock \<Rightarrow> rwlock option" where
  "run_actions t [] rw = Some rw"
| "run_actions t (Rd_lock # as) rw = Option.bind (rdlock t rw) (run_actions t as)"
| "run_actions t (Wr_lock # as) rw = Option.bind (wrlock t rw) (run_actions t as)"
| "run_actions t (Unlock # as) rw = run_actions t as (rw_unlock t rw)"

fun modifies :: "var_op \<Rightarrow> bool" where
  "modifies Op_AddListener = True"
| "modifies Op_DelListener = True"
| "modifies Op_ClearListener = True"
| "modifies (Op_SetValue equal ops) = (\<not> equal)"
| "modifies _ = False"

lemma read_held:
  "rw_writer rw = None \<Longrightarrow>
   run_actions t (Rd_lock # as) rw = run_actions t as (rw\<lparr>rw_readers := t # rw_readers rw\<rparr>)"
  "rw_writer rw = None \<Longrightarrow> rw_readers rw = t # rs \<Longrightarrow>
   run_actions t (Unlock # as) rw = run_actions t as (rw\<lparr>rw_readers := rs\<rparr>)"
  "rw_readers rw \<noteq> [] \<Longrightarrow> run_actions t (Wr_lock # as) rw = None"
  by (simp_all add: rdlock_def rw_unlock_def wrlock_def)

text \<open>Operations one after the other, each of which blocks or leaves the lock as it is.\<close>

lemma run_all:
  "(\<And>x as. x \<in> set xs \<Longrightarrow> run_actions t (f x @ as) rw = (if p x then None else run_actions t as rw)) \<Longrightarrow>
   run_actions t (concat (map f xs) @ as) rw = (if list_ex p xs then None else run_actions t as rw)"
  by (induction xs) simp_all

lemma actions_under_read_lock:
  "rw_writer rw = None \<Longrightarrow> rw_readers rw \<noteq> [] \<Longrightarrow>
   run_actions t (op_actions op @ as) rw = (if modifies op then None else run_actions t as rw)"
proof (induction op arbitrary: rw as)
  case (Op_SetValue equal ops)
  let ?rw = "rw\<lparr>rw_readers := t # rw_readers rw\<rparr>"
  have inner: "run_actions t (concat (map op_actions ops) @ bs) ?rw
      = (if list_ex modifies ops then None else run_actions t bs ?rw)" for bs
    by (rule run_all) (use Op_SetValue in simp)
  show ?case
    using Op_SetValue.prems inner by (simp add: read_held del: run_actions.simps(2-4))
qed (simp_all add: read_held del: run_actions.simps(2-4))


subsection \<open>The registry\<close>

text \<open>What the operations of \<open>Config\<close> do to the lock of the registry; \<open>Visit\<close> calls its argument for
  each variable while it holds the lock for reading, and \<open>ops\<close> lists what these calls do to the
  registry.\<close>

datatype reg_op = Reg_LookUp_default | Reg_LookUp | Reg_LookUpBase | Reg_Visit "reg_op list"

fun reg_actions :: "reg_op \<Rightarrow> lock_action list" where
  "reg_actions Reg_LookUp_default = [Wr_lock, Unlock]"
| "reg_actions Reg_LookUp = [Rd_lock, Unlock]"
| "reg_actions Reg_LookUpBase = [Rd_lock, Unlock]"
| "reg_actions (Reg_Visit ops) = Rd_lock # concat (map reg_actions ops) @ [Unlock]"

fun looks_up_default :: "reg_op \<Rightarrow> bool" where
  "looks_up_default Reg_LookUp_default = True"
| "looks_up_default (Reg_Visit ops) = list_ex looks_up_default ops"
| "looks_up_default _ = False"

lemma reg_under_read_lock:
  "rw_writer rw = None \<Longrightarrow> rw_readers rw \<noteq> [] \<Longrightarrow>
   run_actions t (reg_actions op @ as) rw = (if looks_up_default op then None else run_actions t as rw)"
proof (induction op arbitrary: rw as)
  case (Reg_Visit ops)
  let ?rw = "rw\<lparr>rw_readers := t # rw_readers rw\<rparr>"
  have inner: "run_actions t (concat (map reg_actions ops) @ bs) ?rw
      = (if list_ex looks_up_default ops then None else run_actions t bs ?rw)" for bs
    by (rule run_all) (use Reg_Visit in simp)
  show ?case
    using Reg_Visit.prems inner by (simp add: read_held del: run_actions.simps(2-4))
qed (simp_all add: read_held del: run_actions.simps(2-4))

text \<open>A visitor must not look up a variable with a default value, not even one that exists: it would
  wait for its own thread for ever. It may look up variables in the other ways and visit again.\<close>

theorem visitors_must_not_create:
  "run_actions t (reg_actions (Reg_Visit ops)) free_rwlock
     = (if list_ex looks_up_default ops then None else Some free_rwlock)"
proof -
  have "run_actions t (concat (map reg_actions ops) @ bs) (free_rwlock\<lparr>rw_readers := [t]\<rparr>)
      = (if list_ex looks_up_default ops then None else run_actions t bs (free_rwlock\<lparr>rw_readers := [t]\<rparr>))" for bs
    by (rule run_all) (simp add: reg_under_read_lock free_rwlock_def)
  then show ?thesis
    by (simp add: free_rwlock_def rdlock_def rw_unlock_def)
qed

subsection \<open>Two threads set the same variable\<close>

text \<open>The stages of \<open>SetValue\<close> in each thread: before, inside the read lock after the listeners have
  been told, between the two locks, and after. \<open>want i\<close> is the value thread \<open>i\<close> sets;
  \<open>told\<close> lists the notifications, oldest first.\<close>

datatype set_pc = Set_start | Set_notified | Set_between | Set_done

record 'a set_state =
  sv_lock :: rwlock
  sv_val :: 'a
  sv_pc :: "nat \<Rightarrow> set_pc"
  sv_told :: "(nat \<times> 'a \<times> 'a) list"

inductive set_step :: "(nat \<Rightarrow> 'a) \<Rightarrow> 'a set_state \<Rightarrow> 'a set_state \<Rightarrow> bool" for want where
  same: "sv_pc st i = Set_start \<Longrightarrow> rdlock i (sv_lock st) \<noteq> None \<Longrightarrow> sv_val st = want i \<Longrightarrow>
    set_step want st (st\<lparr>sv_pc := (sv_pc st)(i := Set_done)\<rparr>)"
| tell: "sv_pc st i = Set_start \<Longrightarrow> rdlock i (sv_lock st) = Some rw \<Longrightarrow> sv_val st \<noteq> want i \<Longrightarrow>
    set_step want st (st\<lparr>sv_lock := rw, sv_pc := (sv_pc st)(i := Set_notified),
                        sv_told := sv_told st @ [(i, sv_val st, want i)]\<rparr>)"
| leave: "sv_pc st i = Set_notified \<Longrightarrow>
    set_step want st (st\<lparr>sv_lock := rw_unlock i (sv_lock st), sv_pc := (sv_pc st)(i := Set_between)\<rparr>)"
| store: "sv_pc st i = Set_between \<Longrightarrow> wrlock i (sv_lock st) = Some rw \<Longrightarrow>
    set_step want st (st\<lparr>sv_lock := rw_unlock i rw, sv_val := want i, sv_pc := (sv_pc st)(i := Set_done)\<rparr>)"

definition set_init :: "'a \<Rightarrow> 'a set_state" where
  "set_init v = \<lparr>sv_lock = free_rwlock, sv_val = v, sv_pc = (\<lambda>i. Set_start), sv_told = []\<rparr>"

text \<open>Setting a value is not atomic: of two threads that set different new values, the second to
  tell the listeners can be the first to store, so that the listeners heard last of one value while
  the variable keeps the other, and nobody is told of the change that overwrote it.\<close>

theorem concurrent_set_values:
  assumes "v \<noteq> a" and "v \<noteq> b"
  shows "\<exists>st. (set_step (\<lambda>i. if i = 0 then a else b))\<^sup>*\<^sup>* (set_init v) st \<and>
    sv_pc st 0 = Set_done \<and> sv_pc st 1 = Set_done \<and> sv_lock st = free_rwlock \<and>
    sv_told st = [(0, v, a), (1, v, b)] \<and> sv_val st = a"
proof -
  let ?w = "\<lambda>i :: nat. if i = 0 then a else b" and ?p = "\<lambda>i :: nat. Set_start"
  let ?rd = "\<lambda>rs. \<lparr>rw_readers = rs, rw_writer = None\<rparr>"
  let ?s = "\<lambda>rs x p told. \<lparr>sv_lock = ?rd rs, sv_val = x, sv_pc = p, sv_told = told\<rparr>"
  have 1: "set_step ?w (set_init v) (?s [0] v (?p(0 := Set_notified)) [(0, v, a)])"
    using set_step.tell [of "set_init v" 0 "?rd [0]" ?w] assms
    by (simp add: set_init_def free_rwlock_def rdlock_def)
  have 2: "set_step ?w (?s [0] v (?p(0 := Set_notified)) [(0, v, a)])
      (?s [1, 0] v (?p(0 := Set_notified, 1 := Set_notified)) [(0, v, a), (1, v, b)])"
    using set_step.tell [of "?s [0] v (?p(0 := Set_notified)) [(0, v, a)]" 1 "?rd [1, 0]" ?w] assms
    by (simp add: rdlock_def)
  have 3: "set_step ?w (?s [1, 0] v (?p(0 := Set_notified, 1 := Set_notified)) t)
      (?s [0] v (?p(0 := Set_notified, 1 := Set_between)) t)" for t
    using set_step.leave [of "?s [1, 0] v (?p(0 := Set_notified, 1 := Set_notified)) t" 1 ?w]
    by (simp add: rw_unlock_def)
  have 4: "set_step ?w (?s [0] v (?p(0 := Set_notified, 1 := Set_between)) t)
      (?s [] v (?p(0 := Set_between, 1 := Set_between)) t)" for t
    using set_step.leave [of "?s [0] v (?p(0 := Set_notified, 1 := Set_between)) t" 0 ?w]
    by (simp add: rw_unlock_def fun_upd_twist)
  have 5: "set_step ?w (?s [] v (?p(0 := Set_between, 1 := Set_between)) t)
      (?s [] b (?p(0 := Set_between, 1 := Set_done)) t)" for t
    using set_step.store [of "?s [] v (?p(0 := Set_between, 1 := Set_between)) t" 1 _ ?w]
    by (simp add: wrlock_def rw_unlock_def)
  have 6: "set_step ?w (?s [] b (?p(0 := Set_between, 1 := Set_done)) t)
      (?s [] a (?p(0 := Set_done, 1 := Set_done)) t)" for t
    using set_step.store [of "?s [] b (?p(0 := Set_between, 1 := Set_done)) t" 0 _ ?w]
    by (simp add: wrlock_def rw_unlock_def fun_upd_twist)
  have "(set_step ?w)\<^sup>*\<^sup>* (set_init v) (?s [] a (?p(0 := Set_done, 1 := Set_done)) [(0, v, a), (1, v, b)])"
    using 1 2 3 4 5 6 by (meson converse_rtranclp_into_rtranclp rtranclp.rtrancl_refl)
  then show ?thesis
    by (intro exI [of _ "?s [] a (?p(0 := Set_done, 1 := Set_done)) [(0, v, a), (1, v, b)]"])
      (simp add: free_rwlock_def)
qed

theorem concurrent_set_values_witness:
  "\<exists>st. (set_step (\<lambda>i. if i = 0 then 2 else 3))\<^sup>*\<^sup>* (set_init (1 :: nat)) st \<and>
    sv_told st = [(0, 1, 2), (1, 1, 3)] \<and> sv_val st = 2"
  using concurrent_set_values [of "1 :: nat" 2 3] by auto

end
