(* ===== verification/VarThreads.thy ===== *)
theory VarThreads
  imports Locks StdMap
begin

text \<open>
  The configuration variables of \<open>primo/config.h\<close> used by several threads at once. As in \<open>LogThreads\<close> a
  thread is the stack of what it has left to do: calls of the operations of \<open>CfgVar\<close>, the statements
  of the operation it is in, and the read-write lock of a variable that it takes and releases. The
  functions registered as listeners have numbers; what the listener \<open>cb\<close> does when it is told of a
  change is the list of calls \<open>body cb old_value new_value\<close>. The variables are of one value type, so
  that they share the counter \<open>sFuncId\<close>.

  \<open>GetListener\<close> is left out: it can insert into the map of listeners under the read lock, so that
  calling it while another thread reads the map is a data race. Without it, the map does not change
  while a thread that notifies the listeners holds the read lock, so the loop over it works on the list
  it starts with. The conversions from and to text run before the lock is taken and under the read
  lock, and are not repeated here.
\<close>

datatype 'a vcall =
    C_SetValue nat 'a
  | C_GetValue nat
  | C_AddListener nat nat
  | C_DelListener nat u64
  | C_ClearListener nat

text \<open>\<open>V_with_listener\<close> is a call of \<open>AddListener\<close> whose caller goes on with the key it returns.\<close>

datatype 'a vinstr =
    V_rdlock nat
  | V_wrlock nat
  | V_unlock nat
  | V_call "'a vcall"
  | V_with_listener nat nat "u64 \<Rightarrow> 'a vcall list"
  | V_compare nat 'a
  | V_notify nat 'a 'a "(u64 \<times> nat) list"
  | V_store nat 'a
  | V_read nat
  | V_count nat nat "u64 \<Rightarrow> 'a vcall list"
  | V_insert nat nat "u64 \<Rightarrow> 'a vcall list"
  | V_key nat "u64 \<Rightarrow> 'a vcall list"
  | V_erase nat u64
  | V_clear nat

record 'a var =
  va_val :: 'a
  va_cbs :: "(u64 \<times> nat) list"
  va_lock :: rwlock

record 'a vsystem =
  vs_vars :: "'a var list"
  vs_next :: u64
  vs_threads :: "'a vinstr list list"

definition upd_var :: "nat \<Rightarrow> ('a var \<Rightarrow> 'a var) \<Rightarrow> 'a vsystem \<Rightarrow> 'a vsystem" where
  "upd_var v f s = s\<lparr>vs_vars := (vs_vars s)[v := f (vs_vars s ! v)]\<rparr>"

definition reading :: "nat \<Rightarrow> 'a vinstr list \<Rightarrow> 'a vinstr list" where
  "reading v body = V_rdlock v # body @ [V_unlock v]"

definition writing :: "nat \<Rightarrow> 'a vinstr list \<Rightarrow> 'a vinstr list" where
  "writing v body = V_wrlock v # body @ [V_unlock v]"

fun vcall_step :: "'a vcall \<Rightarrow> 'a vinstr list" where
  "vcall_step (C_SetValue v val) = [V_rdlock v, V_compare v val]"
| "vcall_step (C_GetValue v) = reading v [V_read v]"
| "vcall_step (C_AddListener v cb) = [V_with_listener v cb (\<lambda>key. [])]"
| "vcall_step (C_DelListener v key) = writing v [V_erase v key]"
| "vcall_step (C_ClearListener v) = writing v [V_clear v]"

text \<open>\<open>SetValue\<close> under the read lock: the same value ends it; another one is told to the listeners and
  then stored under the write lock.\<close>

definition compare_step :: "nat \<Rightarrow> 'a \<Rightarrow> 'a vsystem \<Rightarrow> 'a vinstr list" where
  "compare_step v val s =
     (let x = vs_vars s ! v
      in if va_val x = val then [V_unlock v]
         else V_notify v (va_val x) val (va_cbs x) # V_unlock v # writing v [V_store v val])"

fun notify_step ::
  "(nat \<Rightarrow> 'a \<Rightarrow> 'a \<Rightarrow> 'a vcall list) \<Rightarrow> nat \<Rightarrow> 'a \<Rightarrow> 'a \<Rightarrow> (u64 \<times> nat) list \<Rightarrow> 'a vinstr list" where
  "notify_step body v old new [] = []"
| "notify_step body v old new ((key, cb) # cbs) = map V_call (body cb old new) @ [V_notify v old new cbs]"

text \<open>A statement: what is left to do of it, and the variables and the counter after it. \<open>sFuncId\<close> is
  read again after it has been incremented, for the entry and for the result.\<close>

fun vinstr_step ::
  "(nat \<Rightarrow> 'a \<Rightarrow> 'a \<Rightarrow> 'a vcall list) \<Rightarrow> 'a vinstr \<Rightarrow> 'a vsystem \<Rightarrow> 'a vinstr list \<times> 'a vsystem" where
  "vinstr_step body (V_call c) s = (vcall_step c, s)"
| "vinstr_step body (V_with_listener v cb f) s = ([V_wrlock v, V_count v cb f], s)"
| "vinstr_step body (V_compare v val) s = (compare_step v val s, s)"
| "vinstr_step body (V_notify v old new cbs) s = (notify_step body v old new cbs, s)"
| "vinstr_step body (V_store v val) s = ([], upd_var v (\<lambda>x. x\<lparr>va_val := val\<rparr>) s)"
| "vinstr_step body (V_read v) s = ([], s)"
| "vinstr_step body (V_count v cb f) s = ([V_insert v cb f], s\<lparr>vs_next := vs_next s + 1\<rparr>)"
| "vinstr_step body (V_insert v cb f) s =
     ([V_key v f], upd_var v (\<lambda>x. x\<lparr>va_cbs := smap_put (vs_next s) cb (va_cbs x)\<rparr>) s)"
| "vinstr_step body (V_key v f) s = (V_unlock v # map V_call (f (vs_next s)), s)"
| "vinstr_step body (V_erase v key) s = ([], upd_var v (\<lambda>x. x\<lparr>va_cbs := smap_erase key (va_cbs x)\<rparr>) s)"
| "vinstr_step body (V_clear v) s = ([], upd_var v (\<lambda>x. x\<lparr>va_cbs := []\<rparr>) s)"
| "vinstr_step body _ s = ([], s)"

definition set_thread :: "nat \<Rightarrow> 'a vinstr list \<Rightarrow> 'a vsystem \<Rightarrow> 'a vsystem" where
  "set_thread i k s = s\<lparr>vs_threads := (vs_threads s)[i := k]\<rparr>"

definition set_lock :: "nat \<Rightarrow> rwlock \<Rightarrow> 'a vsystem \<Rightarrow> 'a vsystem" where
  "set_lock v rw s = upd_var v (\<lambda>x. x\<lparr>va_lock := rw\<rparr>) s"

text \<open>A step of thread \<open>i\<close>: \<open>None\<close> when it has nothing left to do or waits for a lock.\<close>

definition vthread_step ::
  "(nat \<Rightarrow> 'a \<Rightarrow> 'a \<Rightarrow> 'a vcall list) \<Rightarrow> nat \<Rightarrow> 'a vsystem \<Rightarrow> 'a vsystem option" where
  "vthread_step body i s =
     (if length (vs_threads s) \<le> i then None
      else case vs_threads s ! i of
        [] \<Rightarrow> None
      | x # k \<Rightarrow>
          (case x of
             V_rdlock v \<Rightarrow>
               map_option (\<lambda>rw. set_thread i k (set_lock v rw s)) (rdlock i (va_lock (vs_vars s ! v)))
           | V_wrlock v \<Rightarrow>
               map_option (\<lambda>rw. set_thread i k (set_lock v rw s)) (wrlock i (va_lock (vs_vars s ! v)))
           | V_unlock v \<Rightarrow>
               Some (set_thread i k (set_lock v (rw_unlock i (va_lock (vs_vars s ! v))) s))
           | _ \<Rightarrow>
               (case vinstr_step body x s of (new, s) \<Rightarrow> Some (set_thread i (new @ k) s))))"

fun vrun ::
  "(nat \<Rightarrow> 'a \<Rightarrow> 'a \<Rightarrow> 'a vcall list) \<Rightarrow> nat list \<Rightarrow> 'a vsystem \<Rightarrow> 'a vsystem" where
  "vrun body [] s = s"
| "vrun body (i # is) s =
     vrun body is (case vthread_step body i s of None \<Rightarrow> s | Some s' \<Rightarrow> s')"

text \<open>Variables with values and listeners, all locks free.\<close>

definition init_vars ::
  "('a \<times> (u64 \<times> nat) list) list \<Rightarrow> u64 \<Rightarrow> 'a vinstr list list \<Rightarrow> 'a vsystem" where
  "init_vars vars sFuncId threads =
     \<lparr>vs_vars = map (\<lambda>(val, cbs). \<lparr>va_val = val, va_cbs = cbs, va_lock = free_rwlock\<rparr>) vars,
      vs_next = sFuncId, vs_threads = threads\<rparr>"

definition vall_returned :: "'a vsystem \<Rightarrow> bool" where
  "vall_returned s \<longleftrightarrow> list_all (\<lambda>k. k = []) (vs_threads s)"

end
