(* ===== verification/VarThreadsSafe.thy ===== *)
theory VarThreadsSafe
  imports VarThreads RankedLocks
begin

text \<open>
  When threads that use configuration variables cannot wait for each other for ever: if the listeners of
  a variable only read it, and otherwise use variables of higher rank only, then every call returns.
  The rank of a variable is its place in the list of variables; \<open>var_of cb\<close> is the variable whose
  listener \<open>cb\<close> is.
\<close>

subsection \<open>What a statement needs\<close>

text \<open>A call by a thread that holds the variables \<open>R\<close> for reading.\<close>

fun vcall_ok :: "(nat \<Rightarrow> nat) \<Rightarrow> nat \<Rightarrow> nat set \<Rightarrow> 'a vcall \<Rightarrow> bool" where
  "vcall_ok var_of n R (C_GetValue v) \<longleftrightarrow> v < n \<and> (\<forall>u \<in> R. u \<le> v)"
| "vcall_ok var_of n R (C_SetValue v val) \<longleftrightarrow> v < n \<and> (\<forall>u \<in> R. u < v)"
| "vcall_ok var_of n R (C_AddListener v cb) \<longleftrightarrow> v < n \<and> (\<forall>u \<in> R. u < v) \<and> var_of cb = v"
| "vcall_ok var_of n R (C_DelListener v key) \<longleftrightarrow> v < n \<and> (\<forall>u \<in> R. u < v)"
| "vcall_ok var_of n R (C_ClearListener v) \<longleftrightarrow> v < n \<and> (\<forall>u \<in> R. u < v)"

definition listeners_upward :: "(nat \<Rightarrow> nat) \<Rightarrow> nat \<Rightarrow> (nat \<Rightarrow> 'a \<Rightarrow> 'a \<Rightarrow> 'a vcall list) \<Rightarrow> bool" where
  "listeners_upward var_of n body \<longleftrightarrow>
     (\<forall>cb old new. list_all (vcall_ok var_of n {var_of cb}) (body cb old new))"

lemma vcall_ok_below: "vcall_ok var_of n {v} c \<Longrightarrow> \<forall>u \<in> R. u \<le> v \<Longrightarrow> vcall_ok var_of n R c"
  by (cases c) fastforce+

type_synonym holding = "nat multiset \<times> nat set"

fun vafter :: "'a vinstr \<Rightarrow> holding \<Rightarrow> holding" where
  "vafter (V_rdlock v) (R, W) = (add_mset v R, W)"
| "vafter (V_wrlock v) (R, W) = (R, insert v W)"
| "vafter (V_unlock v) (R, W) = (if v \<in> W then (R, W - {v}) else (R - {#v#}, W))"
| "vafter (V_compare v val) (R, W) = (R - {#v#}, W)"
| "vafter (V_count v cb f) (R, W) = (R, W - {v})"
| "vafter (V_insert v cb f) (R, W) = (R, W - {v})"
| "vafter (V_key v f) (R, W) = (R, W - {v})"
| "vafter _ (R, W) = (R, W)"

fun vinstr_ok :: "(nat \<Rightarrow> nat) \<Rightarrow> nat \<Rightarrow> holding \<Rightarrow> 'a vinstr \<Rightarrow> bool" where
  "vinstr_ok var_of n (R, W) (V_rdlock v) \<longleftrightarrow> v < n \<and> W = {} \<and> (\<forall>u \<in># R. u \<le> v)"
| "vinstr_ok var_of n (R, W) (V_wrlock v) \<longleftrightarrow> v < n \<and> W = {} \<and> (\<forall>u \<in># R. u < v)"
| "vinstr_ok var_of n (R, W) (V_unlock v) \<longleftrightarrow> v < n \<and> (v \<in> W \<or> v \<in># R)"
| "vinstr_ok var_of n (R, W) (V_call c) \<longleftrightarrow> W = {} \<and> vcall_ok var_of n (set_mset R) c"
| "vinstr_ok var_of n (R, W) (V_with_listener v cb f) \<longleftrightarrow> v < n \<and> W = {} \<and> (\<forall>u \<in># R. u < v) \<and>
     var_of cb = v \<and> (\<forall>key. list_all (vcall_ok var_of n (set_mset R)) (f key))"
| "vinstr_ok var_of n (R, W) (V_compare v val) \<longleftrightarrow> v < n \<and> W = {} \<and> v \<in># R \<and> (\<forall>u \<in># R - {#v#}. u < v)"
| "vinstr_ok var_of n (R, W) (V_notify v old new cbs) \<longleftrightarrow> v < n \<and> W = {} \<and> (\<forall>u \<in># R. u \<le> v) \<and>
     (\<forall>(key, cb) \<in> set cbs. var_of cb = v)"
| "vinstr_ok var_of n (R, W) (V_count v cb f) \<longleftrightarrow> v < n \<and> W = {v} \<and> var_of cb = v \<and>
     (\<forall>key. list_all (vcall_ok var_of n (set_mset R)) (f key))"
| "vinstr_ok var_of n (R, W) (V_insert v cb f) \<longleftrightarrow> v < n \<and> W = {v} \<and> var_of cb = v \<and>
     (\<forall>key. list_all (vcall_ok var_of n (set_mset R)) (f key))"
| "vinstr_ok var_of n (R, W) (V_key v f) \<longleftrightarrow> v < n \<and> W = {v} \<and>
     (\<forall>key. list_all (vcall_ok var_of n (set_mset R)) (f key))"
| "vinstr_ok var_of n (R, W) _ \<longleftrightarrow> True"

fun vcode_to :: "(nat \<Rightarrow> nat) \<Rightarrow> nat \<Rightarrow> holding \<Rightarrow> 'a vinstr list \<Rightarrow> holding \<Rightarrow> bool" where
  "vcode_to var_of n H [] H' \<longleftrightarrow> H = H'"
| "vcode_to var_of n H (x # k) H' \<longleftrightarrow> vinstr_ok var_of n H x \<and> vcode_to var_of n (vafter x H) k H'"

lemma vcode_to_append:
  "vcode_to var_of n H (a @ b) H'' \<longleftrightarrow> (\<exists>H'. vcode_to var_of n H a H' \<and> vcode_to var_of n H' b H'')"
  by (induction a arbitrary: H) auto

lemma vcode_calls: "list_all (vcall_ok var_of n (set_mset R)) cs \<Longrightarrow> vcode_to var_of n (R, {}) (map V_call cs) (R, {})"
  by (induction cs) auto

text \<open>The listeners registered with each variable are its own.\<close>

definition own_listeners :: "(nat \<Rightarrow> nat) \<Rightarrow> 'a vsystem \<Rightarrow> bool" where
  "own_listeners var_of s \<longleftrightarrow>
     (\<forall>v < length (vs_vars s). \<forall>(key, cb) \<in> set (va_cbs (vs_vars s ! v)). var_of cb = v)"

definition locks_of :: "'a vsystem \<Rightarrow> rwlock list" where
  "locks_of s = map va_lock (vs_vars s)"

lemma locks_of_upd_var [simp]: "(\<And>x. va_lock (f x) = va_lock x) \<Longrightarrow> locks_of (upd_var v f s) = locks_of s"
  by (rule nth_equalityI) (auto simp: locks_of_def upd_var_def nth_update_if)

lemma upd_var_simps [simp]:
  "length (vs_vars (upd_var v f s)) = length (vs_vars s)"
  "vs_threads (upd_var v f s) = vs_threads s"
  by (simp_all add: upd_var_def)

lemma own_listeners_upd_var:
  "own_listeners var_of s \<Longrightarrow>
   (\<And>key cb. (key, cb) \<in> set (va_cbs (f (vs_vars s ! v))) \<Longrightarrow> (key, cb) \<in> set (va_cbs (vs_vars s ! v)) \<or> var_of cb = v) \<Longrightarrow>
   own_listeners var_of (upd_var v f s)"
  by (fastforce simp: own_listeners_def upd_var_def nth_update_if)

definition vstep_ok :: "(nat \<Rightarrow> nat) \<Rightarrow> 'a vsystem \<Rightarrow> holding \<Rightarrow> 'a vinstr list \<times> 'a vsystem \<Rightarrow> holding \<Rightarrow> bool" where
  "vstep_ok var_of s H r H' \<longleftrightarrow>
     (case r of (new, s') \<Rightarrow> own_listeners var_of s' \<and> locks_of s' = locks_of s \<and>
        vs_threads s' = vs_threads s \<and> vcode_to var_of (length (vs_vars s)) H new H')"

lemma vcall_step_ok:
  "vinstr_ok var_of n (R, {}) (V_call c) \<Longrightarrow> vcode_to var_of n (R, {}) (vcall_step c) (R, {})"
  by (cases c) (auto simp: reading_def writing_def)

lemma compare_ok:
  assumes own: "own_listeners var_of s" and ok: "vinstr_ok var_of (length (vs_vars s)) (R, W) (V_compare v val)"
  shows "vcode_to var_of (length (vs_vars s)) (R, W) (compare_step v val s) (R - {#v#}, W)"
proof -
  have "u \<le> v" if "u \<in># R" for u
    using ok that by (cases "u = v") (auto simp: in_diff_count less_imp_le dest!: spec)
  then show ?thesis using own ok by (auto simp: compare_step_def Let_def writing_def own_listeners_def)
qed

lemma notify_ok:
  assumes up: "listeners_upward var_of n body" and ok: "vinstr_ok var_of n (R, W) (V_notify v old new cbs)"
  shows "vcode_to var_of n (R, W) (notify_step body v old new cbs) (R, W)"
proof (cases cbs)
  case (Cons entry cbs')
  then obtain key cb where cbs: "cbs = (key, cb) # cbs'" by (cases entry) auto
  then have cb: "var_of cb = v" "W = {}" "\<forall>u \<in># R. u \<le> v" using ok by auto
  then have "list_all (vcall_ok var_of n {v}) (body cb old new)"
    using up unfolding listeners_upward_def by metis
  then have "list_all (vcall_ok var_of n (set_mset R)) (body cb old new)"
    using vcall_ok_below [of var_of n v _ "set_mset R"] cb(3) unfolding list_all_iff by blast
  then show ?thesis using cbs ok cb(2) vcode_calls [of var_of n R "body cb old new"]
    by (auto simp: vcode_to_append)
qed (use ok in simp)

lemma set_smap_erase: "x \<in> set (smap_erase k m) \<Longrightarrow> x \<in> set m"
  by (auto simp: smap_erase_def kerase_def)

lemma set_smap_put: "x \<in> set (smap_put k y m) \<Longrightarrow> x = (k, y) \<or> x \<in> set m"
  using set_kput [of fst "(k, y)" m] by (auto simp: smap_put_def)

lemma vinstr_step_ok:
  assumes up: "listeners_upward var_of (length (vs_vars s)) body" and own: "own_listeners var_of s"
    and ok: "vinstr_ok var_of (length (vs_vars s)) (R, W) x"
    and x: "\<And>v. x \<noteq> V_rdlock v" "\<And>v. x \<noteq> V_wrlock v" "\<And>v. x \<noteq> V_unlock v"
  shows "vstep_ok var_of s (R, W) (vinstr_step body x s) (vafter x (R, W))"
proof (cases x)
  case (V_call c)
  then show ?thesis using vcall_step_ok [of var_of _ R c] own ok by (auto simp: vstep_ok_def)
next
  case (V_compare v val)
  then show ?thesis using compare_ok [OF own] own ok by (simp add: vstep_ok_def)
next
  case (V_notify v old new cbs)
  then show ?thesis using notify_ok [OF up] own ok by (simp add: vstep_ok_def)
next
  case (V_count v cb f)
  then show ?thesis using own ok by (auto simp: vstep_ok_def own_listeners_def locks_of_def)
next
  case (V_insert v cb f)
  have "own_listeners var_of (upd_var v (\<lambda>x. x\<lparr>va_cbs := smap_put (vs_next s) cb (va_cbs x)\<rparr>) s)"
    using ok V_insert by (intro own_listeners_upd_var [OF own]) (auto dest: set_smap_put)
  then show ?thesis using V_insert ok by (auto simp: vstep_ok_def)
next
  case (V_erase v key)
  have "own_listeners var_of (upd_var v (\<lambda>x. x\<lparr>va_cbs := smap_erase key (va_cbs x)\<rparr>) s)"
    by (intro own_listeners_upd_var [OF own]) (auto dest: set_smap_erase)
  then show ?thesis using V_erase by (simp add: vstep_ok_def)
next
  case (V_key v f)
  then show ?thesis using own ok vcode_calls [of var_of _ R "f (vs_next s)"] by (auto simp: vstep_ok_def)
next
  case (V_store v val)
  then show ?thesis by (auto simp: vstep_ok_def intro!: own_listeners_upd_var [OF own])
next
  case (V_clear v)
  then show ?thesis by (auto simp: vstep_ok_def intro!: own_listeners_upd_var [OF own])
qed (use own ok x in \<open>auto simp: vstep_ok_def\<close>)

subsection \<open>Who holds what\<close>

definition rheld :: "rwlock list \<Rightarrow> nat \<Rightarrow> nat multiset" where
  "rheld L i = (\<Sum>v < length L. replicate_mset (count_list (rw_readers (L ! v)) i) v)"

definition wheld :: "rwlock list \<Rightarrow> nat \<Rightarrow> nat set" where
  "wheld L i = {v. v < length L \<and> rw_writer (L ! v) = Some i}"

lemma count_rheld: "count (rheld L i) v = (if v < length L then count_list (rw_readers (L ! v)) i else 0)"
  by (auto simp: rheld_def count_sum if_distrib sum.delta cong: if_cong)

lemma in_rheld: "v \<in># rheld L i \<longleftrightarrow> v < length L \<and> i \<in> set (rw_readers (L ! v))"
  by (metis count_list_0_iff count_rheld not_in_iff)

lemma count_list_remove1: "count_list (remove1 x xs) y = (if x = y then count_list xs y - 1 else count_list xs y)"
  by (induction xs) (auto simp: count_list_0_iff)

text \<open>A lock that is held for writing has no readers.\<close>

definition exclusive :: "rwlock list \<Rightarrow> bool" where
  "exclusive L \<longleftrightarrow> list_all (\<lambda>rw. rw_writer rw \<noteq> None \<longrightarrow> rw_readers rw = []) L"

lemma held_rdlock:
  assumes "v < length L" "rdlock i (L ! v) = Some rw" "exclusive L"
  shows "rheld (L[v := rw]) j = (if j = i then add_mset v (rheld L j) else rheld L j)"
    "wheld (L[v := rw]) j = wheld L j" "exclusive (L[v := rw])"
proof -
  have rw: "rw = (L ! v)\<lparr>rw_readers := i # rw_readers (L ! v)\<rparr>" "rw_writer (L ! v) = None"
    using assms(2) by (auto simp: rdlock_def split: if_splits)
  show "rheld (L[v := rw]) j = (if j = i then add_mset v (rheld L j) else rheld L j)"
    using assms(1) rw(1) by (intro multiset_eqI) (auto simp: count_rheld nth_list_update)
  show "wheld (L[v := rw]) j = wheld L j"
    using assms(1) rw by (auto simp: wheld_def nth_list_update)
  show "exclusive (L[v := rw])"
    using assms(3) rw by (auto simp: exclusive_def list_all_length nth_update_if)
qed

lemma held_wrlock:
  assumes "v < length L" "wrlock i (L ! v) = Some rw" "exclusive L"
  shows "rheld (L[v := rw]) j = rheld L j"
    "wheld (L[v := rw]) j = (if j = i then insert v (wheld L j) else wheld L j)" "exclusive (L[v := rw])"
proof -
  have rw: "rw = (L ! v)\<lparr>rw_writer := Some i\<rparr>" "rw_writer (L ! v) = None" "rw_readers (L ! v) = []"
    using assms(2) by (auto simp: wrlock_def split: if_splits)
  show "rheld (L[v := rw]) j = rheld L j"
    using assms(1) rw by (intro multiset_eqI) (auto simp: count_rheld nth_list_update)
  show "wheld (L[v := rw]) j = (if j = i then insert v (wheld L j) else wheld L j)"
    using assms(1) rw by (auto simp: wheld_def nth_list_update)
  show "exclusive (L[v := rw])"
    using assms(3) rw by (auto simp: exclusive_def list_all_length nth_update_if)
qed

lemma held_unlock:
  assumes "v < length L" "v \<in> wheld L i \<or> v \<in># rheld L i" "exclusive L"
  defines "L' \<equiv> L[v := rw_unlock i (L ! v)]"
  shows "(rheld L' j, wheld L' j) = (if j = i then vafter (V_unlock v) (rheld L i, wheld L i) else (rheld L j, wheld L j))"
    "exclusive L'"
proof -
  show "exclusive L'"
    using assms by (auto simp: exclusive_def list_all_length nth_update_if rw_unlock_def)
  show "(rheld L' j, wheld L' j) = (if j = i then vafter (V_unlock v) (rheld L i, wheld L i) else (rheld L j, wheld L j))"
  proof (cases "v \<in> wheld L i")
    case True
    then have rw: "rw_unlock i (L ! v) = (L ! v)\<lparr>rw_writer := None\<rparr>" "rw_writer (L ! v) = Some i"
      by (simp_all add: wheld_def rw_unlock_def)
    have "rheld L' j = rheld L j"
      using assms(1) rw by (intro multiset_eqI) (auto simp: count_rheld nth_list_update L'_def)
    moreover have "wheld L' j = (if j = i then wheld L j - {v} else wheld L j)"
      using assms(1) rw by (auto simp: wheld_def nth_list_update L'_def)
    ultimately show ?thesis using True by simp
  next
    case False
    then have rw: "rw_unlock i (L ! v) = (L ! v)\<lparr>rw_readers := remove1 i (rw_readers (L ! v))\<rparr>"
      "rw_writer (L ! v) \<noteq> Some i"
      using assms(1) by (simp_all add: wheld_def rw_unlock_def)
    have "rheld L' j = (if j = i then rheld L j - {#v#} else rheld L j)"
      using assms(1) rw by (intro multiset_eqI) (auto simp: count_rheld nth_list_update L'_def count_list_remove1)
    moreover have "wheld L' j = wheld L j"
      using assms(1) rw by (auto simp: wheld_def nth_list_update L'_def)
    ultimately show ?thesis using False by simp
  qed
qed

subsection \<open>The invariant\<close>

definition holding :: "'a vsystem \<Rightarrow> nat \<Rightarrow> holding" where
  "holding s i = (rheld (locks_of s) i, wheld (locks_of s) i)"

definition vsystem_ok ::
  "(nat \<Rightarrow> nat) \<Rightarrow> (nat \<Rightarrow> 'a \<Rightarrow> 'a \<Rightarrow> 'a vcall list) \<Rightarrow> 'a vsystem \<Rightarrow> bool" where
  "vsystem_ok var_of body s \<longleftrightarrow>
     listeners_upward var_of (length (vs_vars s)) body \<and> own_listeners var_of s \<and> exclusive (locks_of s) \<and>
     (\<forall>i < length (vs_threads s). vcode_to var_of (length (vs_vars s)) (holding s i) (vs_threads s ! i) ({#}, {})) \<and>
     (\<forall>i. length (vs_threads s) \<le> i \<longrightarrow> holding s i = ({#}, {}))"

lemma va_cbs_set_lock: "va_cbs (vs_vars (set_lock v rw s) ! u) = va_cbs (vs_vars s ! u)"
  by (simp add: set_lock_def upd_var_def nth_update_if)

lemma locks_of_set_lock [simp]: "locks_of (set_lock v rw s) = (locks_of s)[v := rw]"
  by (rule nth_equalityI) (simp_all add: set_lock_def upd_var_def locks_of_def nth_update_if)

lemma set_lock_simps [simp]:
  "length (vs_vars (set_lock v rw s)) = length (vs_vars s)"
  "vs_threads (set_lock v rw s) = vs_threads s"
  "own_listeners var_of (set_lock v rw s) \<longleftrightarrow> own_listeners var_of s"
  unfolding own_listeners_def va_cbs_set_lock by (simp_all add: set_lock_def)

lemma set_thread_simps [simp]:
  "vs_vars (set_thread i k s) = vs_vars s"
  "vs_threads (set_thread i k s) = (vs_threads s)[i := k]"
  "locks_of (set_thread i k s) = locks_of s"
  "own_listeners var_of (set_thread i k s) \<longleftrightarrow> own_listeners var_of s"
  by (simp_all add: set_thread_def locks_of_def own_listeners_def)

lemma length_locks_of [simp]: "length (locks_of s) = length (vs_vars s)"
  by (simp add: locks_of_def)

lemma locks_of_nth: "v < length (vs_vars s) \<Longrightarrow> va_lock (vs_vars s ! v) = locks_of s ! v"
  by (simp add: locks_of_def)

lemma vsystem_ok_step:
  assumes ok: "vsystem_ok var_of body s" and i: "i < length (vs_threads s)"
    and same: "length (vs_vars s') = length (vs_vars s)" "vs_threads s' = (vs_threads s)[i := k]"
    and own: "own_listeners var_of s'" and ex: "exclusive (locks_of s')"
    and others: "\<And>j. j \<noteq> i \<Longrightarrow> holding s' j = holding s j"
    and code: "vcode_to var_of (length (vs_vars s)) (holding s' i) k ({#}, {})"
  shows "vsystem_ok var_of body s'"
proof -
  have "vcode_to var_of (length (vs_vars s')) (holding s' j) (vs_threads s' ! j) ({#}, {})"
    if "j < length (vs_threads s')" for j
    using ok that i code others [of j] by (cases "j = i") (auto simp: same vsystem_ok_def)
  moreover have "holding s' j = ({#}, {})" if "length (vs_threads s') \<le> j" for j
    using ok that i others [of j] by (auto simp: same vsystem_ok_def)
  ultimately show ?thesis using ok own ex by (simp add: vsystem_ok_def same)
qed

lemma vsystem_okD:
  assumes "vsystem_ok var_of body s" "i < length (vs_threads s)" "vs_threads s ! i = x # k"
  shows "vinstr_ok var_of (length (vs_vars s)) (holding s i) x"
    "vcode_to var_of (length (vs_vars s)) (vafter x (holding s i)) k ({#}, {})"
proof -
  have "vcode_to var_of (length (vs_vars s)) (holding s i) (x # k) ({#}, {})"
    using assms unfolding vsystem_ok_def by metis
  then show "vinstr_ok var_of (length (vs_vars s)) (holding s i) x"
    "vcode_to var_of (length (vs_vars s)) (vafter x (holding s i)) k ({#}, {})" by simp_all
qed

text \<open>The kinds of steps.\<close>

lemma vthread_step_cases:
  assumes "vthread_step body i s = Some s'"
  obtains (rd) v k rw where "vs_threads s ! i = V_rdlock v # k" "rdlock i (va_lock (vs_vars s ! v)) = Some rw"
      "s' = set_thread i k (set_lock v rw s)"
  | (wr) v k rw where "vs_threads s ! i = V_wrlock v # k" "wrlock i (va_lock (vs_vars s ! v)) = Some rw"
      "s' = set_thread i k (set_lock v rw s)"
  | (unlock) v k where "vs_threads s ! i = V_unlock v # k"
      "s' = set_thread i k (set_lock v (rw_unlock i (va_lock (vs_vars s ! v))) s)"
  | (work) x k where "vs_threads s ! i = x # k" "\<And>v. x \<noteq> V_rdlock v" "\<And>v. x \<noteq> V_wrlock v" "\<And>v. x \<noteq> V_unlock v"
      "s' = set_thread i (fst (vinstr_step body x s) @ k) (snd (vinstr_step body x s))"
proof (cases "vs_threads s ! i")
  case Nil
  then show ?thesis using assms by (simp add: vthread_step_def split: if_splits)
next
  case (Cons x k)
  show ?thesis
  proof (cases x)
    case (V_rdlock v)
    then show ?thesis using assms Cons rd by (auto simp: vthread_step_def split: if_splits)
  next
    case (V_wrlock v)
    then show ?thesis using assms Cons wr by (auto simp: vthread_step_def split: if_splits)
  next
    case (V_unlock v)
    then show ?thesis using assms Cons unlock by (auto simp: vthread_step_def split: if_splits)
  qed (use assms Cons work in \<open>auto simp: vthread_step_def case_prod_beta split: if_splits\<close>)
qed

lemma vthread_step_index: "vthread_step body i s = Some s' \<Longrightarrow> i < length (vs_threads s)"
  by (auto simp: vthread_step_def split: if_splits)

lemma vunlock_ok:
  fixes s s' :: "'a vsystem"
  assumes ok: "vsystem_ok var_of body s" and i: "i < length (vs_threads s)" "vs_threads s ! i = V_unlock v # k"
    and s': "s' = set_thread i k (set_lock v (rw_unlock i (va_lock (vs_vars s ! v))) s)"
  shows "vsystem_ok var_of body s' \<and> length (vs_vars s') = length (vs_vars s)"
proof -
  let ?L = "locks_of s" and ?n = "length (vs_vars s)"
  note x = vsystem_okD [OF ok i]
  have v: "v < ?n" "v \<in> wheld ?L i \<or> v \<in># rheld ?L i" using x(1) by (auto simp: holding_def)
  have vL: "v < length ?L" using v(1) by simp
  have own: "own_listeners var_of s" and ex: "exclusive ?L" using ok by (simp_all add: vsystem_ok_def)
  note held = held_unlock [OF vL v(2) ex]
  have hold: "holding s' j = (if j = i then vafter (V_unlock v :: 'a vinstr) (holding s i) else holding s j)" for j
    unfolding holding_def using held(1) [of j] v(1) s'
    by (simp only: set_thread_simps locks_of_set_lock locks_of_nth)
  have len: "length (vs_vars s') = ?n" using s' by simp
  have "vsystem_ok var_of body s'"
  proof (rule vsystem_ok_step [OF ok i(1) len])
    show "vcode_to var_of ?n (holding s' i) k ({#}, {})" using x(2) hold [of i] by simp
  qed (use s' own held(2) hold v in \<open>simp_all add: locks_of_nth\<close>)
  then show ?thesis using len by blast
qed

lemma vthread_step_ok:
  fixes s s' :: "'a vsystem"
  assumes ok: "vsystem_ok var_of body s" and step: "vthread_step body i s = Some s'"
  shows "vsystem_ok var_of body s' \<and> length (vs_vars s') = length (vs_vars s)"
proof -
  note i = vthread_step_index [OF step]
  let ?L = "locks_of s" and ?n = "length (vs_vars s)"
  have own: "own_listeners var_of s" and ex: "exclusive ?L" and up: "listeners_upward var_of ?n body"
    using ok by (simp_all add: vsystem_ok_def)
  show ?thesis
    using step
  proof (cases rule: vthread_step_cases)
    case (rd v k rw)
    note x = vsystem_okD [OF ok i rd(1)]
    have v: "v < ?n" using x(1) by (simp add: holding_def)
    note held = held_rdlock [OF _ rd(2) [unfolded locks_of_nth [OF v]] ex]
    show ?thesis using rd(3) own x v
      by (auto simp: holding_def held intro!: vsystem_ok_step [OF ok i, of _ k])
  next
    case (wr v k rw)
    note x = vsystem_okD [OF ok i wr(1)]
    have v: "v < ?n" using x(1) by (simp add: holding_def)
    note held = held_wrlock [OF _ wr(2) [unfolded locks_of_nth [OF v]] ex]
    show ?thesis using wr(3) own x v
      by (auto simp: holding_def held intro!: vsystem_ok_step [OF ok i, of _ k])
  next
    case (unlock v k)
    then show ?thesis by (intro vunlock_ok [OF ok i])
  next
    case (work x k)
    note y = vsystem_okD [OF ok i work(1)]
    have st: "vstep_ok var_of s (holding s i) (vinstr_step body x s) (vafter x (holding s i))"
      using vinstr_step_ok [OF up own _ work(2-4)] y(1) by (simp add: holding_def)
    obtain new s1 where new: "vinstr_step body x s = (new, s1)" by fastforce
    have s1: "own_listeners var_of s1" "locks_of s1 = ?L" "vs_threads s1 = vs_threads s"
      "vcode_to var_of ?n (holding s i) new (vafter x (holding s i))"
      using st new by (simp_all add: vstep_ok_def)
    have "length (vs_vars s1) = ?n" using s1(2) by (metis length_locks_of)
    moreover have "vcode_to var_of ?n (holding s i) (new @ k) ({#}, {})"
      using s1(4) y(2) unfolding vcode_to_append by blast
    ultimately show ?thesis using work(5) new s1 ex
      by (auto simp: holding_def intro!: vsystem_ok_step [OF ok i, of _ "new @ k"])
  qed
qed

subsection \<open>Every run ends\<close>

fun vcall_level :: "nat \<Rightarrow> 'a vcall \<Rightarrow> nat \<times> nat \<times> nat" where
  "vcall_level n (C_GetValue v) = (n - v, 1, 0)"
| "vcall_level n (C_SetValue v val) = (n - v, 6, 0)"
| "vcall_level n (C_AddListener v cb) = (n - v, 6, 0)"
| "vcall_level n (C_DelListener v key) = (n - v, 6, 0)"
| "vcall_level n (C_ClearListener v) = (n - v, 6, 0)"

text \<open>Only a caller outside goes on with the key of a new listener.\<close>

definition key_level :: "nat \<Rightarrow> nat \<Rightarrow> (u64 \<Rightarrow> 'a vcall list) \<Rightarrow> nat \<Rightarrow> nat \<times> nat \<times> nat" where
  "key_level n v f b = (if \<forall>key. f key = [] then n - v else Suc n, b, 0)"

fun vinstr_level :: "nat \<Rightarrow> 'a vinstr \<Rightarrow> nat \<times> nat \<times> nat" where
  "vinstr_level n (V_call c) = vcall_level n c"
| "vinstr_level n (V_with_listener v cb f) = key_level n v f 5"
| "vinstr_level n (V_count v cb f) = key_level n v f 4"
| "vinstr_level n (V_insert v cb f) = key_level n v f 3"
| "vinstr_level n (V_key v f) = key_level n v f 2"
| "vinstr_level n (V_compare v val) = (n - v, 5, 0)"
| "vinstr_level n (V_notify v old new cbs) = (n - v, 4, length cbs)"
| "vinstr_level n _ = (0, 0, 0)"

lemma vcall_level_bound: "\<exists>a b. vcall_level n c = (a, b, 0) \<and> a \<le> n"
  by (cases c) auto

lemma vinstr_step_level:
  assumes up: "listeners_upward var_of n body" and ok: "vinstr_ok var_of n (R, W) x"
    and y: "y \<in> set (fst (vinstr_step body x s))"
    and x: "\<And>v. x \<noteq> V_rdlock v" "\<And>v. x \<noteq> V_wrlock v" "\<And>v. x \<noteq> V_unlock v"
  shows "(vinstr_level n y, vinstr_level n x) \<in> level_less"
proof (cases x)
  case (V_call c)
  then show ?thesis using y by (cases c) (auto simp: reading_def writing_def key_level_def)
next
  case (V_compare v val)
  then show ?thesis using y by (auto simp: compare_step_def writing_def Let_def split: if_splits)
next
  case (V_notify v old new cbs)
  show ?thesis
  proof (cases cbs)
    case (Cons entry cbs')
    then obtain key cb where cbs: "cbs = (key, cb) # cbs'" by (cases entry) auto
    then have cb: "var_of cb = v" "v < n" using ok V_notify by auto
    have above: "(vcall_level n c, (n - v, 4, length cbs)) \<in> level_less" if "c \<in> set (body cb old new)" for c
    proof -
      have "vcall_ok var_of n {v} c"
        using up that cb(1) unfolding listeners_upward_def list_all_iff by metis
      then show ?thesis by (cases c) auto
    qed
    show ?thesis using y V_notify cbs above by auto
  qed (use y V_notify in simp)
next
  case (V_key v f)
  show ?thesis
  proof (cases "\<forall>key. f key = []")
    case True
    then show ?thesis using y V_key ok by (auto simp: key_level_def)
  next
    case False
    have "\<exists>a b. vinstr_level n y = (a, b, 0) \<and> a \<le> n"
      using y V_key vcall_level_bound [of n] by auto
    then show ?thesis using V_key False by (auto simp: key_level_def)
  qed
qed (use y x in \<open>auto simp: key_level_def\<close>)

definition vload :: "'a vsystem \<Rightarrow> (nat \<times> nat \<times> nat) multiset" where
  "vload s = image_mset (vinstr_level (length (vs_vars s))) (mset (concat (vs_threads s)))"

lemma vload_decreases:
  assumes ok: "vsystem_ok var_of body s" and step: "vthread_step body i s = Some s'"
  shows "(vload s', vload s) \<in> mult1 level_less"
proof -
  let ?n = "length (vs_vars s)"
  let ?l = "vinstr_level ?n"
  note i = vthread_step_index [OF step]
  have up: "listeners_upward var_of ?n body" using ok by (simp add: vsystem_ok_def)
  have n: "length (vs_vars s') = ?n" using vthread_step_ok [OF ok step] by simp
  have "\<exists>x k new. vs_threads s ! i = x # k \<and> vs_threads s' = (vs_threads s)[i := new @ k] \<and>
      (\<forall>y \<in> set new. (?l y, ?l x) \<in> level_less)"
    using step
  proof (cases rule: vthread_step_cases)
    case (work x k)
    obtain new s1 where new: "vinstr_step body x s = (new, s1)" by fastforce
    have "vinstr_ok var_of ?n (holding s i) x" using vsystem_okD(1) [OF ok i work(1)] .
    then have "\<forall>y \<in> set new. (?l y, ?l x) \<in> level_less"
      using vinstr_step_level [OF up _ _ work(2-4), of "rheld (locks_of s) i" "wheld (locks_of s) i" _ s] new
      by (simp add: holding_def)
    moreover have "vs_threads s1 = vs_threads s"
      using new by (cases x) (auto simp: upd_var_def)
    ultimately show ?thesis using work(1,5) new by (intro exI conjI) auto
  qed (intro exI [where x = "[]"] exI conjI, auto)+
  then obtain x k new where x: "vs_threads s ! i = x # k" "vs_threads s' = (vs_threads s)[i := new @ k]"
    "\<forall>y \<in> set new. (?l y, ?l x) \<in> level_less" by blast
  then show ?thesis unfolding vload_def n by (intro stacks_decrease [OF i])
qed

subsection \<open>The contract of ranked locks\<close>

definition vholds :: "'a vsystem \<Rightarrow> nat \<Rightarrow> nat \<Rightarrow> bool" where
  "vholds s i v \<longleftrightarrow> v \<in># rheld (locks_of s) i \<or> v \<in> wheld (locks_of s) i"

text \<open>A thread that reads a variable is not kept from reading it again.\<close>

definition vwants :: "'a vsystem \<Rightarrow> nat \<Rightarrow> nat option" where
  "vwants s i =
     (case vs_threads s ! i of
        V_wrlock v # k \<Rightarrow> Some v
      | V_rdlock v # k \<Rightarrow> if v \<in># rheld (locks_of s) i then None else Some v
      | _ \<Rightarrow> None)"

definition vblocked :: "'a vsystem \<Rightarrow> nat \<Rightarrow> bool" where
  "vblocked s i \<longleftrightarrow>
     (case vs_threads s ! i of
        V_wrlock v # k \<Rightarrow> wrlock i (va_lock (vs_vars s ! v)) = None
      | V_rdlock v # k \<Rightarrow> rdlock i (va_lock (vs_vars s ! v)) = None
      | _ \<Rightarrow> False)"

lemma vholds_iff:
  "vholds s i v \<longleftrightarrow> v < length (vs_vars s) \<and>
     (i \<in> set (rw_readers (locks_of s ! v)) \<or> rw_writer (locks_of s ! v) = Some i)"
  by (auto simp: vholds_def in_rheld wheld_def)

lemma vholds_bound: "vholds s i v \<Longrightarrow> v < length (vs_vars s)"
  by (simp add: vholds_iff)

lemma holder_unfinished:
  assumes ok: "vsystem_ok var_of body s" and held: "vholds s i v"
  shows "i < length (vs_threads s) \<and> vs_threads s ! i \<noteq> []"
proof -
  have nonempty: "holding s i \<noteq> ({#}, {})" using held by (auto simp: vholds_def holding_def)
  then have i: "i < length (vs_threads s)" using ok unfolding vsystem_ok_def by (meson not_le)
  have "vcode_to var_of (length (vs_vars s)) (holding s i) (vs_threads s ! i) ({#}, {})"
    using ok i by (simp add: vsystem_ok_def)
  then have "vs_threads s ! i \<noteq> []" using nonempty by auto
  with i show ?thesis by blast
qed

lemma blocked_by_holder:
  assumes ok: "vsystem_ok var_of body s" and i: "i < length (vs_threads s)" and blocked: "vblocked s i"
  shows "\<exists>v j. vwants s i = Some v \<and> vholds s j v"
proof -
  obtain x k where x: "vs_threads s ! i = x # k"
    using blocked by (cases "vs_threads s ! i") (auto simp: vblocked_def)
  note need = vsystem_okD(1) [OF ok i x]
  have ex: "exclusive (locks_of s)" using ok by (simp add: vsystem_ok_def)
  consider v where "x = V_wrlock v" | v where "x = V_rdlock v"
    using blocked x by (auto simp: vblocked_def split: vinstr.splits)
  then show ?thesis
  proof cases
    case (1 v)
    then have v: "v < length (vs_vars s)" using need by (simp add: holding_def)
    then have "rw_writer (locks_of s ! v) \<noteq> None \<or> rw_readers (locks_of s ! v) \<noteq> []"
      using blocked x 1 by (auto simp: vblocked_def locks_of_nth wrlock_def split: if_splits)
    then have "\<exists>j. vholds s j v" using v by (cases "rw_readers (locks_of s ! v)") (auto simp: vholds_iff)
    then show ?thesis using x 1 by (simp add: vwants_def)
  next
    case (2 v)
    then have v: "v < length (vs_vars s)" using need by (simp add: holding_def)
    then obtain j where j: "rw_writer (locks_of s ! v) = Some j"
      using blocked x 2 by (auto simp: vblocked_def locks_of_nth rdlock_def split: if_splits)
    have "rw_readers (locks_of s ! v) = []"
      using ex v j by (simp add: exclusive_def list_all_length)
    then have "vwants s i = Some v" using x 2 by (simp add: vwants_def in_rheld)
    then show ?thesis using v j by (auto simp: vholds_iff)
  qed
qed

lemma unblocked_vsteps:
  "i < length (vs_threads s) \<Longrightarrow> vs_threads s ! i \<noteq> [] \<Longrightarrow> \<not> vblocked s i \<Longrightarrow>
   \<exists>s'. vthread_step body i s = Some s'"
  by (cases "vs_threads s ! i"; cases "hd (vs_threads s ! i)")
    (auto simp: vthread_step_def vblocked_def split: prod.split)

lemma vupward:
  assumes ok: "vsystem_ok var_of body s" and held: "vholds s i u" and wants: "vwants s i = Some v"
  shows "u < v"
proof -
  have i: "i < length (vs_threads s)" using holder_unfinished [OF ok held] by simp
  obtain x k where x: "vs_threads s ! i = x # k" "x = V_wrlock v \<or> x = V_rdlock v \<and> v \<notin># rheld (locks_of s) i"
    using wants by (auto simp: vwants_def split: list.splits vinstr.splits if_splits)
  have "vinstr_ok var_of (length (vs_vars s)) (holding s i) x" by (rule vsystem_okD(1) [OF ok i x(1)])
  then show ?thesis using x(2) held
    by (auto simp: vholds_def holding_def order_less_le)
qed

interpretation vars: finishing_locks "\<lambda>s. vsystem_ok var_of body s \<and> length (vs_vars s) = n"
  "\<lambda>s i. i < length (vs_threads s)" "\<lambda>s i. vs_threads s ! i = []" vholds vwants vblocked "\<lambda>s v. v" n
  "\<lambda>s i s'. vthread_step body i s = Some s'"
  for var_of body n
proof unfold_locales
  fix s i
  assume "vsystem_ok var_of body s \<and> length (vs_vars s) = n" "i < length (vs_threads s)" "vblocked s i"
  then show "\<exists>l j. vwants s i = Some l \<and> vholds s j l" using blocked_by_holder by blast
next
  show "wf {(s', s). (vsystem_ok var_of body s \<and> length (vs_vars s) = n) \<and> (\<exists>i. vthread_step body i s = Some s')}"
  proof (rule wf_subset)
    show "wf (inv_image (mult1 level_less) vload)"
      by (intro wf_inv_image wf_mult1 wf_level_less)
    show "{(s', s). (vsystem_ok var_of body s \<and> length (vs_vars s) = n) \<and> (\<exists>i. vthread_step body i s = Some s')}
        \<subseteq> inv_image (mult1 level_less) vload"
      using vload_decreases by fastforce
  qed
qed (auto simp: less_imp_le dest: holder_unfinished vupward vthread_step_ok vholds_bound intro: unblocked_vsteps)

subsection \<open>Programs\<close>

text \<open>What a thread may consist of at the start.\<close>

fun vprogram_ok :: "(nat \<Rightarrow> nat) \<Rightarrow> nat \<Rightarrow> 'a vinstr \<Rightarrow> bool" where
  "vprogram_ok var_of n (V_call c) \<longleftrightarrow> vcall_ok var_of n {} c"
| "vprogram_ok var_of n (V_with_listener v cb f) \<longleftrightarrow> v < n \<and> var_of cb = v \<and>
     (\<forall>key. list_all (vcall_ok var_of n {}) (f key))"
| "vprogram_ok var_of n _ \<longleftrightarrow> False"

definition vprograms_ok :: "(nat \<Rightarrow> nat) \<Rightarrow> nat \<Rightarrow> 'a vinstr list list \<Rightarrow> bool" where
  "vprograms_ok var_of n threads \<longleftrightarrow> list_all (list_all (vprogram_ok var_of n)) threads"

definition listeners_own :: "(nat \<Rightarrow> nat) \<Rightarrow> ('a \<times> (u64 \<times> nat) list) list \<Rightarrow> bool" where
  "listeners_own var_of vars \<longleftrightarrow>
     (\<forall>v < length vars. list_all (\<lambda>(key, cb). var_of cb = v) (snd (vars ! v)))"

lemma vprogram_code: "list_all (vprogram_ok var_of n) k \<Longrightarrow> vcode_to var_of n ({#}, {}) k ({#}, {})"
proof (induction k)
  case (Cons x k)
  then show ?case by (cases x) auto
qed simp

lemma locks_of_init: "locks_of (init_vars vars c threads) = replicate (length vars) free_rwlock"
  by (rule nth_equalityI) (simp_all add: init_vars_def locks_of_def case_prod_beta)

lemma vsystem_ok_init:
  assumes "listeners_upward var_of (length vars) body" "listeners_own var_of vars"
    "vprograms_ok var_of (length vars) threads"
  shows "vsystem_ok var_of body (init_vars vars c threads)"
proof -
  let ?s = "init_vars vars c threads"
  have "rheld (locks_of ?s) i = {#}" for i
    unfolding locks_of_init by (intro multiset_eqI) (simp add: count_rheld free_rwlock_def)
  moreover have "wheld (locks_of ?s) i = {}" for i
    unfolding locks_of_init by (simp add: wheld_def free_rwlock_def)
  ultimately have none: "holding ?s i = ({#}, {})" for i by (simp add: holding_def)
  have "exclusive (locks_of ?s)" by (simp add: locks_of_init exclusive_def list_all_iff free_rwlock_def)
  moreover have "own_listeners var_of ?s"
    using assms(2) by (auto simp: listeners_own_def own_listeners_def init_vars_def case_prod_beta list_all_iff)
  ultimately show ?thesis
    using assms(1,3) none
    by (auto simp: vsystem_ok_def init_vars_def vprograms_ok_def list_all_length intro!: vprogram_code)
qed

lemma vrun_ok: "vsystem_ok var_of body s \<Longrightarrow> vsystem_ok var_of body (vrun body sched s) \<and>
    length (vs_vars (vrun body sched s)) = length (vs_vars s)"
  by (induction sched arbitrary: s) (auto split: option.split dest: vthread_step_ok)

lemma vrun_append: "vrun body (a @ b) s = vrun body b (vrun body a s)"
  by (induction a arbitrary: s) simp_all

lemma run_is_vrun: "vars.run body s is s' \<Longrightarrow> vrun body is s = s'"
  by (induction rule: vars.run.induct) simp_all

lemma vall_returned_iff: "vall_returned s \<longleftrightarrow> vars.all_finished s"
  by (simp add: vall_returned_def vars.all_finished_def list_all_length)

lemma all_free:
  assumes ok: "vsystem_ok var_of body s" and fin: "vars.all_finished s"
  shows "list_all (\<lambda>x. va_lock x = free_rwlock) (vs_vars s)"
proof -
  have "rw_readers (locks_of s ! v) = [] \<and> rw_writer (locks_of s ! v) = None" if v: "v < length (vs_vars s)" for v
  proof -
    have none: "\<not> vholds s i v" for i
      using vars.unlocked_at_end [of var_of body s "length (vs_vars s)" i v] ok fin by simp
    show ?thesis
      using none [of "hd (rw_readers (locks_of s ! v))"] none [of "the (rw_writer (locks_of s ! v))"] v
      by (cases "rw_readers (locks_of s ! v)"; cases "rw_writer (locks_of s ! v)") (simp_all add: vholds_iff)
  qed
  then show ?thesis by (simp add: list_all_length locks_of_nth free_rwlock_def)
qed

text \<open>C17: threads that use configuration variables at the same time never wait for each other for ever,
  when the listeners of a variable only read it and otherwise use variables behind it in some fixed
  order: at every point of every run, either all calls have returned and every lock is free, or some
  thread can go on; no run is infinite; and every run can be completed.\<close>

theorem upward_listeners_return:
  assumes "listeners_upward var_of (length vars) body" and "listeners_own var_of vars"
    and "vprograms_ok var_of (length vars) threads"
  shows "(let s = vrun body sched (init_vars vars c threads) in
      (if vall_returned s then list_all (\<lambda>x. va_lock x = free_rwlock) (vs_vars s)
       else \<exists>i. vthread_step body i s \<noteq> None) \<and>
      (\<exists>more. vall_returned (vrun body more s))) \<and>
    (\<nexists>f. f 0 = init_vars vars c threads \<and> (\<forall>n. \<exists>i. vthread_step body i (f n) = Some (f (Suc n))))"
proof
  let ?i = "init_vars vars c threads"
  define s where "s = vrun body sched ?i"
  have ok: "vsystem_ok var_of body s"
    unfolding s_def using vrun_ok [OF vsystem_ok_init [OF assms]] by blast
  have "\<exists>i. vthread_step body i s \<noteq> None" if "\<not> vall_returned s"
    using vars.progress [of var_of body s "length (vs_vars s)"] ok that by (auto simp: vall_returned_iff)
  moreover have "\<exists>more. vall_returned (vrun body more s)"
    using vars.completes [of var_of body s "length (vs_vars s)"] ok run_is_vrun vall_returned_iff by blast
  ultimately show "let s = vrun body sched ?i in
      (if vall_returned s then list_all (\<lambda>x. va_lock x = free_rwlock) (vs_vars s)
       else \<exists>i. vthread_step body i s \<noteq> None) \<and> (\<exists>more. vall_returned (vrun body more s))"
    using all_free [OF ok] by (simp add: s_def [symmetric] Let_def vall_returned_iff)
  show "\<nexists>f. f 0 = ?i \<and> (\<forall>n. \<exists>i. vthread_step body i (f n) = Some (f (Suc n)))"
    using vars.no_infinite_steps [of var_of body _ "length (vs_vars ?i)"] vsystem_ok_init [OF assms] by metis
qed

text \<open>An example: the listener of the first variable copies its value to the second; one thread sets the
  first variable while another adds a listener to the second and removes it again.\<close>

definition copy_listener :: "nat \<Rightarrow> nat \<Rightarrow> nat \<Rightarrow> nat vcall list" where
  "copy_listener cb old new = (if cb = 0 then [C_GetValue 0, C_SetValue 1 new] else [])"

definition copy_threads :: "nat vinstr list list" where
  "copy_threads = [[V_call (C_SetValue 0 7)], [V_with_listener 1 1 (\<lambda>key. [C_DelListener 1 key])]]"

theorem upward_listeners_return_witness:
  "\<exists>more. vall_returned (vrun copy_listener more
     (vrun copy_listener [0, 1, 0] (init_vars [(1, [(1, 0)]), (1, [])] 1 copy_threads)))"
proof -
  let ?vars = "[(1, [(1, 0)]), (1, [])] :: (nat \<times> (u64 \<times> nat) list) list"
  have "listeners_upward (\<lambda>cb. cb) (length ?vars) copy_listener"
    by (simp add: listeners_upward_def copy_listener_def)
  moreover have "listeners_own (\<lambda>cb. cb) ?vars"
    by (simp add: listeners_own_def less_Suc_eq numeral_2_eq_2)
  moreover have "vprograms_ok (\<lambda>cb. cb) (length ?vars) copy_threads"
    by (simp add: vprograms_ok_def copy_threads_def)
  ultimately show ?thesis
    using upward_listeners_return [of "\<lambda>cb. cb" ?vars copy_listener copy_threads "[0, 1, 0]" 1]
    by (simp add: Let_def)
qed

end
