(* ===== verification/VarThreadsRace.thy ===== *)
theory VarThreadsRace
  imports VarThreads
begin

text \<open>
  What the locks of \<open>CfgVar\<close> in \<open>primo/config.h\<close> do not prevent: listeners that change each other's
  variable, for which a thread can wait, or run, for ever, and the counter of listener keys that all
  variables of a type share while each of them has a lock of its own.
\<close>

subsection \<open>Listeners that change each other's variable\<close>

text \<open>The listener of each of two variables clears the listeners of the other, and two threads set the
  variables.\<close>

definition cross_clear :: "nat \<Rightarrow> nat \<Rightarrow> nat \<Rightarrow> nat vcall list" where
  "cross_clear cb old new = [C_ClearListener (1 - cb)]"

definition crossed :: "nat vsystem" where
  "crossed = init_vars [(1, [(1, 0)]), (1, [(2, 1)])] 2 [[V_call (C_SetValue 0 7)], [V_call (C_SetValue 1 8)]]"

definition crossed_point :: "nat vsystem" where
  "crossed_point = vrun cross_clear (concat (replicate 5 [0, 1])) crossed"

text \<open>Two threads can wait for each other for ever when the listener of one variable changes another
  variable and the listener of that one changes the first: each thread holds the variable it sets for
  reading, while it tells the listeners, and waits to write the other one.\<close>

theorem crossed_listeners_deadlock:
  "\<exists>sched. \<not> vall_returned (vrun cross_clear sched crossed) \<and>
     (\<forall>i. vthread_step cross_clear i (vrun cross_clear sched crossed) = None)"
proof (intro exI conjI allI)
  show "\<not> vall_returned (vrun cross_clear (concat (replicate 5 [0, 1])) crossed)" by code_simp
  fix i :: nat
  have two: "Option.is_none (vthread_step cross_clear 0 crossed_point)"
    "Option.is_none (vthread_step cross_clear 1 crossed_point)" "length (vs_threads crossed_point) = 2"
    by code_simp+
  have "i = 0 \<or> i = 1 \<or> 2 \<le> i" by linarith
  then have "vthread_step cross_clear i crossed_point = None"
    using two by (auto simp: Option.is_none_def vthread_step_def)
  then show "vthread_step cross_clear i (vrun cross_clear (concat (replicate 5 [0, 1])) crossed) = None"
    by (simp add: crossed_point_def)
qed

text \<open>The listener of each of two variables sets the other to the new value, and one thread sets one of
  them.\<close>

definition mirror :: "nat \<Rightarrow> nat \<Rightarrow> nat \<Rightarrow> nat vcall list" where
  "mirror cb old new = [C_SetValue (1 - cb) new]"

definition mirrored :: "nat vsystem" where
  "mirrored = init_vars [(1, [(1, 0)]), (1, [(2, 1)])] 2 [[V_call (C_SetValue 0 7)]]"

text \<open>The thread is in the middle of telling listeners, and neither variable has its new value.\<close>

definition mirroring :: "nat vsystem \<Rightarrow> bool" where
  "mirroring s \<longleftrightarrow>
     map va_val (vs_vars s) = [1, 1] \<and> map va_cbs (vs_vars s) = [[(1, 0)], [(2, 1)]] \<and>
     list_all (\<lambda>x. rw_writer (va_lock x) = None) (vs_vars s) \<and>
     (\<exists>v k. v < 2 \<and>
        (vs_threads s = [V_call (C_SetValue v 7) # k] \<or> vs_threads s = [V_rdlock v # V_compare v 7 # k] \<or>
         vs_threads s = [V_compare v 7 # k] \<or>
         vs_threads s = [V_notify v 1 7 [(if v = 0 then 1 else 2, v)] # k]))"

lemma mirroring_step:
  assumes m: "mirroring s"
  shows "\<exists>s'. vthread_step mirror 0 s = Some s' \<and> mirroring s'"
proof -
  obtain x y where xy: "vs_vars s = [x, y]" "va_val x = 1" "va_val y = 1" "va_cbs x = [(1, 0)]" "va_cbs y = [(2, 1)]"
    "rw_writer (va_lock x) = None" "rw_writer (va_lock y) = None"
    using m by (auto simp: mirroring_def map_eq_Cons_conv)
  obtain v k where v: "v < 2" and k: "vs_threads s = [V_call (C_SetValue v 7) # k] \<or>
      vs_threads s = [V_rdlock v # V_compare v 7 # k] \<or> vs_threads s = [V_compare v 7 # k] \<or>
      vs_threads s = [V_notify v 1 7 [(if v = 0 then 1 else 2, v)] # k]"
    using m unfolding mirroring_def by blast
  have v': "v = 0 \<or> v = 1" using v by linarith
  note defs = vthread_step_def set_thread_def set_lock_def upd_var_def rdlock_def
  have go_on: "mirroring s'"
    if "map va_val (vs_vars s') = [1, 1]" "map va_cbs (vs_vars s') = [[(1, 0)], [(2, 1)]]"
      "list_all (\<lambda>x. rw_writer (va_lock x) = None) (vs_vars s')" "u < 2"
      "vs_threads s' = [V_call (C_SetValue u 7) # j] \<or> vs_threads s' = [V_rdlock u # V_compare u 7 # j] \<or>
       vs_threads s' = [V_compare u 7 # j] \<or> vs_threads s' = [V_notify u 1 7 [(if u = 0 then 1 else 2, u)] # j]"
    for s' u j
    using that unfolding mirroring_def by blast
  obtain s' where step: "vthread_step mirror 0 s = Some s'"
    using k v' xy by (auto simp: defs)
  have "mirroring s'"
    using k
  proof (elim disjE)
    assume "vs_threads s = [V_call (C_SetValue v 7) # k]"
    then show ?thesis using step xy v by (intro go_on [where u = v and j = k]) (auto simp: defs)
  next
    assume "vs_threads s = [V_rdlock v # V_compare v 7 # k]"
    then show ?thesis using step xy v v' by (intro go_on [where u = v and j = k]) (auto simp: defs)
  next
    assume "vs_threads s = [V_compare v 7 # k]"
    then show ?thesis using step xy v v'
      by (intro go_on [where u = v and j = "V_unlock v # writing v [V_store v 7] @ k"])
        (auto simp: defs compare_step_def Let_def)
  next
    assume "vs_threads s = [V_notify v 1 7 [(if v = 0 then 1 else 2, v)] # k]"
    then show ?thesis using step xy v v'
      by (intro go_on [where u = "1 - v" and j = "V_notify v 1 7 [] # k"]) (auto simp: defs mirror_def)
  qed
  with step show ?thesis by blast
qed

text \<open>A value is stored only after the listeners have been told, so that a listener that is told of the same
  value again, because it is told by its own consequences, never sees that nothing changes: the call
  never returns, with a single thread already.\<close>

theorem mirrored_listeners_never_return: "\<not> vall_returned (vrun mirror (replicate n 0) mirrored)"
proof -
  have "mirroring (vrun mirror (replicate n 0) s)" if "mirroring s" for s
    using that
  proof (induction n arbitrary: s)
    case (Suc n)
    then obtain s' where "vthread_step mirror 0 s = Some s'" "mirroring s'" using mirroring_step by blast
    then show ?case using Suc.IH by simp
  qed simp
  moreover have "mirroring mirrored"
    by (simp add: mirroring_def mirrored_def init_vars_def free_rwlock_def)
  ultimately have "mirroring (vrun mirror (replicate n 0) mirrored)" by blast
  then show ?thesis by (auto simp: mirroring_def vall_returned_def)
qed

subsection \<open>Keys of listeners\<close>

text \<open>A thread adds a listener to variable 0 and deletes it again by the key it was given; another one adds
  a listener to variable 1, which has the same value type.\<close>

definition two_adders :: "nat vsystem" where
  "two_adders = init_vars [(1, []), (1, [])] 0
     [[V_with_listener 0 5 (\<lambda>key. [C_DelListener 0 key])], [V_call (C_AddListener 1 6)]]"

definition listeners_after :: "nat list \<Rightarrow> (u64 \<times> nat) list list option" where
  "listeners_after sched =
     (let s = vrun (\<lambda>cb old new. []) sched two_adders
      in if vall_returned s then Some (map va_cbs (vs_vars s)) else None)"

text \<open>\<open>AddListener\<close> can return the key of another listener: the counter is shared by the variables of
  one type, each of which has a lock of its own, and is read again for the result; when another
  thread adds a listener to another variable in between, the key returned is that of the other
  listener, and deleting by it leaves the listener in place. One after the other, the same calls
  delete it.\<close>

theorem listener_key_race:
  "listeners_after (replicate 20 0 @ replicate 20 1) = Some [[], [(2, 6)]] \<and>
   listeners_after (replicate 4 0 @ replicate 20 1 @ replicate 20 0) = Some [[(1, 5)], [(2, 6)]]"
proof
  show "listeners_after (replicate 20 0 @ replicate 20 1) = Some [[], [(2, 6)]]" by code_simp
  show "listeners_after (replicate 4 0 @ replicate 20 1 @ replicate 20 0) = Some [[(1, 5)], [(2, 6)]]" by code_simp
qed

end
