(* ===== verification/RegThreadsSafe.thy ===== *)
theory RegThreadsSafe
  imports RegThreads
begin

text \<open>
  The registry of configuration variables is linearisable, threads that use it never wait for each other
  for ever, and every call returns.
\<close>

subsection \<open>Holding the lock\<close>

datatype mode = Idle | Reads | Writes

definition mode :: "rwlock \<Rightarrow> nat \<Rightarrow> mode" where
  "mode rw i = (if rw_writer rw = Some i then Writes else if i \<in> set (rw_readers rw) then Reads else Idle)"

definition lock_ok :: "rwlock \<Rightarrow> bool" where
  "lock_ok rw \<longleftrightarrow> distinct (rw_readers rw) \<and> (rw_writer rw \<noteq> None \<longrightarrow> rw_readers rw = [])"

lemma mode_rdlock:
  assumes "lock_ok rw" "mode rw i = Idle" "rdlock i rw = Some rw'"
  shows "lock_ok rw'" "mode rw' i = Reads" "j \<noteq> i \<Longrightarrow> mode rw' j = mode rw j"
  using assms by (auto simp: lock_ok_def mode_def rdlock_def split: if_splits)

lemma mode_wrlock:
  assumes "lock_ok rw" "mode rw i = Idle" "wrlock i rw = Some rw'"
  shows "lock_ok rw'" "mode rw' i = Writes" "j \<noteq> i \<Longrightarrow> mode rw' j = mode rw j"
  using assms by (auto simp: lock_ok_def mode_def wrlock_def split: if_splits)

lemma mode_unlock:
  assumes "lock_ok rw" "mode rw i \<noteq> Idle"
  shows "lock_ok (rw_unlock i rw)" "mode (rw_unlock i rw) i = Idle"
    "j \<noteq> i \<Longrightarrow> mode (rw_unlock i rw) j = mode rw j"
  using assms by (auto simp: lock_ok_def mode_def rw_unlock_def split: if_splits dest: notin_set_remove1)

lemma writer_alone: "lock_ok rw \<Longrightarrow> mode rw i = Writes \<Longrightarrow> j \<noteq> i \<Longrightarrow> mode rw j = Idle"
  by (auto simp: lock_ok_def mode_def split: if_splits)

lemma lock_blocked:
  "lock_ok rw \<Longrightarrow> rdlock i rw = None \<Longrightarrow> \<exists>j. mode rw j \<noteq> Idle"
  "lock_ok rw \<Longrightarrow> wrlock i rw = None \<Longrightarrow> \<exists>j. mode rw j \<noteq> Idle"
proof -
  show "\<exists>j. mode rw j \<noteq> Idle" if "rdlock i rw = None"
    using that by (auto simp: rdlock_def mode_def split: if_splits)
  show "\<exists>j. mode rw j \<noteq> Idle" if "wrlock i rw = None"
    using that by (cases "rw_readers rw") (auto simp: wrlock_def mode_def split: if_splits)
qed

lemma all_idle: "lock_ok rw \<Longrightarrow> (\<And>j. mode rw j = Idle) \<Longrightarrow> rw = free_rwlock"
proof -
  assume idle: "\<And>j. mode rw j = Idle"
  have "rw_writer rw = None"
    using idle [of "the (rw_writer rw)"] by (cases "rw_writer rw") (auto simp: mode_def)
  moreover have "rw_readers rw = []"
    using idle [of "hd (rw_readers rw)"] by (cases "rw_readers rw") (auto simp: mode_def split: if_splits)
  ultimately show ?thesis by (cases rw) (simp add: free_rwlock_def)
qed

subsection \<open>Inside a call\<close>

text \<open>The statements of a call that a thread still has to do, how it holds the lock, and the call if it
  has no result yet. What a search has found is still so.\<close>

fun only_finds :: "'u rcall \<Rightarrow> bool" where
  "only_finds (R_LookUp T name) = True"
| "only_finds (R_LookUpBase name) = True"
| "only_finds _ = False"

inductive inside ::
  "((string \<rightharpoonup> nat) \<Rightarrow> string list) \<Rightarrow> ('u, 's) config \<Rightarrow> mode \<Rightarrow> 'u rinstr list \<Rightarrow> 'u rcall list \<Rightarrow> bool"
  for order cfg where
  outside: "inside order cfg Idle [] []"
| before_write: "inside order cfg Idle [N_wrlock, N_find (R_LookUp_default T n d ds), N_unlock] [R_LookUp_default T n d ds]"
| before_read: "only_finds c \<Longrightarrow> inside order cfg Idle [N_rdlock, N_find c, N_unlock] [c]"
| before_visit: "inside order cfg Idle [N_rdlock, N_begin, N_unlock] [R_Visit]"
| find: "m = Writes \<or> m = Reads \<and> only_finds c \<Longrightarrow> c \<noteq> R_Visit \<Longrightarrow>
    inside order cfg m [N_find c, N_unlock] [c]"
| found: "m = Writes \<or> m = Reads \<and> only_finds c \<Longrightarrow> c \<noteq> R_Visit \<Longrightarrow>
    itr = cf_datas cfg (rname c) \<Longrightarrow> inside order cfg m [N_found c itr, N_unlock] [c]"
| begins: "inside order cfg Reads [N_begin, N_unlock] [R_Visit]"
| visit: "seen @ List.map_filter (cf_datas cfg) names = List.map_filter (cf_datas cfg) (order (cf_datas cfg)) \<Longrightarrow>
    inside order cfg Reads [N_visit names seen, N_unlock] [R_Visit]"
| leave: "m \<noteq> Idle \<Longrightarrow> inside order cfg m [N_unlock] []"

lemma inside_idle: "inside order cfg Idle k p \<Longrightarrow> inside order cfg' Idle k p"
  by (erule inside.cases) (auto intro: inside.intros)

lemma inside_call: "inside order cfg Idle (rcall_step c) [c]"
  by (cases c) (auto intro: inside.intros)

text \<open>What a step of a thread inside a call does.\<close>

definition moves ::
  "'s cfg_env \<Rightarrow> ((string \<rightharpoonup> nat) \<Rightarrow> string list) \<Rightarrow> nat \<Rightarrow> ('u, 's) rsystem \<Rightarrow> 'u rcall list \<Rightarrow>
   ('u, 's) rsystem \<Rightarrow> 'u rcall list \<Rightarrow> bool" where
  "moves env order i s todo s' todo' \<longleftrightarrow>
     rs_done s' = rs_done s \<and> rs_cfg s' = rs_cfg s \<and> rs_out s' = rs_out s \<and> todo' = todo \<or>
     (\<exists>c r. todo = c # todo' \<and> rs_done s' = rs_done s @ [(i, c, r)] \<and>
        seq_call env order c (rs_cfg s) (rs_out s) = (r, rs_cfg s', rs_out s'))"

definition step_inside ::
  "'s cfg_env \<Rightarrow> ((string \<rightharpoonup> nat) \<Rightarrow> string list) \<Rightarrow> nat \<Rightarrow> ('u, 's) rsystem \<Rightarrow> 'u rcall list \<Rightarrow>
   'u rcall list \<Rightarrow> ('u, 's) rsystem \<Rightarrow> bool" where
  "step_inside env order i s p rest s' \<longleftrightarrow>
     (\<exists>k' p' rest'. rs_threads s' = (rs_threads s)[i := k' @ map N_call rest'] \<and>
        inside order (rs_cfg s') (mode (rs_lock s') i) k' p' \<and>
        moves env order i s (p @ rest) s' (p' @ rest')) \<and>
     lock_ok (rs_lock s') \<and> (\<forall>j. j \<noteq> i \<longrightarrow> mode (rs_lock s') j = mode (rs_lock s) j) \<and>
     (rs_cfg s' = rs_cfg s \<or> mode (rs_lock s) i = Writes)"

lemma found_only: "only_finds c \<Longrightarrow> found_step env c itr cfg out = (r, cfg', out') \<Longrightarrow> cfg' = cfg"
  by (cases c) auto

lemma rthread_step_index: "rthread_step env order i s = Some s' \<Longrightarrow> i < length (rs_threads s)"
  by (simp add: rthread_step_def split: if_splits)

lemma rset_thread_simps [simp]:
  "rs_lock (rset_thread i k s) = rs_lock s" "rs_cfg (rset_thread i k s) = rs_cfg s"
  "rs_out (rset_thread i k s) = rs_out s" "rs_done (rset_thread i k s) = rs_done s"
  "rs_threads (rset_thread i k s) = (rs_threads s)[i := k]"
  by (simp_all add: rset_thread_def)

text \<open>A step that only moves on inside the call.\<close>

lemma step_insideI:
  assumes "s' = rset_thread i (k' @ map N_call rest) (s\<lparr>rs_lock := rw\<rparr>)"
    and "inside order (rs_cfg s) (mode rw i) k' p" "lock_ok rw"
    and "\<And>j. j \<noteq> i \<Longrightarrow> mode rw j = mode (rs_lock s) j"
  shows "step_inside env order i s p rest s'"
  unfolding step_inside_def moves_def using assms
  by (intro conjI exI [where x = k'] exI [where x = p] exI [where x = rest]) simp_all

text \<open>A step that gives the call its result.\<close>

lemma step_insideD:
  assumes "s' = rset_thread i ([N_unlock] @ map N_call rest)
      (s\<lparr>rs_cfg := cfg, rs_out := out, rs_done := rs_done s @ [(i, c, r)]\<rparr>)"
    and "seq_call env order c (rs_cfg s) (rs_out s) = (r, cfg, out)" "mode (rs_lock s) i \<noteq> Idle" "lock_ok (rs_lock s)"
    and "cfg = rs_cfg s \<or> mode (rs_lock s) i = Writes"
  shows "step_inside env order i s [c] rest s'"
  unfolding step_inside_def moves_def using assms
  by (intro conjI exI [where x = "[N_unlock]"] exI [where x = "[]"] exI [where x = rest]) (auto intro: inside.leave)

lemma inside_step:
  assumes step: "rthread_step env order i s = Some s'" and k: "rs_threads s ! i = k @ map N_call rest"
    and ins: "inside order (rs_cfg s) (mode (rs_lock s) i) k p" and ok: "lock_ok (rs_lock s)"
  shows "step_inside env order i s p rest s'"
proof -
  note i = rthread_step_index [OF step]
  have same: "rset_thread i k' s = rset_thread i k' (s\<lparr>rs_lock := rs_lock s\<rparr>)" for k' by simp
  show ?thesis
    using ins
  proof cases
    case outside
    then obtain c cs where rest: "rest = c # cs" using step i k by (cases rest) (auto simp: rthread_step_def)
    then have "s' = rset_thread i (rcall_step c @ map N_call cs) s"
      using step i k outside by (simp add: rthread_step_def)
    then show ?thesis
      using rest outside ok inside_call unfolding step_inside_def moves_def
      by (intro conjI exI [where x = "rcall_step c"] exI [where x = "[c]"] exI [where x = cs]) auto
  next
    case (before_write T n d ds)
    then obtain rw where rw: "wrlock i (rs_lock s) = Some rw"
      "s' = rset_thread i ([N_find (R_LookUp_default T n d ds), N_unlock] @ map N_call rest) (s\<lparr>rs_lock := rw\<rparr>)"
      using step i k by (auto simp: rthread_step_def)
    note m = mode_wrlock [OF ok _ rw(1)]
    show ?thesis
      using before_write m by (intro step_insideI [OF rw(2)]) (auto intro: inside.find)
  next
    case (before_read c)
    then obtain rw where rw: "rdlock i (rs_lock s) = Some rw"
      "s' = rset_thread i ([N_find c, N_unlock] @ map N_call rest) (s\<lparr>rs_lock := rw\<rparr>)"
      using step i k by (auto simp: rthread_step_def)
    note m = mode_rdlock [OF ok _ rw(1)]
    show ?thesis
      using before_read m by (intro step_insideI [OF rw(2)]) (auto intro!: inside.find)
  next
    case before_visit
    then obtain rw where rw: "rdlock i (rs_lock s) = Some rw"
      "s' = rset_thread i ([N_begin, N_unlock] @ map N_call rest) (s\<lparr>rs_lock := rw\<rparr>)"
      using step i k by (auto simp: rthread_step_def)
    note m = mode_rdlock [OF ok _ rw(1)]
    show ?thesis
      using before_visit m by (intro step_insideI [OF rw(2)]) (auto intro: inside.begins)
  next
    case (find c)
    then have "s' = rset_thread i ([N_found c (cf_datas (rs_cfg s) (rname c)), N_unlock] @ map N_call rest) s"
      using step i k by (simp add: rthread_step_def)
    then show ?thesis
      unfolding same by (rule step_insideI) (use find ok in \<open>auto intro: inside.found\<close>)
  next
    case (found c itr)
    obtain r cfg out where r: "found_step env c itr (rs_cfg s) (rs_out s) = (r, cfg, out)"
      using prod_cases3 by blast
    have "s' = rset_thread i ([N_unlock] @ map N_call rest)
        (s\<lparr>rs_cfg := cfg, rs_out := out, rs_done := rs_done s @ [(i, c, r)]\<rparr>)"
      using found step i k r by (simp add: rthread_step_def)
    then show ?thesis
      unfolding found(2) using found r found_only [OF _ r] found_is_seq [of c env "rs_cfg s" "rs_out s" order]
      by (intro step_insideD [OF _ _ _ ok]) auto
  next
    case begins
    then have "s' = rset_thread i ([N_visit (order (cf_datas (rs_cfg s))) [], N_unlock] @ map N_call rest) s"
      using step i k by (simp add: rthread_step_def)
    then show ?thesis
      unfolding same by (rule step_insideI) (use begins ok in \<open>auto intro: inside.visit\<close>)
  next
    case (visit seen names)
    show ?thesis
    proof (cases names)
      case Nil
      then have "s' = rset_thread i ([N_unlock] @ map N_call rest)
          (s\<lparr>rs_cfg := rs_cfg s, rs_out := rs_out s, rs_done := rs_done s @ [(i, R_Visit, Visited seen)]\<rparr>)"
        using visit step i k by (simp add: rthread_step_def)
      then show ?thesis
        unfolding visit(3) using visit Nil by (intro step_insideD [OF _ _ _ ok]) (auto simp: List.map_filter_simps)
    next
      case (Cons n ns)
      let ?seen = "case cf_datas (rs_cfg s) n of None \<Rightarrow> seen | Some v \<Rightarrow> seen @ [v]"
      have "s' = rset_thread i ([N_visit ns ?seen, N_unlock] @ map N_call rest) s"
        using visit Cons step i k by (simp add: rthread_step_def)
      then show ?thesis
        unfolding same by (rule step_insideI)
          (use visit Cons ok in \<open>auto simp: List.map_filter_simps intro!: inside.visit split: option.splits\<close>)
    qed
  next
    case leave
    then have s': "s' = rset_thread i ([] @ map N_call rest) (s\<lparr>rs_lock := rw_unlock i (rs_lock s)\<rparr>)"
      using step i k by (simp add: rthread_step_def)
    show ?thesis
      by (rule step_insideI [OF s']) (use leave mode_unlock [OF ok] in \<open>auto intro: inside.outside\<close>)
  qed
qed

subsection \<open>The system\<close>

text \<open>The calls of a thread that have their results.\<close>

definition done_by :: "(nat \<times> 'u rcall \<times> rresult) list \<Rightarrow> nat \<Rightarrow> 'u rcall list" where
  "done_by done' i = map (\<lambda>(j, c, r). c) (filter (\<lambda>(j, c, r). j = i) done')"

definition sequential ::
  "'s cfg_env \<Rightarrow> ((string \<rightharpoonup> nat) \<Rightarrow> string list) \<Rightarrow> ('u, 's) config \<Rightarrow> 's \<Rightarrow> ('u, 's) rsystem \<Rightarrow> bool" where
  "sequential env order cfg out s \<longleftrightarrow>
     seq_calls env order (map (\<lambda>(i, c, r). c) (rs_done s)) cfg out =
       (map (\<lambda>(i, c, r). r) (rs_done s), rs_cfg s, rs_out s)"

definition in_thread ::
  "((string \<rightharpoonup> nat) \<Rightarrow> string list) \<Rightarrow> ('u, 's) rsystem \<Rightarrow> nat \<Rightarrow> 'u rcall list \<Rightarrow> bool" where
  "in_thread order s i program \<longleftrightarrow>
     (\<exists>k p rest. rs_threads s ! i = k @ map N_call rest \<and> inside order (rs_cfg s) (mode (rs_lock s) i) k p \<and>
        program = done_by (rs_done s) i @ p @ rest)"

definition reg_ok ::
  "'s cfg_env \<Rightarrow> ((string \<rightharpoonup> nat) \<Rightarrow> string list) \<Rightarrow> 'u rcall list list \<Rightarrow> ('u, 's) config \<Rightarrow> 's \<Rightarrow>
   ('u, 's) rsystem \<Rightarrow> bool" where
  "reg_ok env order programs cfg out s \<longleftrightarrow>
     lock_ok (rs_lock s) \<and> length (rs_threads s) = length programs \<and>
     (\<forall>i. length programs \<le> i \<longrightarrow> mode (rs_lock s) i = Idle) \<and>
     (\<forall>i < length programs. in_thread order s i (programs ! i)) \<and> sequential env order cfg out s"

lemma reg_ok_init: "reg_ok env order programs cfg out (init_registry cfg out programs)"
proof -
  let ?s = "init_registry cfg out programs"
  have idle: "mode (rs_lock ?s) i = Idle" for i by (simp add: init_registry_def mode_def free_rwlock_def)
  have "in_thread order ?s i (programs ! i)" if "i < length programs" for i
    unfolding in_thread_def idle using that
    by (intro exI [where x = "[]"] exI [where x = "programs ! i"] conjI inside.outside)
      (simp_all add: init_registry_def done_by_def)
  then show ?thesis
    using idle by (simp add: reg_ok_def sequential_def lock_ok_def init_registry_def free_rwlock_def)
qed

lemma moves_done:
  assumes "moves env order i s todo s' todo'"
  shows "done_by (rs_done s) i @ todo = done_by (rs_done s') i @ todo'"
    "j \<noteq> i \<Longrightarrow> done_by (rs_done s') j = done_by (rs_done s) j"
    "sequential env order cfg out s \<Longrightarrow> sequential env order cfg out s'"
  using assms by (auto simp: moves_def done_by_def sequential_def seq_calls_snoc)

lemma reg_ok_step:
  assumes ok: "reg_ok env order programs cfg out s" and step: "rthread_step env order i s = Some s'"
  shows "reg_ok env order programs cfg out s'"
proof -
  have i: "i < length programs" using rthread_step_index [OF step] ok by (simp add: reg_ok_def)
  then obtain k p rest where k: "rs_threads s ! i = k @ map N_call rest"
    "inside order (rs_cfg s) (mode (rs_lock s) i) k p" "programs ! i = done_by (rs_done s) i @ p @ rest"
    using ok by (auto simp: reg_ok_def in_thread_def)
  have "step_inside env order i s p rest s'"
    using inside_step [OF step k(1,2)] ok by (simp add: reg_ok_def)
  then obtain k' p' rest' where s': "rs_threads s' = (rs_threads s)[i := k' @ map N_call rest']"
    "inside order (rs_cfg s') (mode (rs_lock s') i) k' p'" "moves env order i s (p @ rest) s' (p' @ rest')"
    "lock_ok (rs_lock s')" "\<And>j. j \<noteq> i \<Longrightarrow> mode (rs_lock s') j = mode (rs_lock s) j"
    "rs_cfg s' = rs_cfg s \<or> mode (rs_lock s) i = Writes"
    unfolding step_inside_def by blast
  have "in_thread order s' j (programs ! j)" if j: "j < length programs" for j
  proof (cases "j = i")
    case True
    then show ?thesis using s' k(3) moves_done(1) [OF s'(3)] i ok by (auto simp: in_thread_def reg_ok_def)
  next
    case False
    obtain l q todo where l: "rs_threads s ! j = l @ map N_call todo"
      "inside order (rs_cfg s) (mode (rs_lock s) j) l q" "programs ! j = done_by (rs_done s) j @ q @ todo"
      using ok j by (auto simp: reg_ok_def in_thread_def)
    have "inside order (rs_cfg s') (mode (rs_lock s) j) l q"
      using l(2) s'(6) writer_alone [of "rs_lock s" i j] ok False inside_idle by (auto simp: reg_ok_def)
    then show ?thesis
      unfolding in_thread_def using False l s'(1,5) moves_done(2) [OF s'(3) False]
      by (intro exI [where x = l] exI [where x = q] exI [where x = todo]) simp
  qed
  then show ?thesis
    using ok s'(1,4,5) i moves_done(3) [OF s'(3)] by (auto simp: reg_ok_def)
qed

subsection \<open>Nobody waits for ever\<close>

fun rinstr_level :: "'u rinstr \<Rightarrow> nat \<times> nat \<times> nat" where
  "rinstr_level (N_call c) = (3, 0, 0)"
| "rinstr_level (N_find c) = (2, 0, 0)"
| "rinstr_level N_begin = (2, 0, 0)"
| "rinstr_level (N_found c itr) = (1, 0, 0)"
| "rinstr_level (N_visit names seen) = (1, 0, length names)"
| "rinstr_level _ = (0, 0, 0)"

lemma rinstr_step_level:
  "y \<in> set (fst (rinstr_step env order i x s)) \<Longrightarrow> (rinstr_level y, rinstr_level x) \<in> level_less"
proof (cases x)
  case (N_call c)
  then show "y \<in> set (fst (rinstr_step env order i x s)) \<Longrightarrow> ?thesis" by (cases c) auto
next
  case (N_visit names seen)
  then show "y \<in> set (fst (rinstr_step env order i x s)) \<Longrightarrow> ?thesis" by (cases names) auto
qed (auto split: prod.splits)

lemma rthread_step_cases:
  assumes "rthread_step env order i s = Some s'"
  obtains x k new where "rs_threads s ! i = x # k" "rs_threads s' = (rs_threads s)[i := new @ k]"
    "new = [] \<or> new = fst (rinstr_step env order i x s)"
proof -
  obtain x k where x: "rs_threads s ! i = x # k"
    using assms by (cases "rs_threads s ! i") (auto simp: rthread_step_def split: if_splits)
  have same: "rs_threads (snd (rinstr_step env order i x s)) = rs_threads s"
    by (cases "(env, order, i, x, s)" rule: rinstr_step.cases) (auto split: prod.split)
  show ?thesis
    using that [OF x, of "[]"] that [OF x, of "fst (rinstr_step env order i x s)"] assms x same
    by (cases x) (auto simp: rthread_step_def case_prod_beta split: if_splits)
qed

definition rload :: "('u, 's) rsystem \<Rightarrow> (nat \<times> nat \<times> nat) multiset" where
  "rload s = image_mset rinstr_level (mset (concat (rs_threads s)))"

lemma rload_decreases:
  assumes "rthread_step env order i s = Some s'"
  shows "(rload s', rload s) \<in> mult1 level_less"
  using assms
proof (cases rule: rthread_step_cases)
  case (1 x k new)
  then show ?thesis
    unfolding rload_def using rthread_step_index [OF assms] rinstr_step_level
    by (intro stacks_decrease) auto
qed

definition rblocked :: "('u, 's) rsystem \<Rightarrow> nat \<Rightarrow> bool" where
  "rblocked s i \<longleftrightarrow>
     (case rs_threads s ! i of
        N_wrlock # k \<Rightarrow> wrlock i (rs_lock s) = None
      | N_rdlock # k \<Rightarrow> rdlock i (rs_lock s) = None
      | _ \<Rightarrow> False)"

definition rwants :: "('u, 's) rsystem \<Rightarrow> nat \<Rightarrow> unit option" where
  "rwants s i = (case rs_threads s ! i of N_wrlock # k \<Rightarrow> Some () | N_rdlock # k \<Rightarrow> Some () | _ \<Rightarrow> None)"

definition rholds :: "('u, 's) rsystem \<Rightarrow> nat \<Rightarrow> unit \<Rightarrow> bool" where
  "rholds s i l \<longleftrightarrow> mode (rs_lock s) i \<noteq> Idle"

lemma holder_works:
  assumes ok: "reg_ok env order programs cfg out s" and held: "rholds s i l"
  shows "i < length (rs_threads s) \<and> rs_threads s ! i \<noteq> [] \<and> rwants s i = None"
proof -
  have m: "mode (rs_lock s) i \<noteq> Idle" using held by (simp add: rholds_def)
  then have i: "i < length programs" using ok unfolding reg_ok_def by (meson not_le)
  then obtain k p rest where k: "rs_threads s ! i = k @ map N_call rest"
    "inside order (rs_cfg s) (mode (rs_lock s) i) k p"
    using ok by (auto simp: reg_ok_def in_thread_def)
  have "i < length (rs_threads s)" using ok i by (simp add: reg_ok_def)
  with k(2) show ?thesis by (cases rule: inside.cases) (use k(1) m in \<open>auto simp: rwants_def\<close>)
qed

interpretation registry: finishing_locks "reg_ok env order programs cfg out" "\<lambda>s i. i < length (rs_threads s)"
  "\<lambda>s i. rs_threads s ! i = []" rholds rwants rblocked "\<lambda>s l. 0" 0 "\<lambda>s i s'. rthread_step env order i s = Some s'"
  for env :: "'s cfg_env" and order and programs :: "'u rcall list list" and cfg :: "('u, 's) config" and out
proof unfold_locales
  fix s :: "('u, 's) rsystem" and i
  assume "reg_ok env order programs cfg out s" "rblocked s i"
  then show "\<exists>l j. rwants s i = Some l \<and> rholds s j l"
    using lock_blocked [of "rs_lock s" i]
    by (auto simp: rblocked_def rwants_def rholds_def reg_ok_def split: list.splits rinstr.splits)
next
  fix s :: "('u, 's) rsystem" and i
  assume "i < length (rs_threads s)" "rs_threads s ! i \<noteq> []" "\<not> rblocked s i"
  then show "\<exists>s'. rthread_step env order i s = Some s'"
    by (cases "rs_threads s ! i"; cases "hd (rs_threads s ! i)")
      (auto simp: rthread_step_def rblocked_def split: prod.split)
next
  show "wf {(s', s :: ('u, 's) rsystem). reg_ok env order programs cfg out s \<and> (\<exists>i. rthread_step env order i s = Some s')}"
    by (rule wf_subset [OF wf_inv_image [OF wf_mult1 [OF wf_level_less], of rload]])
      (auto dest: rload_decreases)
qed (auto dest: holder_works reg_ok_step)

subsection \<open>Runs\<close>

lemma rrun_ok: "reg_ok env order programs cfg out s \<Longrightarrow> reg_ok env order programs cfg out (rrun env order sched s)"
  by (induction sched arbitrary: s) (auto split: option.split dest: reg_ok_step)

lemma run_is_rrun: "registry.run env order s is s' \<Longrightarrow> rrun env order is s = s'"
  by (induction rule: registry.run.induct) simp_all

lemma rall_returned_iff: "rall_returned s \<longleftrightarrow> registry.all_finished s"
  by (simp add: rall_returned_def registry.all_finished_def list_all_length)

text \<open>A thread that has nothing left to do has the results of all its calls.\<close>

lemma in_thread_done:
  assumes "in_thread order s i program"
  shows "\<exists>rest. program = done_by (rs_done s) i @ rest \<and> (rs_threads s ! i = [] \<longrightarrow> rest = [])"
proof -
  obtain k p rest where k: "rs_threads s ! i = k @ map N_call rest" "inside order (rs_cfg s) (mode (rs_lock s) i) k p"
    "program = done_by (rs_done s) i @ p @ rest"
    using assms by (auto simp: in_thread_def)
  have "p = []" if "k = []" using k(2) that by cases auto
  then show ?thesis using k(1,3) by auto
qed

lemma free_at_end:
  assumes "reg_ok env order programs cfg out s" "rall_returned s"
  shows "rs_lock s = free_rwlock"
proof (rule all_idle)
  show "mode (rs_lock s) j = Idle" for j
    using registry.unlocked_at_end [of env order programs cfg out s j "()"] assms
    by (simp add: rall_returned_iff rholds_def)
qed (use assms in \<open>simp add: reg_ok_def\<close>)

text \<open>C18: the registry of configuration variables is linearisable. Whatever the order in which threads
  take their steps, the calls that have their results have those, and have left the registry and
  the log in the state, of the same calls of the sequential operations one after the other, in an
  order that keeps that of each thread; when all have returned, all calls have their results and the
  lock is free, and from every point this can be reached.\<close>

theorem registry_linearisable:
  "let s = rrun env order sched (init_registry cfg out programs) in
     seq_calls env order (map (\<lambda>(i, c, r). c) (rs_done s)) cfg out =
       (map (\<lambda>(i, c, r). r) (rs_done s), rs_cfg s, rs_out s) \<and>
     (\<forall>i < length programs. \<exists>rest.
        programs ! i = done_by (rs_done s) i @ rest \<and> (rs_threads s ! i = [] \<longrightarrow> rest = [])) \<and>
     (rall_returned s \<longrightarrow> rs_lock s = free_rwlock) \<and>
     (\<exists>more. rall_returned (rrun env order more s))"
proof -
  define s where "s = rrun env order sched (init_registry cfg out programs)"
  have ok: "reg_ok env order programs cfg out s"
    unfolding s_def by (rule rrun_ok [OF reg_ok_init])
  have "\<exists>more. rall_returned (rrun env order more s)"
    using registry.completes [OF ok] run_is_rrun rall_returned_iff by metis
  then show ?thesis
    using ok free_at_end [OF ok] in_thread_done
    unfolding s_def [symmetric] Let_def reg_ok_def sequential_def by blast
qed

text \<open>An example: two threads register the same name, with different values; both get the same variable.\<close>

definition int_type :: "int vtype" where
  "int_type = \<lparr>vt_name = ''int'', vt_from = \<lambda>s. Inr 0, vt_to = \<lambda>n. Inr []\<rparr>"

definition quiet_env :: "unit cfg_env" where
  "quiet_env = \<lparr>ce_log = \<lambda>n l t s. s, ce_lets_root = \<lambda>l s. True, ce_what = \<lambda>e. []\<rparr>"

definition same_name :: "int rcall list list" where
  "same_name = [[R_LookUp_default int_type ''port'' 80 []], [R_LookUp_default int_type ''port'' 81 []]]"

theorem registry_linearisable_witness:
  "let s = rrun quiet_env (\<lambda>m. []) [0, 1, 0, 1, 0, 1, 0, 0, 1, 1, 1, 1, 1] (init_registry empty_config () same_name) in
     map (\<lambda>(i, c, r). r) (rs_done s) = [Found (Inr (Some 0)), Found (Inr (Some 0))] \<and>
     rs_lock s = free_rwlock \<and> (\<exists>more. rall_returned (rrun quiet_env (\<lambda>m. []) more s))"
proof -
  let ?s = "rrun quiet_env (\<lambda>m. []) [0, 1, 0, 1, 0, 1, 0, 0, 1, 1, 1, 1, 1] (init_registry empty_config () same_name)"
  have "rall_returned ?s" by code_simp
  moreover have "map (\<lambda>(i, c, r). r) (rs_done ?s) = [Found (Inr (Some 0)), Found (Inr (Some 0))]" by code_simp
  ultimately show ?thesis
    using registry_linearisable [of quiet_env "\<lambda>m. []" "[0, 1, 0, 1, 0, 1, 0, 0, 1, 1, 1, 1, 1]" empty_config "()" same_name]
    unfolding Let_def by blast
qed

end
