(* ===== verification/Fiber.thy ===== *)
theory Fiber
  imports Config
begin

text \<open>
  Fibers: \<open>primo/fiber.h\<close> and \<open>primo/fiber.cpp\<close>. Fibers are shared by pointer, so they live in a store
  and are named by their index; \<open>t_fiber\<close> and \<open>t_threadFiber\<close> are the two thread-local variables of
  the thread at hand. A callback is a program \<open>coro\<close> over the state \<open>'s\<close> of the rest of the process,
  in which the places where it yields are visible. Switching to a fiber runs its program up to the
  next yield or to its end, after which control is back where it came from; programs that switch
  to other fibers themselves are the subject of \<open>Switching\<close>.
\<close>

subsection \<open>Callbacks\<close>

datatype ('s, 'k) stretch =
    Return
  | Raise exn
  | Do "'s \<Rightarrow> 's" "('s, 'k) stretch"
  | Branch "'s \<Rightarrow> ('s, 'k) stretch"
  | Yield_ready 'k
  | Yield_hold 'k

codatatype 's coro = Coro (next_stretch: "('s, 's coro) stretch")

text \<open>How a stretch of a program ends. Between two yields a program always comes to an end; it may
  yield for ever.\<close>

datatype 'k stop = Finished | Raised exn | Ready_at 'k | Held_at 'k

primrec run_stretch :: "('s, 'k) stretch \<Rightarrow> 's \<Rightarrow> 's \<times> 'k stop" where
  "run_stretch Return s = (s, Finished)"
| "run_stretch (Raise e) s = (s, Raised e)"
| "run_stretch (Do f c) s = run_stretch c (f s)"
| "run_stretch (Branch k) s = run_stretch (k s) s"
| "run_stretch (Yield_ready c) s = (s, Ready_at c)"
| "run_stretch (Yield_hold c) s = (s, Held_at c)"

definition run_coro :: "'s coro \<Rightarrow> 's \<Rightarrow> 's \<times> 's coro stop" where
  "run_coro c s = run_stretch (next_stretch c) s"

lemma run_coro_Coro [simp]: "run_coro (Coro p) s = run_stretch p s"
  by (simp add: run_coro_def)

subsection \<open>State\<close>

datatype fiber_state = INIT | HOLD | EXEC | TERM' | READY | EXCEPT

text \<open>What a saved context would resume: the entry function, the callback at the point where it
  yielded, the point behind the last switch of the entry function, or the thread's own stack.\<close>

datatype entry = MainFunc | CallerMainFunc

datatype 's ucontext =
    At_entry entry
  | In_callback entry "'s coro"
  | At_end entry
  | Own_stack

record 's fiber =
  fb_id :: u64
  fb_stack_size :: u32
  fb_state :: fiber_state
  fb_context :: "'s ucontext"
  fb_stack :: bool
  fb_callback :: "'s coro option"
  fb_alive :: bool

record 's fibers =
  fs_store :: "'s fiber list"
  fs_next_id :: u64
  fs_count :: u64

record tls =
  t_fiber :: "nat option"
  t_threadFiber :: "nat option"

text \<open>What the constructor needs from outside: the value of the configuration variable and whether
  \<open>malloc\<close> of a size gives a stack.\<close>

record fiber_env =
  fe_stack_size :: u32
  fe_malloc :: "u32 \<Rightarrow> bool"

definition upd_fiber :: "nat \<Rightarrow> ('s fiber \<Rightarrow> 's fiber) \<Rightarrow> 's fibers \<Rightarrow> 's fibers" where
  "upd_fiber f g fs = fs\<lparr>fs_store := (fs_store fs)[f := g (fs_store fs ! f)]\<rparr>"

definition GetState :: "nat \<Rightarrow> 's fibers \<Rightarrow> fiber_state" where
  "GetState f fs = fb_state (fs_store fs ! f)"

definition set_state :: "nat \<Rightarrow> fiber_state \<Rightarrow> 's fibers \<Rightarrow> 's fibers" where
  "set_state f st fs = upd_fiber f (\<lambda>b. b\<lparr>fb_state := st\<rparr>) fs"

definition save_context :: "nat \<Rightarrow> 's ucontext \<Rightarrow> 's fibers \<Rightarrow> 's fibers" where
  "save_context f c fs = upd_fiber f (\<lambda>b. b\<lparr>fb_context := c\<rparr>) fs"

definition SetThis :: "nat option \<Rightarrow> tls \<Rightarrow> tls" where
  "SetThis p th = th\<lparr>t_fiber := p\<rparr>"

definition TotalFibers :: "'s fibers \<Rightarrow> u64" where
  "TotalFibers fs = fs_count fs"

subsection \<open>Creation, reuse and destruction\<close>

text \<open>The static variable of the stack size.\<close>

definition gFiberStackSize ::
  "'e cfg_env \<Rightarrow> 'u vtype \<Rightarrow> (u32 \<Rightarrow> 'u) \<Rightarrow> ('u, 'e) config \<Rightarrow> 'e \<Rightarrow> nat option outcome \<times> ('u, 'e) config \<times> 'e"
where
  "gFiberStackSize env T wrap cfg s =
     LookUp_default env T ''fiber stack size'' (wrap (128 * 1024)) ''fiber stack size'' cfg s"

text \<open>The constructor chooses the entry function by the member \<open>use_caller\<close>, which nothing has
  initialised: its value is the argument \<open>junk\<close>. The parameter \<open>usecaller\<close> is not used.\<close>

definition new_Fiber ::
  "fiber_env \<Rightarrow> bool \<Rightarrow> 's coro option \<Rightarrow> u64 \<Rightarrow> bool \<Rightarrow> 's fibers \<Rightarrow> nat \<times> 's fibers" where
  "new_Fiber env junk cb stacksize usecaller fs =
     (let mId = fs_next_id fs + 1;
          mStackSize = (if stacksize \<noteq> 0 then ucast stacksize else fe_stack_size env)
      in (length (fs_store fs),
          fs\<lparr>fs_store := fs_store fs @
               [\<lparr>fb_id = mId, fb_stack_size = mStackSize, fb_state = INIT,
                 fb_context = At_entry (if \<not> junk then MainFunc else CallerMainFunc),
                 fb_stack = fe_malloc env mStackSize, fb_callback = cb, fb_alive = True\<rparr>],
             fs_next_id := mId, fs_count := fs_count fs + 1\<rparr>))"

text \<open>The default constructor makes the fiber that stands for the thread itself.\<close>

definition new_main_Fiber :: "tls \<Rightarrow> 's fibers \<Rightarrow> nat \<times> tls \<times> 's fibers" where
  "new_main_Fiber th fs =
     (let f = length (fs_store fs)
      in (f, SetThis (Some f) th,
          fs\<lparr>fs_store := fs_store fs @
               [\<lparr>fb_id = 0, fb_stack_size = 0, fb_state = EXEC, fb_context = Own_stack,
                 fb_stack = False, fb_callback = None, fb_alive = True\<rparr>],
             fs_count := fs_count fs + 1\<rparr>))"

definition GetThis :: "tls \<Rightarrow> 's fibers \<Rightarrow> (nat \<times> tls \<times> 's fibers) outcome" where
  "GetThis th fs =
     (case t_fiber th of
        Some f \<Rightarrow> Inr (f, th, fs)
      | None \<Rightarrow>
          (case new_main_Fiber th fs of (main_fiber, th, fs) \<Rightarrow>
             if t_fiber th \<noteq> Some main_fiber then Inl (Assert_fail ''main_fiber.get() == t_fiber'')
             else Inr (main_fiber, th\<lparr>t_threadFiber := Some main_fiber\<rparr>, fs)))"

definition delete_Fiber :: "nat \<Rightarrow> tls \<Rightarrow> 's fibers \<Rightarrow> (tls \<times> 's fibers) outcome" where
  "delete_Fiber f th fs =
     (let b = fs_store fs ! f;
          fs = upd_fiber f (\<lambda>b. b\<lparr>fb_alive := False\<rparr>) (fs\<lparr>fs_count := fs_count fs - 1\<rparr>)
      in if fb_stack b
         then if fb_state b = INIT \<or> fb_state b = EXCEPT \<or> fb_state b = TERM' then Inr (th, fs)
              else Inl (Assert_fail ''mState == INIT || mState == EXCEPT || mState == TERM'')
         else if fb_callback b \<noteq> None then Inl (Assert_fail ''!mCallback'')
         else if fb_state b \<noteq> EXEC then Inl (Assert_fail ''mState == EXEC'')
         else Inr (if t_fiber th = Some f then SetThis None th else th, fs))"

definition Reset :: "nat \<Rightarrow> 's coro option \<Rightarrow> 's fibers \<Rightarrow> 's fibers outcome" where
  "Reset f cb fs =
     (let b = fs_store fs ! f
      in if \<not> fb_stack b then Inl (Assert_fail ''pStack'')
         else if fb_state b \<noteq> TERM' \<and> fb_state b \<noteq> EXCEPT \<and> fb_state b \<noteq> INIT
         then Inl (Assert_fail ''mState == TERM || mState == EXCEPT || mState == INIT'')
         else Inr (upd_fiber f (\<lambda>b. b\<lparr>fb_callback := cb, fb_context := At_entry MainFunc,
                                    fb_state := INIT\<rparr>) fs))"

subsection \<open>Switching\<close>

text \<open>\<open>SwapOut\<close> and \<open>Back\<close>, called by the running fiber \<open>f\<close>; \<open>c\<close> is the point it will resume at.\<close>

definition SwapOut :: "nat \<Rightarrow> 's ucontext \<Rightarrow> tls \<Rightarrow> 's fibers \<Rightarrow> tls \<times> 's fibers" where
  "SwapOut f c th fs = (SetThis (t_threadFiber th) th, save_context f c fs)"

definition Back :: "nat \<Rightarrow> 's ucontext \<Rightarrow> tls \<Rightarrow> 's fibers \<Rightarrow> tls \<times> 's fibers" where
  "Back f c th fs = (SetThis (t_threadFiber th) th, save_context f c fs)"

definition YieldToReady :: "'s ucontext \<Rightarrow> tls \<Rightarrow> 's fibers \<Rightarrow> (tls \<times> 's fibers) outcome" where
  "YieldToReady c th fs =
     obind (GetThis th fs) (\<lambda>(cur, th, fs).
       if GetState cur fs \<noteq> EXEC then Inl (Assert_fail ''cur->mState == EXEC'')
       else Inr (SwapOut cur c th (set_state cur READY fs)))"

definition YieldToHold :: "'s ucontext \<Rightarrow> tls \<Rightarrow> 's fibers \<Rightarrow> (tls \<times> 's fibers) outcome" where
  "YieldToHold c th fs =
     obind (GetThis th fs) (\<lambda>(cur, th, fs).
       if GetState cur fs \<noteq> EXEC then Inl (Assert_fail ''cur->mState == EXEC'')
       else Inr (SwapOut cur c th fs))"

text \<open>The entry functions after the callback has returned or thrown: the final switch is \<open>SwapOut\<close> in
  the one and \<open>Back\<close> in the other.\<close>

definition leave_entry :: "entry \<Rightarrow> nat \<Rightarrow> tls \<Rightarrow> 's fibers \<Rightarrow> tls \<times> 's fibers" where
  "leave_entry e f th fs =
     (case e of MainFunc \<Rightarrow> SwapOut f (At_end e) th fs | CallerMainFunc \<Rightarrow> Back f (At_end e) th fs)"

text \<open>The callback of the current fiber runs from a point on, inside the \<open>try\<close> of its entry
  function.\<close>

definition run_callback ::
  "entry \<Rightarrow> nat \<Rightarrow> 's coro \<Rightarrow> tls \<Rightarrow> 's fibers \<Rightarrow> 's \<Rightarrow> (tls \<times> 's fibers \<times> 's) outcome" where
  "run_callback e cur c th fs s =
     (case run_coro c s of
        (s', Finished) \<Rightarrow>
          (case leave_entry e cur th
                  (upd_fiber cur (\<lambda>b. b\<lparr>fb_callback := None, fb_state := TERM'\<rparr>) fs) of
             (th', fs') \<Rightarrow> Inr (th', fs', s'))
      | (s', Raised x) \<Rightarrow>
          (case leave_entry e cur th (set_state cur EXCEPT fs) of (th', fs') \<Rightarrow> Inr (th', fs', s'))
      | (s', Ready_at c') \<Rightarrow>
          obind (YieldToReady (In_callback e c') th fs) (\<lambda>(th', fs'). Inr (th', fs', s'))
      | (s', Held_at c') \<Rightarrow>
          obind (YieldToHold (In_callback e c') th fs) (\<lambda>(th', fs'). Inr (th', fs', s')))"

text \<open>\<open>MainFunc\<close> and \<open>CallerMainFunc\<close> from their start; calling an empty function throws.\<close>

definition run_entry ::
  "entry \<Rightarrow> tls \<Rightarrow> 's fibers \<Rightarrow> 's \<Rightarrow> (tls \<times> 's fibers \<times> 's) outcome" where
  "run_entry e th fs s =
     obind (GetThis th fs) (\<lambda>(cur, th, fs).
       run_callback e cur
         (case fb_callback (fs_store fs ! cur) of None \<Rightarrow> Coro (Raise Bad_function_call) | Some c \<Rightarrow> c) th fs s)"

text \<open>\<open>swapcontext\<close> to fiber \<open>f\<close>: the saved context runs until it switches back.\<close>

definition resume :: "nat \<Rightarrow> tls \<Rightarrow> 's fibers \<Rightarrow> 's \<Rightarrow> (tls \<times> 's fibers \<times> 's) outcome" where
  "resume f th fs s =
     (case fb_context (fs_store fs ! f) of
        At_entry e \<Rightarrow> run_entry e th fs s
      | In_callback e c \<Rightarrow> run_callback e f c th fs s
      | At_end e \<Rightarrow> Inl (Assert_fail ''never reach'')
      | Own_stack \<Rightarrow> Inr (th, fs, s))"

definition SwapIn :: "nat \<Rightarrow> tls \<Rightarrow> 's fibers \<Rightarrow> 's \<Rightarrow> (tls \<times> 's fibers \<times> 's) outcome" where
  "SwapIn f th fs s =
     (let th = SetThis (Some f) th
      in if GetState f fs = EXEC then Inl (Assert_fail ''mState != EXEC'')
         else if t_threadFiber th = None then Inl Null_deref
         else resume f th (set_state f EXEC fs) s)"

definition Call :: "nat \<Rightarrow> tls \<Rightarrow> 's fibers \<Rightarrow> 's \<Rightarrow> (tls \<times> 's fibers \<times> 's) outcome" where
  "Call f th fs s =
     (if t_threadFiber th = None then Inl Null_deref
      else resume f (SetThis (Some f) th) (set_state f EXEC fs) s)"

end
