(* ===== verification/Switching.thy ===== *)
theory Switching
  imports Fiber
begin

text \<open>
  The fibers of one thread at the level of \<open>primo/fiber.cpp\<close>'s calls of \<open>swapcontext\<close>. Here a program
  can do everything the sources do with fibers, also switch to fibers from inside a fiber: which
  continuation a switch resumes depends on what the saved contexts hold. A machine is a thread whose
  main fiber exists. Contexts name the stack they continue on and how often that stack had been
  entered when they were saved: a context is good for one resumption, since the function that saved it
  returns after it, and resuming it again is undefined. The messages to the log, the numbers and
  the counting of fibers are left out; \<open>malloc\<close> always gives a stack.
\<close>

subsection \<open>Programs\<close>

datatype ('s, 'k) op =
    Op_return
  | Op_raise exn
  | Op_fail fault
  | Op_do "'s \<Rightarrow> 's" 'k
  | Op_branch "'s \<Rightarrow> fiber_state list \<Rightarrow> 'k"
  | Op_new "'k option" "nat \<Rightarrow> 'k"
  | Op_reset nat "'k option" 'k
  | Op_hold nat 'k
  | Op_yield_ready 'k
  | Op_yield_hold 'k
  | Op_swap_in nat 'k
  | Op_call nat 'k

codatatype 's code = Code (next_op: "('s, 's code) op")

subsection \<open>Machines\<close>

text \<open>Where a stack goes on: at the start of an entry function; in the callback that the entry function
  of the fiber \<open>cur\<close> has called; behind the last switch of the entry function; or in the thread's
  own function.\<close>

datatype 's point =
    Enter entry
  | Inside entry nat "'s code"
  | Ended entry nat
  | On_main "'s code"

record 's mcontext =
  cx_stack :: nat
  cx_gen :: nat
  cx_point :: "'s point"

text \<open>\<open>mf_gen\<close> counts the resumptions of the fiber's stack; a context that has only been initialised by
  \<open>getcontext\<close> is \<open>None\<close>.\<close>

record 's mfiber =
  mf_state :: fiber_state
  mf_stack :: bool
  mf_callback :: "'s code option"
  mf_context :: "'s mcontext option"
  mf_gen :: nat

record 's machine =
  ma_fibers :: "'s mfiber list"
  ma_this :: nat
  ma_thread_fiber :: nat
  ma_stack :: nat
  ma_point :: "'s point"
  ma_world :: 's

datatype 's progress =
    Running "'s machine"
  | Halted "'s machine"
  | Failed fault
  | Undefined

definition mupd :: "nat \<Rightarrow> ('s mfiber \<Rightarrow> 's mfiber) \<Rightarrow> 's machine \<Rightarrow> 's machine" where
  "mupd f g m = m\<lparr>ma_fibers := (ma_fibers m)[f := g (ma_fibers m ! f)]\<rparr>"

definition mstate :: "nat \<Rightarrow> 's machine \<Rightarrow> fiber_state" where
  "mstate f m = mf_state (ma_fibers m ! f)"

definition set_mstate :: "nat \<Rightarrow> fiber_state \<Rightarrow> 's machine \<Rightarrow> 's machine" where
  "set_mstate f st m = mupd f (\<lambda>b. b\<lparr>mf_state := st\<rparr>) m"

subsection \<open>Operations on fibers\<close>

text \<open>\<open>swapcontext(&from->mContex, &to->mContex)\<close>, to go on at \<open>p\<close> later.\<close>

definition swapcontext :: "nat \<Rightarrow> nat \<Rightarrow> 's point \<Rightarrow> 's machine \<Rightarrow> 's progress" where
  "swapcontext from to p m =
     (let s = ma_stack m;
          m = mupd from (\<lambda>b. b\<lparr>mf_context :=
                Some \<lparr>cx_stack = s, cx_gen = mf_gen (ma_fibers m ! s), cx_point = p\<rparr>\<rparr>) m
      in case mf_context (ma_fibers m ! to) of
           None \<Rightarrow> Undefined
         | Some c \<Rightarrow>
             if cx_gen c \<noteq> mf_gen (ma_fibers m ! cx_stack c) then Undefined
             else Running ((mupd (cx_stack c) (\<lambda>b. b\<lparr>mf_gen := Suc (mf_gen b)\<rparr>) m)
                    \<lparr>ma_stack := cx_stack c, ma_point := cx_point c\<rparr>))"

definition mSwapOut :: "nat \<Rightarrow> 's point \<Rightarrow> 's machine \<Rightarrow> 's progress" where
  "mSwapOut f p m = swapcontext f (ma_thread_fiber m) p (m\<lparr>ma_this := ma_thread_fiber m\<rparr>)"

definition mBack :: "nat \<Rightarrow> 's point \<Rightarrow> 's machine \<Rightarrow> 's progress" where
  "mBack f p m = swapcontext f (ma_thread_fiber m) p (m\<lparr>ma_this := ma_thread_fiber m\<rparr>)"

definition mSwapIn :: "nat \<Rightarrow> 's point \<Rightarrow> 's machine \<Rightarrow> 's progress" where
  "mSwapIn f p m =
     (if mstate f m = EXEC then Failed (Assert_fail ''mState != EXEC'')
      else swapcontext (ma_thread_fiber m) f p (set_mstate f EXEC (m\<lparr>ma_this := f\<rparr>)))"

definition mCall :: "nat \<Rightarrow> 's point \<Rightarrow> 's machine \<Rightarrow> 's progress" where
  "mCall f p m = swapcontext (ma_thread_fiber m) f p (set_mstate f EXEC (m\<lparr>ma_this := f\<rparr>))"

definition mYieldToReady :: "'s point \<Rightarrow> 's machine \<Rightarrow> 's progress" where
  "mYieldToReady p m =
     (if mstate (ma_this m) m \<noteq> EXEC then Failed (Assert_fail ''cur->mState == EXEC'')
      else mSwapOut (ma_this m) p (set_mstate (ma_this m) READY m))"

definition mYieldToHold :: "'s point \<Rightarrow> 's machine \<Rightarrow> 's progress" where
  "mYieldToHold p m =
     (if mstate (ma_this m) m \<noteq> EXEC then Failed (Assert_fail ''cur->mState == EXEC'')
      else mSwapOut (ma_this m) p m)"

text \<open>The constructor: the new fiber's own stack, on which its entry function will start; \<open>junk\<close> is the
  value of the uninitialised member.\<close>

definition mnew :: "bool \<Rightarrow> 's code option \<Rightarrow> 's machine \<Rightarrow> 's machine" where
  "mnew junk cb m =
     m\<lparr>ma_fibers := ma_fibers m @
         [\<lparr>mf_state = INIT, mf_stack = True, mf_callback = cb,
           mf_context = Some \<lparr>cx_stack = length (ma_fibers m), cx_gen = 0,
             cx_point = Enter (if \<not> junk then MainFunc else CallerMainFunc)\<rparr>,
           mf_gen = 0\<rparr>]\<rparr>"

text \<open>\<open>Reset\<close> starts the stack anew, so that older contexts of it are void.\<close>

definition mReset :: "nat \<Rightarrow> 's code option \<Rightarrow> 's machine \<Rightarrow> 's machine outcome" where
  "mReset f cb m =
     (let b = ma_fibers m ! f
      in if \<not> mf_stack b then Inl (Assert_fail ''pStack'')
         else if mf_state b \<noteq> TERM' \<and> mf_state b \<noteq> EXCEPT \<and> mf_state b \<noteq> INIT
         then Inl (Assert_fail ''mState == TERM || mState == EXCEPT || mState == INIT'')
         else Inr (mupd f (\<lambda>b. b\<lparr>mf_callback := cb, mf_gen := Suc (mf_gen b),
                     mf_context := Some \<lparr>cx_stack = f, cx_gen = Suc (mf_gen b), cx_point = Enter MainFunc\<rparr>,
                     mf_state := INIT\<rparr>) m))"

subsection \<open>Steps\<close>

text \<open>A step of a program; \<open>at k\<close> is the point of the stack with the program \<open>k\<close> left. To use a pointer to
  no fiber is undefined.\<close>

definition on_fiber :: "nat \<Rightarrow> 's progress \<Rightarrow> 's machine \<Rightarrow> 's progress" where
  "on_fiber f r m = (if f < length (ma_fibers m) then r else Undefined)"

definition step_op :: "bool \<Rightarrow> ('s code \<Rightarrow> 's point) \<Rightarrow> ('s, 's code) op \<Rightarrow> 's machine \<Rightarrow> 's progress" where
  "step_op junk at o' m =
     (case o' of
        Op_return \<Rightarrow> Halted m
      | Op_raise e \<Rightarrow> Failed (Throw e)
      | Op_fail e \<Rightarrow> Failed e
      | Op_do g k \<Rightarrow> Running (m\<lparr>ma_world := g (ma_world m), ma_point := at k\<rparr>)
      | Op_branch b \<Rightarrow> Running (m\<lparr>ma_point := at (b (ma_world m) (map mf_state (ma_fibers m)))\<rparr>)
      | Op_new cb k \<Rightarrow> Running ((mnew junk cb m)\<lparr>ma_point := at (k (length (ma_fibers m)))\<rparr>)
      | Op_reset f cb k \<Rightarrow>
          on_fiber f
            (case mReset f cb m of Inl e \<Rightarrow> Failed e | Inr m \<Rightarrow> Running (m\<lparr>ma_point := at k\<rparr>)) m
      | Op_hold f k \<Rightarrow> on_fiber f (Running ((set_mstate f HOLD m)\<lparr>ma_point := at k\<rparr>)) m
      | Op_yield_ready k \<Rightarrow> mYieldToReady (at k) m
      | Op_yield_hold k \<Rightarrow> mYieldToHold (at k) m
      | Op_swap_in f k \<Rightarrow> on_fiber f (mSwapIn f (at k) m) m
      | Op_call f k \<Rightarrow> on_fiber f (mCall f (at k) m) m)"

text \<open>The entry functions \<open>MainFunc\<close> and \<open>CallerMainFunc\<close> after the callback has returned or thrown.\<close>

definition mleave :: "entry \<Rightarrow> nat \<Rightarrow> 's machine \<Rightarrow> 's progress" where
  "mleave e cur m =
     (case e of MainFunc \<Rightarrow> mSwapOut cur (Ended e cur) m | CallerMainFunc \<Rightarrow> mBack cur (Ended e cur) m)"

definition mstep :: "bool \<Rightarrow> 's machine \<Rightarrow> 's progress" where
  "mstep junk m =
     (case ma_point m of
        Enter e \<Rightarrow>
          Running (m\<lparr>ma_point := Inside e (ma_this m)
            (case mf_callback (ma_fibers m ! ma_this m) of
               None \<Rightarrow> Code (Op_raise Bad_function_call) | Some c \<Rightarrow> c)\<rparr>)
      | Inside e cur c \<Rightarrow>
          (case next_op c of
             Op_return \<Rightarrow> mleave e cur (mupd cur (\<lambda>b. b\<lparr>mf_callback := None, mf_state := TERM'\<rparr>) m)
           | Op_raise x \<Rightarrow> mleave e cur (set_mstate cur EXCEPT m)
           | o' \<Rightarrow> step_op junk (Inside e cur) o' m)
      | Ended e cur \<Rightarrow> Failed (Assert_fail ''never reach'')
      | On_main c \<Rightarrow> step_op junk On_main (next_op c) m)"

inductive msteps :: "bool \<Rightarrow> 's machine \<Rightarrow> 's machine \<Rightarrow> bool" for junk where
  msteps_refl: "msteps junk m m"
| msteps_step: "mstep junk m = Running m' \<Longrightarrow> msteps junk m' m'' \<Longrightarrow> msteps junk m m''"

lemma msteps_one: "mstep junk m = Running m' \<Longrightarrow> msteps junk m m'"
  by (blast intro: msteps.intros)

lemma msteps_trans: "msteps junk m m' \<Longrightarrow> msteps junk m' m'' \<Longrightarrow> msteps junk m m''"
  by (induction rule: msteps.induct) (blast intro: msteps.intros)+

end
