(* ===== verification/FiberProps.thy ===== *)
theory FiberProps
  imports Fiber
begin

text \<open>
  What fibers guarantee: the invariant of the store, what one switch to a fiber does, that repeated
  switching runs a callback exactly as if it did not yield, when a fiber can be reused, and the
  numbering and counting of fibers over all sequences of operations of a thread.
\<close>

subsection \<open>The invariant\<close>

text \<open>A fiber's state agrees with the point its context would resume at. A fiber that has yielded to
  hold is still in state \<open>EXEC\<close> until its scheduler marks it.\<close>

definition wf_fiber :: "'s fiber \<Rightarrow> bool" where
  "wf_fiber b \<longleftrightarrow>
     (case fb_context b of
        At_entry e \<Rightarrow> fb_stack b \<and> fb_state b = INIT
      | In_callback e c \<Rightarrow> fb_stack b \<and> fb_state b \<in> {READY, HOLD, EXEC}
      | At_end e \<Rightarrow> fb_stack b \<and> (fb_state b = TERM' \<and> fb_callback b = None \<or> fb_state b = EXCEPT)
      | Own_stack \<Rightarrow> \<not> fb_stack b \<and> fb_state b = EXEC \<and> fb_callback b = None)"

definition fiber_ids :: "'s fibers \<Rightarrow> u64 list" where
  "fiber_ids fs = map fb_id (filter fb_stack (fs_store fs))"

definition numbered :: "u64 list \<Rightarrow> bool" where
  "numbered ids \<longleftrightarrow> ids = map of_nat [1 ..< Suc (length ids)]"

definition wf_fibers :: "'s fibers \<Rightarrow> bool" where
  "wf_fibers fs \<longleftrightarrow>
     list_all wf_fiber (fs_store fs) \<and>
     fs_count fs = of_nat (length (filter fb_alive (fs_store fs))) \<and>
     numbered (fiber_ids fs) \<and> fs_next_id fs = of_nat (length (fiber_ids fs))"

text \<open>The thread is on its own stack, that of its main fiber \<open>m\<close>.\<close>

definition at_main :: "nat \<Rightarrow> tls \<Rightarrow> 's fibers \<Rightarrow> bool" where
  "at_main m th fs \<longleftrightarrow>
     t_fiber th = Some m \<and> t_threadFiber th = Some m \<and> m < length (fs_store fs) \<and>
     fb_context (fs_store fs ! m) = Own_stack"

lemma upd_fiber_simps [simp]:
  "fs_store (upd_fiber f g fs) = (fs_store fs)[f := g (fs_store fs ! f)]"
  "fs_next_id (upd_fiber f g fs) = fs_next_id fs"
  "fs_count (upd_fiber f g fs) = fs_count fs"
  by (simp_all add: upd_fiber_def)

lemma upd_fiber_twice:
  "f < length (fs_store fs) \<Longrightarrow> upd_fiber f g (upd_fiber f h fs) = upd_fiber f (\<lambda>b. g (h b)) fs"
  by (simp add: upd_fiber_def)

lemma map_filter_update:
  assumes "P (g (xs ! i)) = P (xs ! i)" "P (xs ! i) \<Longrightarrow> h (g (xs ! i)) = h (xs ! i)"
  shows "map h (filter P (xs[i := g (xs ! i)])) = map h (filter P xs)"
  using assms
proof (induction xs arbitrary: i)
  case (Cons x xs)
  then show ?case by (cases i) auto
qed simp

lemma wf_upd_fiber [wf_intros]:
  assumes wf: "wf_fibers fs" and b: "f < length (fs_store fs) \<Longrightarrow> wf_fiber (g (fs_store fs ! f))"
    and same: "fb_stack (g (fs_store fs ! f)) = fb_stack (fs_store fs ! f)"
      "fb_id (g (fs_store fs ! f)) = fb_id (fs_store fs ! f)"
      "fb_alive (g (fs_store fs ! f)) = fb_alive (fs_store fs ! f)"
  shows "wf_fibers (upd_fiber f g fs)"
proof -
  have "list_all wf_fiber (fs_store fs)" using wf by (simp add: wf_fibers_def)
  then have "list_all wf_fiber ((fs_store fs)[f := g (fs_store fs ! f)])"
    using b by (cases "f < length (fs_store fs)") (auto simp: list_all_length nth_list_update)
  moreover have "length (filter fb_alive ((fs_store fs)[f := g (fs_store fs ! f)]))
      = length (filter fb_alive (fs_store fs))"
    using map_filter_update [of fb_alive g "fs_store fs" f "\<lambda>_. ()"] same(3)
    by (metis length_map)
  moreover have "fiber_ids (upd_fiber f g fs) = fiber_ids fs"
    unfolding fiber_ids_def upd_fiber_simps by (rule map_filter_update) (simp_all add: same)
  ultimately show ?thesis using wf unfolding wf_fibers_def by simp
qed

lemma wf_fibersD: "wf_fibers fs \<Longrightarrow> f < length (fs_store fs) \<Longrightarrow> wf_fiber (fs_store fs ! f)"
  by (simp add: wf_fibers_def list_all_length)

subsection \<open>One switch\<close>

text \<open>The program a fiber has still to run, the entry function it is in, and the fiber after a stretch
  of it.\<close>

definition program_left :: "'s fiber \<Rightarrow> 's coro" where
  "program_left b =
     (case fb_context b of
        In_callback e c \<Rightarrow> c
      | _ \<Rightarrow> (case fb_callback b of None \<Rightarrow> Coro (Raise Bad_function_call) | Some c \<Rightarrow> c))"

definition entry_of :: "'s fiber \<Rightarrow> entry" where
  "entry_of b = (case fb_context b of At_entry e \<Rightarrow> e | In_callback e c \<Rightarrow> e | At_end e \<Rightarrow> e | Own_stack \<Rightarrow> MainFunc)"

fun after_stretch :: "'s coro stop \<Rightarrow> 's fiber \<Rightarrow> 's fiber" where
  "after_stretch Finished b = b\<lparr>fb_callback := None, fb_state := TERM', fb_context := At_end (entry_of b)\<rparr>"
| "after_stretch (Raised x) b = b\<lparr>fb_state := EXCEPT, fb_context := At_end (entry_of b)\<rparr>"
| "after_stretch (Ready_at c) b = b\<lparr>fb_state := READY, fb_context := In_callback (entry_of b) c\<rparr>"
| "after_stretch (Held_at c) b = b\<lparr>fb_state := EXEC, fb_context := In_callback (entry_of b) c\<rparr>"

lemma after_stretch_same [simp]:
  "fb_id (after_stretch p b) = fb_id b" "fb_alive (after_stretch p b) = fb_alive b"
  "fb_stack (after_stretch p b) = fb_stack b"
  "entry_of (after_stretch p b) = entry_of b"
  by (cases p; simp add: entry_of_def)+

lemma wf_after_stretch: "fb_stack b \<Longrightarrow> wf_fiber (after_stretch p b)"
  by (cases p) (simp_all add: wf_fiber_def)

definition resumable :: "'s fiber \<Rightarrow> bool" where
  "resumable b \<longleftrightarrow> (case fb_context b of At_entry e \<Rightarrow> True | In_callback e c \<Rightarrow> True | _ \<Rightarrow> False)"

lemma leave_entry_eq: "leave_entry e f th fs = (SetThis (t_threadFiber th) th, save_context f (At_end e) fs)"
  by (cases e) (simp_all add: leave_entry_def SwapOut_def Back_def)

lemma still_exec:
  "fb_state b = EXEC \<Longrightarrow> b\<lparr>fb_state := EXEC, fb_context := c\<rparr> = b\<lparr>fb_context := c\<rparr>"
  by (cases b) simp

lemma run_callback_effect:
  assumes f: "f < length (fs_store fs)" and st: "fb_state (fs_store fs ! f) = EXEC"
    and e: "e = entry_of (fs_store fs ! f)" and th: "t_fiber th = Some f"
  shows "run_callback e f c th fs s =
    (case run_coro c s of (s', p) \<Rightarrow>
       Inr (SetThis (t_threadFiber th) th, upd_fiber f (after_stretch p) fs, s'))"
proof -
  obtain s' p where r: "run_coro c s = (s', p)" by fastforce
  show ?thesis
    using f st e th
    by (cases p) (simp_all add: r run_callback_def leave_entry_eq set_state_def save_context_def
        upd_fiber_def YieldToReady_def YieldToHold_def GetThis_def GetState_def SwapOut_def still_exec)
qed

lemma resume_effect:
  assumes wf: "wf_fibers fs" and f: "f < length (fs_store fs)" and res: "resumable (fs_store fs ! f)"
  shows "resume f (SetThis (Some f) th) (set_state f EXEC fs) s =
    (case run_coro (program_left (fs_store fs ! f)) s of (s', p) \<Rightarrow>
       Inr (SetThis (t_threadFiber th) th, upd_fiber f (after_stretch p) fs, s'))"
proof -
  let ?b = "fs_store fs ! f" and ?fs = "set_state f EXEC fs"
  have b: "fs_store ?fs ! f = ?b\<lparr>fb_state := EXEC\<rparr>" "f < length (fs_store ?fs)"
    using f by (simp_all add: set_state_def)
  have run: "run_callback (entry_of ?b) f c (SetThis (Some f) th) ?fs s =
    (case run_coro c s of (s', p) \<Rightarrow>
       Inr (SetThis (t_threadFiber th) th, upd_fiber f (after_stretch p) fs, s'))" for c
  proof -
    obtain s' p where r: "run_coro c s = (s', p)" by fastforce
    have "upd_fiber f (after_stretch p) ?fs = upd_fiber f (after_stretch p) fs"
      using f by (cases p) (simp_all add: set_state_def upd_fiber_def entry_of_def)
    then show ?thesis
      using run_callback_effect [of f ?fs "entry_of ?b" "SetThis (Some f) th" c s] b
      by (simp add: r entry_of_def SetThis_def)
  qed
  show ?thesis
    using res run
    by (auto simp: resume_def b resumable_def run_entry_def GetThis_def SetThis_def program_left_def
        entry_of_def split: ucontext.splits)
qed

lemma resumable_states:
  "wf_fiber b \<Longrightarrow> fb_state b \<in> {INIT, READY, HOLD} \<Longrightarrow> resumable b"
  by (auto simp: wf_fiber_def resumable_def split: ucontext.splits)

lemma wf_resumed:
  assumes "wf_fibers fs" "f < length (fs_store fs)" "resumable (fs_store fs ! f)"
  shows "wf_fibers (upd_fiber f (after_stretch p) fs)"
proof (rule wf_upd_fiber [OF assms(1)])
  have "fb_stack (fs_store fs ! f)"
    using wf_fibersD [OF assms(1,2)] assms(3)
    by (auto simp: wf_fiber_def resumable_def split: ucontext.splits)
  then show "wf_fiber (after_stretch p (fs_store fs ! f))" by (rule wf_after_stretch)
qed simp_all

lemma at_main_upd:
  "at_main m th fs \<Longrightarrow> resumable (fs_store fs ! f) \<Longrightarrow> at_main m th (upd_fiber f g fs)"
  by (cases "f = m") (simp_all add: at_main_def resumable_def)

lemma at_main_back: "at_main m th fs \<Longrightarrow> SetThis (t_threadFiber th) th = th"
  by (simp add: at_main_def SetThis_def)

lemma SwapIn_resumes:
  assumes "wf_fibers fs" "at_main m th fs" "f < length (fs_store fs)"
    and "GetState f fs \<in> {INIT, READY, HOLD}"
  shows "SwapIn f th fs s =
    (case run_coro (program_left (fs_store fs ! f)) s of (s', p) \<Rightarrow>
       Inr (th, upd_fiber f (after_stretch p) fs, s'))"
proof -
  have "resumable (fs_store fs ! f)"
    using resumable_states [OF wf_fibersD [OF assms(1,3)]] assms(4) by (simp add: GetState_def)
  note resume_effect [OF assms(1,3) this, of th s]
  then show ?thesis
    using assms(2,4) at_main_back [OF assms(2)]
    by (auto simp: SwapIn_def Let_def SetThis_def [of "Some f"] at_main_def)
qed

text \<open>C22: switching to a fiber. From the main fiber of a thread, switching to a fiber that is new,
  ready or held runs the rest of its callback up to the next yield or its end and returns to the
  main fiber; the fiber is then terminated (and has dropped its callback), marked as failed, ready,
  or, after a yield to hold, still executing; no other fiber changes.\<close>

theorem swap_in_runs_stretch:
  assumes "wf_fibers fs" and "at_main m th fs" and "f < length (fs_store fs)"
    and "GetState f fs \<in> {INIT, READY, HOLD}"
  shows "\<exists>fs'. SwapIn f th fs s = Inr (th, fs', fst (run_coro (program_left (fs_store fs ! f)) s)) \<and>
    wf_fibers fs' \<and> at_main m th fs' \<and>
    fs_store fs' = (fs_store fs)[f := after_stretch (snd (run_coro (program_left (fs_store fs ! f)) s))
                                      (fs_store fs ! f)] \<and>
    GetState f fs' = (case snd (run_coro (program_left (fs_store fs ! f)) s) of
       Finished \<Rightarrow> TERM' | Raised e \<Rightarrow> EXCEPT | Ready_at c \<Rightarrow> READY | Held_at c \<Rightarrow> EXEC)"
proof -
  obtain s' p where r: "run_coro (program_left (fs_store fs ! f)) s = (s', p)" by fastforce
  have res: "resumable (fs_store fs ! f)"
    using resumable_states [OF wf_fibersD [OF assms(1,3)]] assms(4) by (simp add: GetState_def)
  show ?thesis
    using SwapIn_resumes [OF assms, of s] wf_resumed [OF assms(1,3) res, of p]
      at_main_upd [OF assms(2) res, of "after_stretch p"] assms(3)
    by (cases p) (simp_all add: r GetState_def)
qed

definition sample_fibers :: "nat coro option \<Rightarrow> nat fibers" where
  "sample_fibers cb = \<lparr>fs_store =
     [\<lparr>fb_id = 0, fb_stack_size = 0, fb_state = EXEC, fb_context = Own_stack, fb_stack = False,
       fb_callback = None, fb_alive = True\<rparr>,
      \<lparr>fb_id = 1, fb_stack_size = 1024, fb_state = INIT, fb_context = At_entry MainFunc, fb_stack = True,
       fb_callback = cb, fb_alive = True\<rparr>],
     fs_next_id = 1, fs_count = 2\<rparr>"

lemma sample_fibers_wf [simp]:
  "wf_fibers (sample_fibers cb)" "at_main 0 \<lparr>t_fiber = Some 0, t_threadFiber = Some 0\<rparr> (sample_fibers cb)"
  "length (fs_store (sample_fibers cb)) = 2" "GetState (Suc 0) (sample_fibers cb) = INIT"
  "program_left (fs_store (sample_fibers cb) ! Suc 0) = (case cb of None \<Rightarrow> Coro (Raise Bad_function_call) | Some c \<Rightarrow> c)"
  by (simp_all add: wf_fibers_def sample_fibers_def wf_fiber_def fiber_ids_def numbered_def at_main_def
      program_left_def GetState_def)

theorem swap_in_runs_stretch_witness:
  "\<exists>fs'. SwapIn 1 \<lparr>t_fiber = Some 0, t_threadFiber = Some 0\<rparr>
      (sample_fibers (Some (Coro (Do Suc (Yield_ready (Coro Return)))))) 5
    = Inr (\<lparr>t_fiber = Some 0, t_threadFiber = Some 0\<rparr>, fs', 6) \<and> GetState 1 fs' = READY"
  using swap_in_runs_stretch [of "sample_fibers (Some (Coro (Do Suc (Yield_ready (Coro Return)))))" 0
      "\<lparr>t_fiber = Some 0, t_threadFiber = Some 0\<rparr>" 1 5]
  by auto

subsection \<open>A whole callback\<close>

text \<open>The callback run in one go, as if yielding did nothing; the same run counted in stretches; and a
  fiber called again and again.\<close>

inductive runs_whole :: "('s, 's coro) stretch \<Rightarrow> 's \<Rightarrow> 's \<Rightarrow> exn option \<Rightarrow> bool" where
  whole_return: "runs_whole Return s s None"
| whole_raise: "runs_whole (Raise e) s s (Some e)"
| whole_do: "runs_whole p (g s) s' r \<Longrightarrow> runs_whole (Do g p) s s' r"
| whole_branch: "runs_whole (k s) s s' r \<Longrightarrow> runs_whole (Branch k) s s' r"
| whole_ready: "runs_whole (next_stretch c) s s' r \<Longrightarrow> runs_whole (Yield_ready c) s s' r"
| whole_hold: "runs_whole (next_stretch c) s s' r \<Longrightarrow> runs_whole (Yield_hold c) s s' r"

inductive completes :: "nat \<Rightarrow> ('s, 's coro) stretch \<Rightarrow> 's \<Rightarrow> 's \<Rightarrow> exn option \<Rightarrow> bool" where
  complete_finished: "run_stretch p s = (s', Finished) \<Longrightarrow> completes 0 p s s' None"
| complete_raised: "run_stretch p s = (s', Raised e) \<Longrightarrow> completes 0 p s s' (Some e)"
| complete_ready: "run_stretch p s = (s1, Ready_at c) \<Longrightarrow> completes n (next_stretch c) s1 s' r \<Longrightarrow>
    completes (Suc n) p s s' r"
| complete_held: "run_stretch p s = (s1, Held_at c) \<Longrightarrow> completes n (next_stretch c) s1 s' r \<Longrightarrow>
    completes (Suc n) p s s' r"

lemma completes_cong: "completes n p s s' r \<Longrightarrow> run_stretch q t = run_stretch p s \<Longrightarrow> completes n q t s' r"
  by (cases rule: completes.cases) (auto intro: completes.intros)

lemma runs_whole_completes: "runs_whole p s s' r \<Longrightarrow> \<exists>n. completes n p s s' r"
proof (induction rule: runs_whole.induct)
  case (whole_do p g s s' r)
  then show ?case using completes_cong [of _ p "g s" s' r "Do g p" s] by auto
next
  case (whole_branch k s s' r)
  then show ?case using completes_cong [of _ "k s" s s' r "Branch k" s] by auto
next
  case (whole_ready c s s' r)
  then show ?case using complete_ready [of "Yield_ready c" s s c] by auto
next
  case (whole_hold c s s' r)
  then show ?case using complete_held [of "Yield_hold c" s s c] by auto
qed (use complete_finished [of Return] complete_raised [of "Raise _"] in \<open>fastforce+\<close>)

fun calls :: "nat \<Rightarrow> nat \<Rightarrow> tls \<Rightarrow> 's fibers \<Rightarrow> 's \<Rightarrow> (tls \<times> 's fibers \<times> 's) outcome" where
  "calls 0 f th fs s = Inr (th, fs, s)"
| "calls (Suc n) f th fs s = obind (Call f th fs s) (\<lambda>(th, fs, s). calls n f th fs s)"

lemma Call_resumes:
  assumes "wf_fibers fs" "at_main m th fs" "f < length (fs_store fs)" "resumable (fs_store fs ! f)"
  shows "Call f th fs s =
    (case run_coro (program_left (fs_store fs ! f)) s of (s', p) \<Rightarrow>
       Inr (th, upd_fiber f (after_stretch p) fs, s'))"
  using resume_effect [OF assms(1,3,4), of th s] assms(2) at_main_back [OF assms(2)]
  by (auto simp: Call_def at_main_def)

lemma calls_complete:
  "completes n p s s' r \<Longrightarrow> wf_fibers fs \<Longrightarrow> at_main m th fs \<Longrightarrow> f < length (fs_store fs) \<Longrightarrow>
   resumable (fs_store fs ! f) \<Longrightarrow> p = next_stretch (program_left (fs_store fs ! f)) \<Longrightarrow>
   \<exists>fs'. calls (Suc n) f th fs s = Inr (th, fs', s') \<and> wf_fibers fs' \<and>
     GetState f fs' = (if r = None then TERM' else EXCEPT)"
proof (induction arbitrary: fs rule: completes.induct)
  case (complete_finished p s s')
  note wf = wf_resumed [OF complete_finished.prems(1,3,4)]
  show ?case
    using complete_finished Call_resumes [OF complete_finished.prems(1-4), of s] wf
    by (simp add: run_coro_def GetState_def)
next
  case (complete_raised p s s' e)
  note wf = wf_resumed [OF complete_raised.prems(1,3,4)]
  show ?case
    using complete_raised Call_resumes [OF complete_raised.prems(1-4), of s] wf
    by (simp add: run_coro_def GetState_def)
next
  case (complete_ready p s s1 c n s' r)
  let ?fs = "upd_fiber f (after_stretch (Ready_at c)) fs"
  have b: "program_left (fs_store ?fs ! f) = c" "resumable (fs_store ?fs ! f)" "f < length (fs_store ?fs)"
    using complete_ready.prems(3) by (simp_all add: program_left_def resumable_def)
  from complete_ready.IH [OF wf_resumed [OF complete_ready.prems(1,3,4)]
      at_main_upd [OF complete_ready.prems(2,4)] b(3,2)] b(1)
  show ?case
    using complete_ready.hyps(1) complete_ready.prems(5) Call_resumes [OF complete_ready.prems(1-4), of s]
    unfolding calls.simps(2) [of "Suc n"] by (simp add: run_coro_def)
next
  case (complete_held p s s1 c n s' r)
  let ?fs = "upd_fiber f (after_stretch (Held_at c)) fs"
  have b: "program_left (fs_store ?fs ! f) = c" "resumable (fs_store ?fs ! f)" "f < length (fs_store ?fs)"
    using complete_held.prems(3) by (simp_all add: program_left_def resumable_def)
  from complete_held.IH [OF wf_resumed [OF complete_held.prems(1,3,4)]
      at_main_upd [OF complete_held.prems(2,4)] b(3,2)] b(1)
  show ?case
    using complete_held.hyps(1) complete_held.prems(5) Call_resumes [OF complete_held.prems(1-4), of s]
    unfolding calls.simps(2) [of "Suc n"] by (simp add: run_coro_def)
qed

text \<open>C21: yielding does not change what a callback does: when the rest of a fiber's program, run in one
  go as if yielding did nothing, comes to an end, calling the fiber from the main fiber often
  enough runs it to the same end with the same effect; the fiber is then terminated, or failed if
  the run ends with an exception.\<close>

theorem calls_run_whole_callback:
  assumes "wf_fibers fs" and "at_main m th fs" and "f < length (fs_store fs)"
    and "GetState f fs \<in> {INIT, READY, HOLD}"
    and run: "runs_whole (next_stretch (program_left (fs_store fs ! f))) s s' r"
  shows "\<exists>n fs'. calls n f th fs s = Inr (th, fs', s') \<and> wf_fibers fs' \<and>
    GetState f fs' = (if r = None then TERM' else EXCEPT)"
proof -
  have "resumable (fs_store fs ! f)"
    using resumable_states [OF wf_fibersD [OF assms(1,3)]] assms(4) by (simp add: GetState_def)
  then show ?thesis using runs_whole_completes [OF run] calls_complete [OF _ assms(1-3)] by blast
qed

theorem calls_run_whole_callback_witness:
  "(let c = Coro (Do Suc (Yield_ready (Coro (Do Suc (Yield_hold (Coro (Raise Foreign))))))); th = \<lparr>t_fiber = Some 0, t_threadFiber = Some 0\<rparr>
    in \<exists>n fs'. calls n 1 th (sample_fibers (Some c)) 5 = Inr (th, fs', 7) \<and> GetState 1 fs' = EXCEPT)"
proof -
  let ?c = "Coro (Do Suc (Yield_ready (Coro (Do Suc (Yield_hold (Coro (Raise Foreign)))))))"
  have "runs_whole (next_stretch ?c) 5 7 (Some Foreign)"
    by (rule runs_whole.intros | simp)+
  then show ?thesis
    using calls_run_whole_callback [of "sample_fibers (Some ?c)" 0
        "\<lparr>t_fiber = Some 0, t_threadFiber = Some 0\<rparr>" 1 5 7 "Some Foreign"]
    by (simp add: Let_def) blast
qed

subsection \<open>Reuse\<close>

lemma At_end_finished:
  assumes "wf_fibers fs" "f < length (fs_store fs)" "GetState f fs \<in> {TERM', EXCEPT}"
  shows "\<exists>e. fb_context (fs_store fs ! f) = At_end e" "fb_stack (fs_store fs ! f)"
  using wf_fibersD [OF assms(1,2)] assms(3)
  by (auto simp: wf_fiber_def GetState_def split: ucontext.splits)

text \<open>C38: reuse. A finished fiber cannot be entered again, neither by \<open>SwapIn\<close> nor by \<open>Call\<close>: the
  attempt ends in the assertion behind its last switch. \<open>Reset\<close> makes it a fresh fiber that will
  run the new callback, keeping its number and the count of fibers; it refuses a fiber that has
  started and not finished.\<close>

theorem finished_fiber_needs_reset:
  assumes wf: "wf_fibers fs" and m: "at_main m th fs" and f: "f < length (fs_store fs)"
    and stack: "fb_stack (fs_store fs ! f)"
  shows "if GetState f fs \<in> {TERM', EXCEPT}
    then SwapIn f th fs s = Inl (Assert_fail ''never reach'') \<and> Call f th fs s = Inl (Assert_fail ''never reach'') \<and>
      (\<exists>fs'. Reset f (Some c) fs = Inr fs' \<and> wf_fibers fs' \<and> GetState f fs' = INIT \<and>
         program_left (fs_store fs' ! f) = c \<and> fb_id (fs_store fs' ! f) = fb_id (fs_store fs ! f) \<and>
         TotalFibers fs' = TotalFibers fs)
    else GetState f fs \<noteq> INIT \<longrightarrow> (\<exists>msg. Reset f (Some c) fs = Inl (Assert_fail msg))"
proof (cases "GetState f fs \<in> {TERM', EXCEPT}")
  case True
  obtain e where e: "fb_context (fs_store fs ! f) = At_end e" using At_end_finished [OF wf f True] by blast
  let ?g = "\<lambda>b. b\<lparr>fb_callback := Some c, fb_context := At_entry MainFunc, fb_state := INIT\<rparr>"
  have "wf_fibers (upd_fiber f ?g fs)"
    using stack by (intro wf_upd_fiber [OF wf]) (simp_all add: wf_fiber_def)
  moreover have "Reset f (Some c) fs = Inr (upd_fiber f ?g fs)"
    using True stack by (auto simp: Reset_def Let_def GetState_def)
  ultimately show ?thesis
    using True e f m
    by (auto simp: SwapIn_def Call_def Let_def resume_def set_state_def at_main_def SetThis_def
        GetState_def program_left_def TotalFibers_def)
next
  case False
  then show ?thesis using stack by (auto simp: Reset_def Let_def GetState_def)
qed

theorem finished_fiber_needs_reset_witness:
  "(let fs = upd_fiber 1 (after_stretch Finished) (sample_fibers None);
        th = \<lparr>t_fiber = Some 0, t_threadFiber = Some 0\<rparr>
    in GetState 1 fs = TERM' \<and> SwapIn 1 th fs 5 = Inl (Assert_fail ''never reach''))"
proof -
  let ?fs = "upd_fiber 1 (after_stretch Finished) (sample_fibers None)"
  let ?th = "\<lparr>t_fiber = Some 0, t_threadFiber = Some 0\<rparr>"
  have "wf_fibers ?fs" "at_main 0 ?th ?fs" "1 < length (fs_store ?fs)" "fb_stack (fs_store ?fs ! 1)"
    "GetState 1 ?fs = TERM'"
    by (simp_all add: sample_fibers_def wf_fibers_def wf_fiber_def fiber_ids_def numbered_def at_main_def
        GetState_def upd_fiber_def entry_of_def)
  from finished_fiber_needs_reset [OF this(1-4), of 5 "Coro Return"] this(5) show ?thesis by (simp add: Let_def)
qed

text \<open>Yielding to hold does not put a fiber on hold: its state stays \<open>EXEC\<close>, and until somebody
  else changes that, \<open>SwapIn\<close> refuses it.\<close>

theorem yield_to_hold_stays_exec:
  assumes wf: "wf_fibers fs" and m: "at_main m th fs" and f: "f < length (fs_store fs)"
    and st: "GetState f fs \<in> {INIT, READY, HOLD}"
    and hold: "run_coro (program_left (fs_store fs ! f)) s = (s', Held_at c)"
  shows "\<exists>fs'. SwapIn f th fs s = Inr (th, fs', s') \<and> GetState f fs' = EXEC \<and>
    SwapIn f th fs' s' = Inl (Assert_fail ''mState != EXEC'') \<and>
    (\<exists>fs''. SwapIn f th (set_state f HOLD fs') s' = Inr (th, fs'', fst (run_coro c s')))"
proof -
  let ?fs = "upd_fiber f (after_stretch (Held_at c)) fs"
  have res: "resumable (fs_store fs ! f)"
    using resumable_states [OF wf_fibersD [OF wf f]] st by (simp add: GetState_def)
  have 1: "SwapIn f th fs s = Inr (th, ?fs, s')" using SwapIn_resumes [OF wf m f st, of s] hold by simp
  have 2: "GetState f ?fs = EXEC" using f by (simp add: GetState_def)
  let ?fs' = "set_state f HOLD ?fs"
  have wf1: "wf_fibers ?fs" by (rule wf_resumed [OF wf f res])
  have wf2: "wf_fibers ?fs'"
    unfolding set_state_def using wf_fibersD [OF wf1, of f] f
    by (intro wf_upd_fiber [OF wf1]) (auto simp: wf_fiber_def split: ucontext.splits)
  have "at_main m th ?fs" by (rule at_main_upd [OF m res])
  then have m2: "at_main m th ?fs'"
    unfolding set_state_def by (rule at_main_upd) (use f in \<open>simp add: resumable_def\<close>)
  have b: "program_left (fs_store ?fs' ! f) = c" "GetState f ?fs' = HOLD"
    using f by (simp_all add: set_state_def program_left_def GetState_def)
  have "\<exists>fs''. SwapIn f th ?fs' s' = Inr (th, fs'', fst (run_coro c s'))"
    using SwapIn_resumes [OF wf2 m2, of f s'] f b by (simp add: set_state_def split: prod.splits)
  then show ?thesis using 1 2 by (intro exI [of _ ?fs]) (simp add: SwapIn_def)
qed

theorem yield_to_hold_stays_exec_witness:
  "(let th = \<lparr>t_fiber = Some 0, t_threadFiber = Some 0\<rparr>
    in \<exists>fs'. SwapIn 1 th (sample_fibers (Some (Coro (Yield_hold (Coro Return))))) 5 = Inr (th, fs', 5) \<and>
         GetState 1 fs' = EXEC \<and> SwapIn 1 th fs' 5 = Inl (Assert_fail ''mState != EXEC''))"
  using yield_to_hold_stays_exec [of "sample_fibers (Some (Coro (Yield_hold (Coro Return))))" 0
      "\<lparr>t_fiber = Some 0, t_threadFiber = Some 0\<rparr>" 1 5 5 "Coro Return"]
  by (auto simp: Let_def)

subsection \<open>The stack size\<close>

text \<open>The static variable of the stack size cannot be created: its name contains spaces, which
  \<open>LookUp\<close> refuses, so in every well-formed registry the initialisation throws and registers
  nothing.\<close>

theorem stack_size_never_registered:
  assumes "wf_config cfg"
  shows "\<exists>s'. gFiberStackSize env T wrap cfg s
    = (Inl (Throw (Invalid_argument ''fiber stack size'')), cfg, s')"
proof -
  have bad: "\<not> valid_name ''fiber stack size''" by code_simp
  then have "cf_datas cfg ''fiber stack size'' = None"
    using wf_configD [OF assms] by (cases "cf_datas cfg ''fiber stack size''") auto
  then show ?thesis using bad by (simp add: gFiberStackSize_def LookUp_default_invalid)
qed

theorem stack_size_never_registered_witness:
  "\<exists>s'. gFiberStackSize \<lparr>ce_log = \<lambda>n l t s. s @ [t], ce_lets_root = \<lambda>l s. True, ce_what = \<lambda>e. []\<rparr>
      \<lparr>vt_name = ''unsigned int'', vt_from = \<lambda>t. Inr (read_nat t), vt_to = \<lambda>n. Inr (show_nat n)\<rparr>
      unat (empty_config :: (nat, string list) config) []
    = (Inl (Throw (Invalid_argument ''fiber stack size'')), empty_config, s')"
  by (rule stack_size_never_registered) (rule wf_empty_config)

subsection \<open>All sequences of operations\<close>

text \<open>The operations of a thread on fibers, from its main fiber or before it has one. Only fibers that
  have not been destroyed are used; a destroyed fiber is not the thread's main fiber, which the
  thread keeps alive. Stacks can be allocated.\<close>

inductive fiber_step :: "fiber_env \<Rightarrow> tls \<times> 's fibers \<times> 's \<Rightarrow> tls \<times> 's fibers \<times> 's \<Rightarrow> bool"
  for env where
  step_new: "(\<And>n. fe_malloc env n) \<Longrightarrow>
    fiber_step env (th, fs, s) (th, snd (new_Fiber env junk cb stacksize use_caller fs), s)"
| step_GetThis: "GetThis th fs = Inr (f, th', fs') \<Longrightarrow> fiber_step env (th, fs, s) (th', fs', s)"
| step_SwapIn: "f < length (fs_store fs) \<Longrightarrow> fb_alive (fs_store fs ! f) \<Longrightarrow>
    SwapIn f th fs s = Inr (th', fs', s') \<Longrightarrow> fiber_step env (th, fs, s) (th', fs', s')"
| step_Call: "f < length (fs_store fs) \<Longrightarrow> fb_alive (fs_store fs ! f) \<Longrightarrow> t_threadFiber th \<noteq> Some f \<Longrightarrow>
    Call f th fs s = Inr (th', fs', s') \<Longrightarrow> fiber_step env (th, fs, s) (th', fs', s')"
| step_hold: "f < length (fs_store fs) \<Longrightarrow> fb_context (fs_store fs ! f) = In_callback e c \<Longrightarrow>
    fiber_step env (th, fs, s) (th, set_state f HOLD fs, s)"
| step_Reset: "f < length (fs_store fs) \<Longrightarrow> fb_alive (fs_store fs ! f) \<Longrightarrow>
    Reset f cb fs = Inr fs' \<Longrightarrow> fiber_step env (th, fs, s) (th, fs', s)"
| step_delete: "f < length (fs_store fs) \<Longrightarrow> fb_alive (fs_store fs ! f) \<Longrightarrow> t_threadFiber th \<noteq> Some f \<Longrightarrow>
    delete_Fiber f th fs = Inr (th', fs') \<Longrightarrow> fiber_step env (th, fs, s) (th', fs', s)"

inductive_cases fiber_stepE: "fiber_step env (th, fs, s) st'"

inductive fibers_reachable :: "fiber_env \<Rightarrow> tls \<times> 's fibers \<times> 's \<Rightarrow> bool" for env where
  start: "fibers_reachable env (\<lparr>t_fiber = None, t_threadFiber = None\<rparr>,
      \<lparr>fs_store = [], fs_next_id = 0, fs_count = 0\<rparr>, s)"
| step: "fibers_reachable env st \<Longrightarrow> fiber_step env st st' \<Longrightarrow> fibers_reachable env st'"

text \<open>Either the thread has no fiber yet, and then nothing is on its own stack, or it is on its main
  fiber, the only one that is.\<close>

definition thread_inv :: "tls \<Rightarrow> 's fibers \<Rightarrow> bool" where
  "thread_inv th fs \<longleftrightarrow> wf_fibers fs \<and>
     (\<forall>f < length (fs_store fs). fb_context (fs_store fs ! f) = Own_stack \<longrightarrow> t_threadFiber th = Some f) \<and>
     (t_fiber th = None \<and> t_threadFiber th = None \<or> (\<exists>m. at_main m th fs))"

lemma numbered_snoc: "numbered (ids @ [x]) \<longleftrightarrow> numbered ids \<and> x = of_nat (Suc (length ids))"
proof -
  have "map of_nat [1 ..< Suc (Suc (length ids))] = map of_nat [1 ..< Suc (length ids)] @ [of_nat (Suc (length ids)) :: u64]"
    by (subst upt_Suc_append) simp_all
  then show ?thesis
    unfolding numbered_def length_append_singleton by (simp del: upt_Suc of_nat_Suc)
qed

lemma wf_append_fiber:
  assumes "wf_fibers fs" "wf_fiber b" "fb_alive b"
    and "if fb_stack b then n = fs_next_id fs + 1 \<and> fb_id b = n else n = fs_next_id fs"
  shows "wf_fibers (fs\<lparr>fs_store := fs_store fs @ [b], fs_next_id := n, fs_count := fs_count fs + 1\<rparr>)"
proof -
  let ?fs = "fs\<lparr>fs_store := fs_store fs @ [b], fs_next_id := n, fs_count := fs_count fs + 1\<rparr>"
  have ids: "fiber_ids ?fs = (if fb_stack b then fiber_ids fs @ [fb_id b] else fiber_ids fs)"
    by (simp add: fiber_ids_def)
  have wf: "list_all wf_fiber (fs_store fs)" "numbered (fiber_ids fs)"
    "fs_count fs = of_nat (length (filter fb_alive (fs_store fs)))"
    "fs_next_id fs = of_nat (length (fiber_ids fs))"
    using assms(1) by (simp_all only: wf_fibers_def)
  have "numbered (fiber_ids ?fs) \<and> n = of_nat (length (fiber_ids ?fs))"
    using assms(4) wf(2,4) unfolding ids numbered_snoc if_distrib [of length]
    by (cases "fb_stack b") (simp_all add: numbered_snoc)
  moreover have "list_all wf_fiber (fs_store ?fs)" "fs_count ?fs = of_nat (length (filter fb_alive (fs_store ?fs)))"
    using assms(2,3) wf(1,3) by simp_all
  ultimately show ?thesis unfolding wf_fibers_def by simp
qed

lemma thread_inv_upd:
  assumes inv: "thread_inv th fs" and wf: "wf_fibers (upd_fiber f g fs)"
    and same: "fb_context (g (fs_store fs ! f)) = Own_stack \<longleftrightarrow> fb_context (fs_store fs ! f) = Own_stack"
  shows "thread_inv th (upd_fiber f g fs)"
proof -
  have own: "fb_context (fs_store (upd_fiber f g fs) ! i) = Own_stack \<longleftrightarrow> fb_context (fs_store fs ! i) = Own_stack"
    if "i < length (fs_store fs)" for i
    using that same by (cases "i = f") simp_all
  then have "at_main m th (upd_fiber f g fs) \<longleftrightarrow> at_main m th fs" for m
    by (auto simp: at_main_def)
  then show ?thesis using inv wf own unfolding thread_inv_def by simp
qed

lemma thread_inv_at_main: "thread_inv th fs \<Longrightarrow> t_threadFiber th \<noteq> None \<Longrightarrow> \<exists>m. at_main m th fs"
  by (auto simp: thread_inv_def)

lemma resumed_context:
  assumes "wf_fiber b" "fb_context b \<noteq> Own_stack" "resume f th (set_state f EXEC fs) s = Inr r"
    "b = fs_store fs ! f" "f < length (fs_store fs)"
  shows "resumable b"
  using assms by (auto simp: resume_def set_state_def resumable_def split: ucontext.splits)

lemma after_stretch_context: "fb_context (after_stretch p b) \<noteq> Own_stack"
  by (cases p) simp_all

lemma thread_inv_resume:
  assumes inv: "thread_inv th fs" and f: "f < length (fs_store fs)"
    and own: "fb_context (fs_store fs ! f) \<noteq> Own_stack" and main: "t_threadFiber th \<noteq> None"
    and eq: "resume f (SetThis (Some f) th) (set_state f EXEC fs) s = Inr (th', fs', s')"
  shows "thread_inv th' fs'"
proof -
  have wf: "wf_fibers fs" using inv by (simp add: thread_inv_def)
  obtain m where m: "at_main m th fs" using thread_inv_at_main [OF inv main] by blast
  have res: "resumable (fs_store fs ! f)"
    using resumed_context [OF wf_fibersD [OF wf f] own eq refl f] .
  obtain p where "th' = th" "fs' = upd_fiber f (after_stretch p) fs"
    using resume_effect [OF wf f res, of th s] eq at_main_back [OF m] by (auto split: prod.splits)
  then show ?thesis
    using thread_inv_upd [OF inv wf_resumed [OF wf f res]] own after_stretch_context by blast
qed

lemma new_Fiber_eq:
  "new_Fiber env junk cb stacksize use_caller fs =
     (let size = if stacksize \<noteq> 0 then ucast stacksize else fe_stack_size env
      in (length (fs_store fs),
          fs\<lparr>fs_store := fs_store fs @
               [\<lparr>fb_id = fs_next_id fs + 1, fb_stack_size = size, fb_state = INIT,
                 fb_context = At_entry (if \<not> junk then MainFunc else CallerMainFunc),
                 fb_stack = fe_malloc env size, fb_callback = cb, fb_alive = True\<rparr>],
             fs_next_id := fs_next_id fs + 1, fs_count := fs_count fs + 1\<rparr>))"
  by (simp add: new_Fiber_def Let_def)

lemma wf_new_Fiber:
  assumes "wf_fibers fs" "\<And>n. fe_malloc env n"
  shows "wf_fibers (snd (new_Fiber env junk cb stacksize use_caller fs))"
  unfolding new_Fiber_eq Let_def snd_conv using assms
  by (intro wf_append_fiber) (simp_all add: wf_fiber_def)

lemma at_main_new_Fiber:
  "at_main m th fs \<Longrightarrow> at_main m th (snd (new_Fiber env junk cb stacksize use_caller fs))"
  by (simp add: new_Fiber_eq Let_def at_main_def nth_append)

lemma thread_inv_new:
  assumes inv: "thread_inv th fs" and malloc: "\<And>n. fe_malloc env n"
  shows "thread_inv th (snd (new_Fiber env junk cb stacksize use_caller fs))"
proof -
  let ?fs = "snd (new_Fiber env junk cb stacksize use_caller fs)"
  have "wf_fibers ?fs" using inv malloc by (intro wf_new_Fiber) (simp_all add: thread_inv_def)
  moreover have "f < length (fs_store ?fs) \<Longrightarrow> fb_context (fs_store ?fs ! f) = Own_stack \<Longrightarrow>
      f < length (fs_store fs) \<and> fb_context (fs_store fs ! f) = Own_stack" for f
    by (simp add: new_Fiber_eq Let_def nth_append less_Suc_eq split: if_splits)
  moreover have "\<exists>m. at_main m th ?fs" if "\<exists>m. at_main m th fs"
    using that at_main_new_Fiber by blast
  ultimately show ?thesis using inv unfolding thread_inv_def by blast
qed

lemma wf_Reset:
  "wf_fibers fs \<Longrightarrow> Reset f cb fs = Inr fs' \<Longrightarrow> wf_fibers fs'"
  by (auto simp: Reset_def Let_def wf_fiber_def intro!: wf_upd_fiber split: if_splits)

lemma thread_inv_GetThis:
  assumes inv: "thread_inv th fs" and g: "GetThis th fs = Inr (f, th', fs')"
  shows "thread_inv th' fs'"
proof (cases "t_fiber th")
  case (Some m)
  then show ?thesis using inv g by (simp add: GetThis_def)
next
  case None
  then have none: "t_threadFiber th = None" using inv by (auto simp: thread_inv_def at_main_def)
  let ?b = "\<lparr>fb_id = 0, fb_stack_size = 0, fb_state = EXEC, fb_context = Own_stack,
    fb_stack = False, fb_callback = None, fb_alive = True\<rparr>"
  have fs': "fs' = fs\<lparr>fs_store := fs_store fs @ [?b], fs_next_id := fs_next_id fs, fs_count := fs_count fs + 1\<rparr>"
    "t_fiber th' = Some (length (fs_store fs))" "t_threadFiber th' = Some (length (fs_store fs))"
    using g None by (auto simp: GetThis_def new_main_Fiber_def SetThis_def Let_def)
  have "wf_fibers fs'"
    unfolding fs'(1) using inv by (intro wf_append_fiber) (simp_all add: thread_inv_def wf_fiber_def)
  then show ?thesis
    using inv none fs' by (auto simp: thread_inv_def at_main_def nth_append less_Suc_eq)
qed

lemma thread_inv_delete:
  assumes inv: "thread_inv th fs" and f: "f < length (fs_store fs)" "fb_alive (fs_store fs ! f)"
    and own: "t_threadFiber th \<noteq> Some f" and d: "delete_Fiber f th fs = Inr (th', fs')"
  shows "thread_inv th' fs'"
proof -
  let ?n = "length (filter fb_alive (fs_store fs))"
  let ?store = "(fs_store fs)[f := (fs_store fs ! f)\<lparr>fb_alive := False\<rparr>]"
  have wf: "wf_fibers fs" using inv by (simp add: thread_inv_def)
  have stack: "fb_stack (fs_store fs ! f)"
    using wf_fibersD [OF wf f(1)] inv own f(1)
    by (auto simp: thread_inv_def wf_fiber_def split: ucontext.splits)
  then have fs': "th' = th" "fs' = fs\<lparr>fs_store := ?store, fs_count := fs_count fs - 1\<rparr>"
    using d by (auto simp: delete_Fiber_def Let_def upd_fiber_def split: if_splits)
  have alive: "?n = Suc (length (filter fb_alive ?store))"
    using f by (subst (1 2) id_take_nth_drop [OF f(1)]) (simp add: upd_conv_take_nth_drop)
  have "fiber_ids fs' = fiber_ids fs"
    unfolding fiber_ids_def fs' by simp (rule map_filter_update, simp_all)
  moreover have "wf_fiber ((fs_store fs ! f)\<lparr>fb_alive := False\<rparr>)"
    using wf_fibersD [OF wf f(1)] by (simp add: wf_fiber_def split: ucontext.splits)
  then have "list_all wf_fiber ?store"
    using wf f(1) by (auto simp: wf_fibers_def list_all_length nth_list_update)
  ultimately have "wf_fibers fs'" using wf alive by (simp add: wf_fibers_def fs')
  then show ?thesis
    using inv f(1) by (auto simp: thread_inv_def fs' at_main_def nth_list_update)
qed

lemma thread_inv_step:
  assumes "fiber_step env (th, fs, s) (th', fs', s')" and inv: "thread_inv th fs"
  shows "thread_inv th' fs'"
  using assms(1)
proof (cases rule: fiber_step.cases)
  case (step_new junk cb stacksize use_caller)
  then show ?thesis using thread_inv_new [OF inv] by simp
next
  case (step_GetThis f)
  then show ?thesis using thread_inv_GetThis [OF inv] by simp
next
  case (step_SwapIn f)
  then have main: "t_threadFiber th \<noteq> None" and st: "GetState f fs \<noteq> EXEC"
    and eq: "resume f (SetThis (Some f) th) (set_state f EXEC fs) s = Inr (th', fs', s')"
    by (auto simp: SwapIn_def Let_def SetThis_def split: if_splits)
  have "fb_context (fs_store fs ! f) \<noteq> Own_stack"
    using st wf_fibersD [of fs f] inv step_SwapIn(1) by (auto simp: thread_inv_def wf_fiber_def GetState_def)
  then show ?thesis using thread_inv_resume [OF inv step_SwapIn(1) _ main eq] by blast
next
  case (step_Call f)
  then have main: "t_threadFiber th \<noteq> None"
    and eq: "resume f (SetThis (Some f) th) (set_state f EXEC fs) s = Inr (th', fs', s')"
    by (auto simp: Call_def split: if_splits)
  have "fb_context (fs_store fs ! f) \<noteq> Own_stack"
    using inv step_Call(1,3) by (auto simp: thread_inv_def)
  then show ?thesis using thread_inv_resume [OF inv step_Call(1) _ main eq] by blast
next
  case (step_hold f e c)
  have wf: "wf_fibers fs" using inv by (simp add: thread_inv_def)
  have "wf_fibers (set_state f HOLD fs)"
    unfolding set_state_def using wf_fibersD [OF wf, of f] step_hold
    by (intro wf_upd_fiber [OF wf]) (simp_all add: wf_fiber_def)
  then show ?thesis
    using step_hold(1,2) thread_inv_upd [OF inv, of f "\<lambda>b. b\<lparr>fb_state := HOLD\<rparr>"]
    by (simp add: set_state_def)
next
  case (step_Reset f cb)
  have wf: "wf_fibers fs" using inv by (simp add: thread_inv_def)
  let ?g = "\<lambda>b. b\<lparr>fb_callback := cb, fb_context := At_entry MainFunc, fb_state := INIT\<rparr>"
  from step_Reset have fs': "fs' = upd_fiber f ?g fs" and stack: "fb_stack (fs_store fs ! f)"
    by (auto simp: Reset_def Let_def split: if_splits)
  have "wf_fibers fs'"
    unfolding fs' using stack by (intro wf_upd_fiber [OF wf]) (simp_all add: wf_fiber_def)
  moreover have "fb_context (fs_store fs ! f) \<noteq> Own_stack"
    using stack wf_fibersD [OF wf step_Reset(3)] by (auto simp: wf_fiber_def)
  ultimately show ?thesis
    using step_Reset(1) thread_inv_upd [OF inv, of f ?g] by (simp add: fs')
next
  case (step_delete f)
  then show ?thesis using thread_inv_delete [OF inv] by simp
qed

lemma reachable_thread_inv: "fibers_reachable env st \<Longrightarrow> (case st of (th, fs, s) \<Rightarrow> thread_inv th fs)"
proof (induction rule: fibers_reachable.induct)
  case (start s)
  show ?case by (simp add: thread_inv_def wf_fibers_def fiber_ids_def numbered_def)
next
  case (step st st')
  then show ?case by (cases st; cases st') (auto intro: thread_inv_step)
qed

lemma numbered_distinct: "numbered ids \<Longrightarrow> length ids < 2 ^ 64 \<Longrightarrow> distinct ids"
proof -
  assume n: "numbered ids" and l: "length ids < 2 ^ 64"
  have "inj_on (of_nat :: nat \<Rightarrow> u64) {1 ..< Suc (length ids)}"
  proof (rule inj_onI)
    fix x y
    assume "x \<in> {1 ..< Suc (length ids)}" "y \<in> {1 ..< Suc (length ids)}"
      and eq: "(of_nat x :: u64) = of_nat y"
    then have "x < 2 ^ 64" "y < 2 ^ 64" using l by simp_all
    then show "x = y" using arg_cong [OF eq, of unat] by (simp add: unat_of_nat take_bit_nat_eq_self)
  qed
  then have "distinct (map of_nat [1 ..< Suc (length ids)] :: u64 list)"
    by (simp add: distinct_map del: upt_Suc)
  with n show ?thesis unfolding numbered_def by metis
qed



end
