(* ===== verification/SwitchingProps.thy ===== *)
theory SwitchingProps
  imports Switching FiberProps
begin

text \<open>
  What the switches of \<open>Switching\<close> amount to. As long as only the main fiber of a thread switches to
  fibers, a switch and the steps up to the return do what \<open>SwapIn\<close> and \<open>Call\<close> of \<open>Fiber\<close> say; and
  once a fiber that the main fiber has called switches to a fiber itself, the main stack is lost.
\<close>

subsection \<open>Programs that only yield\<close>

fun op_of :: "('s, 's coro) stretch \<Rightarrow> ('s, ('s, 's coro) stretch) op" where
  "op_of Return = Op_return"
| "op_of (Raise e) = Op_raise e"
| "op_of (Do g p) = Op_do g p"
| "op_of (Branch k) = Op_branch (\<lambda>s states. k s)"
| "op_of (Yield_ready c) = Op_yield_ready (next_stretch c)"
| "op_of (Yield_hold c) = Op_yield_hold (next_stretch c)"

primcorec embed :: "('s, 's coro) stretch \<Rightarrow> 's code" where
  "embed p = Code (map_op embed (op_of p))"

abbreviation embed_coro :: "'s coro \<Rightarrow> 's code" where
  "embed_coro c \<equiv> embed (next_stretch c)"

lemma embed_Raise: "embed (Raise x) = Code (Op_raise x)"
  by (simp add: embed.code)

subsection \<open>The machine and the store\<close>

text \<open>A fiber of the machine and one of the store; a context on the fiber's own stack can be resumed.\<close>

definition own :: "nat \<Rightarrow> nat \<Rightarrow> 's point \<Rightarrow> 's mcontext option" where
  "own f g p = Some \<lparr>cx_stack = f, cx_gen = g, cx_point = p\<rparr>"

definition mirrors :: "nat \<Rightarrow> 's fiber \<Rightarrow> 's mfiber \<Rightarrow> bool" where
  "mirrors f b x \<longleftrightarrow>
     mf_state x = fb_state b \<and> mf_stack x = fb_stack b \<and> mf_callback x = map_option embed_coro (fb_callback b) \<and>
     (case fb_context b of
        At_entry e \<Rightarrow> mf_context x = own f (mf_gen x) (Enter e)
      | In_callback e c \<Rightarrow> mf_context x = own f (mf_gen x) (Inside e f (embed_coro c))
      | At_end e \<Rightarrow> mf_context x = own f (mf_gen x) (Ended e f)
      | Own_stack \<Rightarrow> True)"

text \<open>The machine is on the main stack \<open>m\<close> of its thread.\<close>

definition implements :: "nat \<Rightarrow> 's fibers \<Rightarrow> 's \<Rightarrow> 's machine \<Rightarrow> bool" where
  "implements m fs s M \<longleftrightarrow>
     length (ma_fibers M) = length (fs_store fs) \<and>
     (\<forall>f < length (fs_store fs). mirrors f (fs_store fs ! f) (ma_fibers M ! f)) \<and>
     ma_this M = m \<and> ma_thread_fiber M = m \<and> ma_stack M = m \<and> ma_world M = s"

lemma mupd_simps [simp]:
  "length (ma_fibers (mupd f g M)) = length (ma_fibers M)"
  "ma_this (mupd f g M) = ma_this M" "ma_thread_fiber (mupd f g M) = ma_thread_fiber M"
  "ma_stack (mupd f g M) = ma_stack M" "ma_point (mupd f g M) = ma_point M" "ma_world (mupd f g M) = ma_world M"
  "ma_fibers (mupd f g M) = (ma_fibers M)[f := g (ma_fibers M ! f)]"
  by (simp_all add: mupd_def)

subsection \<open>A stretch on the machine\<close>

fun after_mstretch :: "entry \<Rightarrow> nat \<Rightarrow> 's coro stop \<Rightarrow> 's mfiber \<Rightarrow> 's mfiber" where
  "after_mstretch e f Finished b =
     b\<lparr>mf_callback := None, mf_state := TERM', mf_context := own f (mf_gen b) (Ended e f)\<rparr>"
| "after_mstretch e f (Raised x) b = b\<lparr>mf_state := EXCEPT, mf_context := own f (mf_gen b) (Ended e f)\<rparr>"
| "after_mstretch e f (Ready_at c) b =
     b\<lparr>mf_state := READY, mf_context := own f (mf_gen b) (Inside e f (embed_coro c))\<rparr>"
| "after_mstretch e f (Held_at c) b =
     b\<lparr>mf_state := EXEC, mf_context := own f (mf_gen b) (Inside e f (embed_coro c))\<rparr>"

definition returned :: "entry \<Rightarrow> nat \<Rightarrow> nat \<Rightarrow> 's code \<Rightarrow> 's coro stop \<Rightarrow> 's \<Rightarrow> 's machine \<Rightarrow> 's machine" where
  "returned e f m k r s M =
     M\<lparr>ma_fibers := (ma_fibers M)[f := after_mstretch e f r (ma_fibers M ! f),
                                  m := (ma_fibers M ! m)\<lparr>mf_gen := Suc (mf_gen (ma_fibers M ! m))\<rparr>],
       ma_this := m, ma_stack := m, ma_point := On_main k, ma_world := s\<rparr>"

text \<open>The machine runs the callback of fiber \<open>f\<close>, which the main fiber \<open>m\<close> has switched to.\<close>

definition visiting :: "nat \<Rightarrow> nat \<Rightarrow> 's code \<Rightarrow> 's machine \<Rightarrow> bool" where
  "visiting f m k M \<longleftrightarrow>
     f \<noteq> m \<and> f < length (ma_fibers M) \<and> m < length (ma_fibers M) \<and>
     ma_this M = f \<and> ma_stack M = f \<and> ma_thread_fiber M = m \<and> mstate f M = EXEC \<and>
     mf_context (ma_fibers M ! m) = own m (mf_gen (ma_fibers M ! m)) (On_main k)"

lemma visiting_simps [simp]:
  "visiting f m k (M\<lparr>ma_world := s, ma_point := p\<rparr>) = visiting f m k M"
  "visiting f m k (M\<lparr>ma_point := p\<rparr>) = visiting f m k M"
  "visiting f m k (M\<lparr>ma_world := s\<rparr>) = visiting f m k M"
  by (simp_all add: visiting_def mstate_def)

lemma returned_simps [simp]:
  "returned e f m k r s (M\<lparr>ma_world := w, ma_point := p\<rparr>) = returned e f m k r s M"
  "returned e f m k r s (M\<lparr>ma_point := p\<rparr>) = returned e f m k r s M"
  "returned e f m k r s (M\<lparr>ma_world := w\<rparr>) = returned e f m k r s M"
  by (simp_all add: returned_def)

lemma swap_back:
  assumes "visiting f m k M" and "x \<in> {mSwapOut, mBack}"
    and g: "\<And>b. g b\<lparr>mf_context := own f (mf_gen (g b)) p\<rparr> = after_mstretch e f r b" "\<And>b. mf_gen (g b) = mf_gen b"
  shows "x f p (mupd f g M) = Running (returned e f m k r (ma_world M) M)"
  using assms(1,2) g [symmetric]
  by (auto simp: mSwapOut_def mBack_def swapcontext_def Let_def returned_def visiting_def mupd_def own_def list_update_swap)

lemma run_embedded:
  assumes "visiting f m k M" "ma_point M = Inside e f (embed p)" "run_stretch p (ma_world M) = (s', r)"
  shows "msteps junk M (returned e f m k r s' M)"
  using assms
proof (induction p arbitrary: M)
  case Return
  have "mstep junk M = mleave e f (mupd f (\<lambda>b. b\<lparr>mf_callback := None, mf_state := TERM'\<rparr>) M)"
    using Return.prems(2) by (simp add: mstep_def)
  also have "\<dots> = Running (returned e f m k r s' M)"
    using swap_back [OF Return.prems(1), where g = "\<lambda>b. b\<lparr>mf_callback := None, mf_state := TERM'\<rparr>"] Return.prems(3)
    by (cases e) (simp_all add: mleave_def)
  finally show ?case by (rule msteps_one)
next
  case (Raise x)
  have "mstep junk M = mleave e f (set_mstate f EXCEPT M)"
    using Raise.prems(2) by (simp add: mstep_def)
  also have "\<dots> = Running (returned e f m k r s' M)"
    using swap_back [OF Raise.prems(1), where g = "\<lambda>b. b\<lparr>mf_state := EXCEPT\<rparr>" and r = "Raised x"] Raise.prems(3)
    by (cases e) (auto simp: mleave_def set_mstate_def)
  finally show ?case by (rule msteps_one)
next
  case (Do g p)
  let ?M = "M\<lparr>ma_world := g (ma_world M), ma_point := Inside e f (embed p)\<rparr>"
  have "mstep junk M = Running ?M" using Do.prems(2) by (simp add: mstep_def step_op_def)
  moreover have "msteps junk ?M (returned e f m k r s' M)"
    using Do.IH [of ?M] Do.prems(1,3) by simp
  ultimately show ?case by (rule msteps_step)
next
  case (Branch b)
  let ?M = "M\<lparr>ma_point := Inside e f (embed (b (ma_world M)))\<rparr>"
  have "mstep junk M = Running ?M" using Branch.prems(2) by (simp add: mstep_def step_op_def)
  moreover have "msteps junk ?M (returned e f m k r s' M)"
    using Branch.IH [of "b (ma_world M)" ?M] Branch.prems(1,3) by simp
  ultimately show ?case by (rule msteps_step)
next
  case (Yield_ready c)
  have v: "mstate f M = EXEC" "ma_this M = f" using Yield_ready.prems(1) by (simp_all add: visiting_def)
  have "mstep junk M = mSwapOut f (Inside e f (embed_coro c)) (mupd f (\<lambda>b. b\<lparr>mf_state := READY\<rparr>) M)"
    using Yield_ready.prems(2) v by (simp add: mstep_def step_op_def mYieldToReady_def set_mstate_def)
  also have "\<dots> = Running (returned e f m k r s' M)"
    using swap_back [OF Yield_ready.prems(1), where g = "\<lambda>b. b\<lparr>mf_state := READY\<rparr>" and r = "Ready_at c"] Yield_ready.prems(3) by auto
  finally show ?case by (rule msteps_one)
next
  case (Yield_hold c)
  have v: "mstate f M = EXEC" "ma_this M = f" "f < length (ma_fibers M)"
    using Yield_hold.prems(1) by (simp_all add: visiting_def)
  have same: "mupd f (\<lambda>b. b\<lparr>mf_state := EXEC\<rparr>) M = M"
    using v by (cases "ma_fibers M ! f") (simp add: mupd_def mstate_def list_update_same_conv)
  have "mstep junk M = mSwapOut f (Inside e f (embed_coro c)) (mupd f (\<lambda>b. b\<lparr>mf_state := EXEC\<rparr>) M)"
    unfolding same using Yield_hold.prems(2) v by (simp add: mstep_def step_op_def mYieldToHold_def)
  also have "\<dots> = Running (returned e f m k r s' M)"
    using swap_back [OF Yield_hold.prems(1), where g = "\<lambda>b. b\<lparr>mf_state := EXEC\<rparr>" and r = "Held_at c"] Yield_hold.prems(3) by auto
  finally show ?case by (rule msteps_one)
qed

subsection \<open>One switch from the main fiber\<close>

lemma mirrors_after:
  assumes "mf_stack x = fb_stack b" "mf_callback x = map_option embed_coro (fb_callback b)" "entry_of b = e"
  shows "mirrors f (after_stretch r b) (after_mstretch e f r x)"
  using assms by (cases r) (simp_all add: mirrors_def own_def)

text \<open>The machine after \<open>SwapIn\<close> or \<open>Call\<close> has switched to a resumable fiber.\<close>

definition visited :: "nat \<Rightarrow> nat \<Rightarrow> 's code \<Rightarrow> 's machine \<Rightarrow> 's machine" where
  "visited f m k M =
     M\<lparr>ma_fibers := (ma_fibers M)
         [f := (ma_fibers M ! f)\<lparr>mf_state := EXEC, mf_gen := Suc (mf_gen (ma_fibers M ! f))\<rparr>,
          m := (ma_fibers M ! m)\<lparr>mf_context := own m (mf_gen (ma_fibers M ! m)) (On_main k)\<rparr>],
       ma_this := f, ma_stack := f,
       ma_point := (case mf_context (ma_fibers M ! f) of Some c \<Rightarrow> cx_point c | None \<Rightarrow> ma_point M)\<rparr>"

lemma switch_to:
  assumes "f \<noteq> m" "f < length (ma_fibers M)" "m < length (ma_fibers M)" "ma_thread_fiber M = m" "ma_stack M = m"
    and "mf_context (ma_fibers M ! f) = own f (mf_gen (ma_fibers M ! f)) p"
  shows "swapcontext (ma_thread_fiber M) f (On_main k) (set_mstate f EXEC (M\<lparr>ma_this := f\<rparr>)) = Running (visited f m k M)"
  using assms
  by (simp add: swapcontext_def Let_def visited_def set_mstate_def mupd_def own_def list_update_swap)

lemma implementsD:
  "implements m fs s M \<Longrightarrow> f < length (fs_store fs) \<Longrightarrow> mirrors f (fs_store fs ! f) (ma_fibers M ! f)"
  by (simp add: implements_def)

lemma implements_len:
  "implements m fs s M \<Longrightarrow> at_main m th fs \<Longrightarrow> length (ma_fibers M) = length (fs_store fs) \<and> m < length (fs_store fs)"
  by (simp add: implements_def at_main_def)

lemma visit_runs:
  assumes impl: "implements m fs s M" and m: "at_main m th fs" and f: "f < length (fs_store fs)"
    and res: "resumable (fs_store fs ! f)" and run: "run_coro (program_left (fs_store fs ! f)) s = (s', r)"
  shows "msteps junk (visited f m k M) (returned (entry_of (fs_store fs ! f)) f m k r s' (visited f m k M))"
proof -
  let ?b = "fs_store fs ! f" and ?V = "visited f m k M" and ?e = "entry_of (fs_store fs ! f)"
  let ?p = "next_stretch (program_left ?b)" and ?M' = "returned ?e f m k r s' ?V"
  have fm: "f \<noteq> m" using res m by (auto simp: at_main_def resumable_def)
  note len = implements_len [OF impl m] and mir = implementsD [OF impl f]
  have vis: "visiting f m k (?V\<lparr>ma_point := q\<rparr>)" for q
    using fm f len impl by (simp add: visiting_def visited_def mstate_def implements_def)
  have "ma_world ?V = s" using impl by (simp add: visited_def implements_def)
  then have start: "msteps junk (?V\<lparr>ma_point := Inside ?e f (embed ?p)\<rparr>) ?M'"
    using run_embedded [OF vis [of "Inside ?e f (embed ?p)"], of ?e ?p s' r junk] run
    by (simp add: run_coro_def)
  show ?thesis
  proof (cases "fb_context ?b")
    case (At_entry e)
    then have "ma_point ?V = Enter ?e" using mir by (simp add: mirrors_def visited_def own_def entry_of_def)
    moreover have "mf_callback (ma_fibers ?V ! f) = map_option embed_coro (fb_callback ?b)" "ma_this ?V = f"
      using mir fm f len by (simp_all add: mirrors_def visited_def)
    ultimately have "mstep junk ?V = Running (?V\<lparr>ma_point := Inside ?e f (embed ?p)\<rparr>)"
      using At_entry by (cases "fb_callback ?b") (simp_all add: mstep_def program_left_def embed_Raise)
    then show ?thesis using start by (rule msteps_step)
  next
    case (In_callback e c)
    then have "?V = ?V\<lparr>ma_point := Inside ?e f (embed ?p)\<rparr>"
      using mir by (simp add: mirrors_def visited_def own_def entry_of_def program_left_def)
    then show ?thesis using start by simp
  qed (use res in \<open>simp_all add: resumable_def\<close>)
qed

lemma visit_implements:
  assumes impl: "implements m fs s M" and m: "at_main m th fs" and f: "f < length (fs_store fs)"
    and res: "resumable (fs_store fs ! f)"
  shows "implements m (upd_fiber f (after_stretch r) fs) s'
    (returned (entry_of (fs_store fs ! f)) f m k r s' (visited f m k M))"
proof -
  let ?b = "fs_store fs ! f" and ?x = "ma_fibers M ! f" and ?e = "entry_of (fs_store fs ! f)"
  let ?M' = "returned ?e f m k r s' (visited f m k M)"
  have fm: "f \<noteq> m" using res m by (auto simp: at_main_def resumable_def)
  note len = implements_len [OF impl m] and mir = implementsD [OF impl f]
  have "mirrors g ((fs_store fs)[f := after_stretch r ?b] ! g) (ma_fibers ?M' ! g)" if g: "g < length (fs_store fs)" for g
  proof -
    consider "g = f" | "g = m" | "g \<noteq> f" "g \<noteq> m" by blast
    then show ?thesis
    proof cases
      case 1
      have "ma_fibers ?M' ! f = after_mstretch ?e f r (?x\<lparr>mf_state := EXEC, mf_gen := Suc (mf_gen ?x)\<rparr>)"
        using fm f len by (simp add: returned_def visited_def)
      then show ?thesis
        using 1 f mir mirrors_after [of "?x\<lparr>mf_state := EXEC, mf_gen := Suc (mf_gen ?x)\<rparr>" ?b ?e f r]
        by (simp add: mirrors_def)
    next
      case 2
      have "ma_fibers ?M' ! m = (ma_fibers M ! m)\<lparr>mf_context := own m (mf_gen (ma_fibers M ! m)) (On_main k),
          mf_gen := Suc (mf_gen (ma_fibers M ! m))\<rparr>"
        using fm f len by (simp add: returned_def visited_def)
      moreover have "mirrors m (fs_store fs ! m) (ma_fibers M ! m)" "fb_context (fs_store fs ! m) = Own_stack"
        using implementsD [OF impl] len m by (simp_all add: at_main_def)
      ultimately show ?thesis using 2 fm by (simp add: mirrors_def)
    next
      case 3
      then show ?thesis using implementsD [OF impl g] by (simp add: returned_def visited_def)
    qed
  qed
  then show ?thesis using impl len by (simp add: implements_def returned_def visited_def)
qed

text \<open>A switch, by \<open>SwapIn\<close> or by \<open>Call\<close>, to a fiber that is not executing.\<close>

lemma switch_implemented:
  assumes impl: "implements m fs s M" and wf: "wf_fibers fs" and m: "at_main m th fs"
    and f: "f < length (fs_store fs)" "GetState f fs \<noteq> EXEC"
    and step: "mstep junk M = swapcontext (ma_thread_fiber M) f (On_main k) (set_mstate f EXEC (M\<lparr>ma_this := f\<rparr>))"
    and x: "x \<in> {SwapIn, Call}"
  shows "case x f th fs s of
      Inr (th', fs', s') \<Rightarrow> th' = th \<and> (\<exists>M'. msteps junk M M' \<and> ma_point M' = On_main k \<and> implements m fs' s' M')
    | Inl e \<Rightarrow> (\<exists>M'. msteps junk M M' \<and> mstep junk M' = Failed e)"
proof -
  let ?b = "fs_store fs ! f"
  note len = implements_len [OF impl m] and mir = implementsD [OF impl f(1)]
  have wb: "wf_fiber ?b" using wf f(1) by (rule wf_fibersD)
  then have not_own: "fb_context ?b \<noteq> Own_stack" using f(2) by (auto simp: wf_fiber_def GetState_def)
  then have fm: "f \<noteq> m" using m by (auto simp: at_main_def)
  obtain p where p: "mf_context (ma_fibers M ! f) = own f (mf_gen (ma_fibers M ! f)) p"
    using mir not_own by (cases "fb_context ?b") (auto simp: mirrors_def)
  have visit: "mstep junk M = Running (visited f m k M)"
    unfolding step using fm f(1) len impl p by (intro switch_to) (simp_all add: implements_def)
  have tls: "x f th fs s = resume f (SetThis (Some f) th) (set_state f EXEC fs) s"
    using x f(2) m by (auto simp: SwapIn_def Call_def Let_def at_main_def SetThis_def)
  show ?thesis
  proof (cases "resumable ?b")
    case True
    obtain s' r where run: "run_coro (program_left ?b) s = (s', r)" by fastforce
    have "x f th fs s = Inr (th, upd_fiber f (after_stretch r) fs, s')"
      using resume_effect [OF wf f(1) True] at_main_back [OF m] by (simp add: tls run)
    moreover have "ma_point (returned e f m k r s' M') = On_main k" for e M' by (simp add: returned_def)
    ultimately show ?thesis
      using msteps_step [OF visit visit_runs [OF impl m f(1) True run]] visit_implements [OF impl m f(1) True, of r s' k]
      by auto
  next
    case False
    then obtain e where e: "fb_context ?b = At_end e" using not_own by (cases "fb_context ?b") (auto simp: resumable_def)
    then have "mstep junk (visited f m k M) = Failed (Assert_fail ''never reach'')"
      using mir by (simp add: mirrors_def visited_def own_def mstep_def)
    moreover have "x f th fs s = Inl (Assert_fail ''never reach'')"
      using e f(1) by (simp add: tls resume_def set_state_def)
    ultimately show ?thesis using msteps_one [OF visit] by auto
  qed
qed

text \<open>The model of a switch from the main fiber is right.\<close>

lemma swap_in_steps:
  assumes impl: "implements m fs s M" and wf: "wf_fibers fs" and m: "at_main m th fs" and f: "f < length (fs_store fs)"
    and point: "ma_point M = On_main (Code (Op_swap_in f k))"
  shows "case SwapIn f th fs s of
      Inr (th', fs', s') \<Rightarrow> th' = th \<and> (\<exists>M'. msteps junk M M' \<and> ma_point M' = On_main k \<and> implements m fs' s' M')
    | Inl e \<Rightarrow> (\<exists>M'. msteps junk M M' \<and> mstep junk M' = Failed e)"
proof -
  have fM: "f < length (ma_fibers M)" using implements_len [OF impl m] f by simp
  show ?thesis
proof (cases "GetState f fs = EXEC")
  case True
  then have "mstate f M = EXEC" using implementsD [OF impl f] by (simp add: mirrors_def mstate_def GetState_def)
  then have "mstep junk M = Failed (Assert_fail ''mState != EXEC'')"
    using point fM by (simp add: mstep_def step_op_def mSwapIn_def on_fiber_def)
  then show ?thesis using True by (auto simp: SwapIn_def Let_def intro: msteps_refl)
next
  case False
  then have "mstate f M \<noteq> EXEC" using implementsD [OF impl f] by (simp add: mirrors_def mstate_def GetState_def)
  then have "mstep junk M = swapcontext (ma_thread_fiber M) f (On_main k) (set_mstate f EXEC (M\<lparr>ma_this := f\<rparr>))"
    using point fM by (simp add: mstep_def step_op_def mSwapIn_def on_fiber_def)
  then show ?thesis by (rule switch_implemented [OF impl wf m f False]) simp
qed
qed

text \<open>The other operations on fibers.\<close>

lemma new_implemented:
  assumes "implements m fs s M" "\<And>n. fe_malloc env n"
  shows "implements m (snd (new_Fiber env junk cb n uc fs)) s (mnew junk (map_option embed_coro cb) M)"
  using assms
  by (auto simp: implements_def new_Fiber_def Let_def mnew_def nth_append mirrors_def own_def less_Suc_eq)

lemma implements_upd:
  assumes "implements m fs s M" "f < length (fs_store fs)" "mirrors f (g (fs_store fs ! f)) (h (ma_fibers M ! f))"
  shows "implements m (upd_fiber f g fs) s (mupd f h M)"
  using assms by (simp add: implements_def nth_list_update)

lemma reset_implemented:
  assumes impl: "implements m fs s M" and f: "f < length (fs_store fs)"
  shows "case Reset f cb fs of
      Inr fs' \<Rightarrow> \<exists>M'. mReset f (map_option embed_coro cb) M = Inr M' \<and> implements m fs' s M' \<and> ma_point M' = ma_point M
    | Inl e \<Rightarrow> mReset f (map_option embed_coro cb) M = Inl e"
proof -
  note mir = implementsD [OF impl f]
  let ?g = "\<lambda>b. b\<lparr>fb_callback := cb, fb_context := At_entry MainFunc, fb_state := INIT\<rparr>"
  let ?h = "\<lambda>b. b\<lparr>mf_callback := map_option embed_coro cb, mf_gen := Suc (mf_gen b),
     mf_context := Some \<lparr>cx_stack = f, cx_gen = Suc (mf_gen b), cx_point = Enter MainFunc\<rparr>, mf_state := INIT\<rparr>"
  have "implements m (upd_fiber f ?g fs) s (mupd f ?h M)"
    using impl f by (rule implements_upd) (use mir in \<open>simp add: mirrors_def own_def\<close>)
  moreover have "mf_state (ma_fibers M ! f) = fb_state (fs_store fs ! f)" "mf_stack (ma_fibers M ! f) = fb_stack (fs_store fs ! f)"
    using mir by (simp_all add: mirrors_def)
  ultimately show ?thesis by (simp add: Reset_def mReset_def Let_def)
qed

lemma hold_implemented:
  assumes "implements m fs s M" "f < length (fs_store fs)"
  shows "implements m (set_state f st fs) s (set_mstate f st M)"
  unfolding set_state_def set_mstate_def using assms
  by (rule implements_upd) (use implementsD [OF assms] in \<open>simp add: mirrors_def split: ucontext.splits\<close>)

lemma states_implemented: "implements m fs s M \<Longrightarrow> map mf_state (ma_fibers M) = map fb_state (fs_store fs)"
  by (auto simp: implements_def mirrors_def intro: nth_equalityI)

lemma implements_point [simp]: "implements m fs s (M\<lparr>ma_point := p\<rparr>) = implements m fs s M"
  by (simp add: implements_def)

lemma implements_world: "implements m fs s M \<Longrightarrow> implements m fs s' (M\<lparr>ma_world := s', ma_point := p\<rparr>)"
  by (simp add: implements_def)

end
