(* ===== verification/Scheduler.thy ===== *)
theory Scheduler
  imports FiberProps Threads
begin

text \<open>
  The fiber scheduler: \<open>primo/schedule.h\<close> and \<open>primo/schedule.cpp\<close>. A task names a fiber of the store
  or a function; functions are named by an index into a table \<open>code\<close>, which gives their programs
  over the scheduler and the rest \<open>'e\<close> of the process, so that a task can schedule other tasks. Each
  worker thread goes through its loop in the steps that the lock and the switches to fibers cut
  it into; the steps of several workers interleave. \<open>sc_tickles\<close> counts the calls of the virtual
  \<open>tickle\<close>.
\<close>

subsection \<open>Tasks and the queue\<close>

record task =
  ft_fiber :: "nat option"
  ft_cb :: "nat option"
  ft_thread :: int

record scheduler =
  sc_name :: string
  sc_threads :: "(string \<times> int) option list"
  sc_fibers :: "task list"
  sc_rootFiber :: "nat option"
  sc_threadIds :: "int list"
  sc_threadCount :: nat
  sc_active :: u64
  sc_idle :: u64
  sc_stopping :: bool
  sc_autoStop :: bool
  sc_rootThread :: int
  sc_tickles :: nat

definition no_task :: task where
  "no_task = \<lparr>ft_fiber = None, ft_cb = None, ft_thread = -1\<rparr>"

definition fiber_task :: "nat option \<Rightarrow> int \<Rightarrow> task" where
  "fiber_task f thr = \<lparr>ft_fiber = f, ft_cb = None, ft_thread = thr\<rparr>"

definition cb_task :: "nat option \<Rightarrow> int \<Rightarrow> task" where
  "cb_task f thr = \<lparr>ft_fiber = None, ft_cb = f, ft_thread = thr\<rparr>"

text \<open>The constructors that take a pointer move its target into the task and leave it empty.\<close>

definition take_fiber_task :: "nat option \<Rightarrow> int \<Rightarrow> task \<times> nat option" where
  "take_fiber_task f thr = (fiber_task f thr, None)"

definition take_cb_task :: "nat option \<Rightarrow> int \<Rightarrow> task \<times> nat option" where
  "take_cb_task f thr = (cb_task f thr, None)"

definition tickle :: "scheduler \<Rightarrow> scheduler" where
  "tickle sc = sc\<lparr>sc_tickles := Suc (sc_tickles sc)\<rparr>"

definition scheduleNoLock :: "task \<Rightarrow> scheduler \<Rightarrow> bool \<times> scheduler" where
  "scheduleNoLock ft sc =
     (sc_fibers sc = [],
      if ft_fiber ft \<noteq> None \<or> ft_cb ft \<noteq> None then sc\<lparr>sc_fibers := sc_fibers sc @ [ft]\<rparr> else sc)"

definition schedule :: "task \<Rightarrow> scheduler \<Rightarrow> scheduler" where
  "schedule ft sc =
     (case scheduleNoLock ft sc of (need_tickle, sc) \<Rightarrow> if need_tickle then tickle sc else sc)"

text \<open>The batch version: the loop under the lock, and the whole; the entries the caller passed are left
  empty.\<close>

fun schedule_loop :: "nat option list \<Rightarrow> bool \<Rightarrow> scheduler \<Rightarrow> bool \<times> scheduler" where
  "schedule_loop [] need_tickle sc = (need_tickle, sc)"
| "schedule_loop (f # fs) need_tickle sc =
     (case scheduleNoLock (fst (take_fiber_task f (-1))) sc of
        (b, sc) \<Rightarrow> schedule_loop fs (b \<or> need_tickle) sc)"

definition schedule_range :: "nat option list \<Rightarrow> scheduler \<Rightarrow> nat option list \<times> scheduler" where
  "schedule_range fs sc =
     (map (\<lambda>f. snd (take_fiber_task f (-1))) fs,
      case schedule_loop fs False sc of (need_tickle, sc) \<Rightarrow> if need_tickle then tickle sc else sc)"

definition stopping :: "scheduler \<Rightarrow> bool" where
  "stopping sc \<longleftrightarrow> sc_autoStop sc \<and> sc_stopping sc \<and> sc_fibers sc = [] \<and> sc_active sc = 0"

definition hasIdleThreads :: "scheduler \<Rightarrow> bool" where
  "hasIdleThreads sc \<longleftrightarrow> sc_idle sc > 0"

text \<open>The search of the queue in \<open>run\<close>, for the thread \<open>tid\<close>: the task taken out, the rest of the
  queue, and \<open>tickle_me\<close>.\<close>

fun pick_task ::
  "(nat \<Rightarrow> fiber_state) \<Rightarrow> int \<Rightarrow> task list \<Rightarrow> (task option \<times> task list \<times> bool) outcome" where
  "pick_task state tid [] = Inr (None, [], False)"
| "pick_task state tid (t # ts) =
     (if ft_thread t \<noteq> -1 \<and> ft_thread t \<noteq> tid
      then obind (pick_task state tid ts) (\<lambda>(r, rest, tickle_me). Inr (r, t # rest, True))
      else if ft_fiber t = None \<and> ft_cb t = None then Inl (Assert_fail ''it->fiber || it->cb'')
      else if map_option state (ft_fiber t) = Some EXEC
      then obind (pick_task state tid ts) (\<lambda>(r, rest, tickle_me). Inr (r, t # rest, tickle_me))
      else Inr (Some t, ts, ts \<noteq> []))"

subsection \<open>Construction and destruction, start and stop\<close>

text \<open>The thread-local variables of a thread; \<open>sl_scheduler\<close> is the scheduler it works for.\<close>

record sched_locals =
  sl_fibers :: tls
  sl_thread :: thread_locals
  sl_scheduler :: "nat option"
  sl_scheduler_fiber :: "nat option"
  sl_tid :: int

text \<open>The static functions of the class, for the thread with the variables \<open>lo\<close>.\<close>

definition Scheduler_GetThis :: "sched_locals \<Rightarrow> nat option" where
  [simp]: "Scheduler_GetThis lo = sl_scheduler lo"

definition GetMainFiber :: "sched_locals \<Rightarrow> nat option" where
  "GetMainFiber lo = sl_scheduler_fiber lo"

definition setThis :: "nat \<Rightarrow> sched_locals \<Rightarrow> sched_locals" where
  [simp]: "setThis self lo = lo\<lparr>sl_scheduler := Some self\<rparr>"

text \<open>The constructor of the scheduler \<open>self\<close>; \<open>run_cb\<close> is \<open>std::bind(&Scheduler::run, this)\<close> as the
  callback of the root fiber.\<close>

definition initial_scheduler :: "string \<Rightarrow> scheduler" where
  "initial_scheduler name =
     \<lparr>sc_name = name, sc_threads = [], sc_fibers = [], sc_rootFiber = None, sc_threadIds = [],
      sc_threadCount = 0, sc_active = 0, sc_idle = 0, sc_stopping = True, sc_autoStop = False,
      sc_rootThread = 0, sc_tickles = 0\<rparr>"

definition new_Scheduler ::
  "nat \<Rightarrow> fiber_env \<Rightarrow> bool \<Rightarrow> 's coro option \<Rightarrow> nat \<Rightarrow> bool \<Rightarrow> string
     \<Rightarrow> sched_locals \<Rightarrow> 's fibers \<Rightarrow> 'cb thread_object list
     \<Rightarrow> (scheduler \<times> sched_locals \<times> 's fibers \<times> 'cb thread_object list) outcome" where
  "new_Scheduler self env junk run_cb threads use_caller name lo fs ths =
     (if \<not> threads > 0 then Inl (Assert_fail ''threads > 0'')
      else if use_caller then
        obind (GetThis (sl_fibers lo) fs) (\<lambda>(f, th, fs).
          if Scheduler_GetThis lo \<noteq> None then Inl (Assert_fail ''GetThis() == nullptr'')
          else (case new_Fiber env junk run_cb 0 True fs of (root, fs) \<Rightarrow>
                (case Thread_SetName name (sl_thread lo) ths of (tv, ths) \<Rightarrow>
                   Inr ((initial_scheduler name)\<lparr>sc_rootFiber := Some root, sc_rootThread := sl_tid lo,
                           sc_threadIds := [sl_tid lo], sc_threadCount := threads - 1\<rparr>,
                        lo\<lparr>sl_fibers := th, sl_thread := tv, sl_scheduler := Some self,
                           sl_scheduler_fiber := Some root\<rparr>,
                        fs, ths))))
      else Inr ((initial_scheduler name)\<lparr>sc_rootThread := -1, sc_threadCount := threads\<rparr>, lo, fs, ths))"

definition delete_Scheduler :: "nat \<Rightarrow> scheduler \<Rightarrow> sched_locals \<Rightarrow> sched_locals outcome" where
  "delete_Scheduler self sc lo =
     (if \<not> sc_stopping sc then Inl (Assert_fail ''m_stopping'')
      else Inr (if sl_scheduler lo = Some self then lo\<lparr>sl_scheduler := None\<rparr> else lo))"

text \<open>\<open>start\<close>: \<open>create i\<close> is the id of the \<open>i\<close>-th new thread, or \<open>None\<close> when the system cannot create
  it, which makes the constructor of \<open>Thread\<close> throw.\<close>

fun start_threads :: "(nat \<Rightarrow> int option) \<Rightarrow> nat list \<Rightarrow> scheduler \<Rightarrow> scheduler \<times> fault option" where
  "start_threads create [] sc = (sc, None)"
| "start_threads create (i # is) sc =
     (case create i of
        None \<Rightarrow> (sc, Some (Throw (Logic_error ''pthread_create error'')))
      | Some tid \<Rightarrow>
          start_threads create is
            (sc\<lparr>sc_threads := (sc_threads sc)[i := Some (sc_name sc @ ''_'' @ show_nat i, tid)],
                sc_threadIds := sc_threadIds sc @ [tid]\<rparr>))"

definition start :: "(nat \<Rightarrow> int option) \<Rightarrow> scheduler \<Rightarrow> scheduler \<times> fault option" where
  "start create sc =
     (if \<not> sc_stopping sc then (sc, None)
      else (let sc = sc\<lparr>sc_stopping := False\<rparr>
            in if sc_threads sc \<noteq> [] then (sc, Some (Assert_fail ''m_threads.empty()''))
               else start_threads create [0 ..< sc_threadCount sc]
                      (sc\<lparr>sc_threads := replicate (sc_threadCount sc) None\<rparr>)))"

text \<open>\<open>stop\<close> up to the point where it calls the root fiber: whether it has returned already, and
  otherwise whether the root fiber is to be called. Afterwards the threads are taken out of the
  scheduler, to be joined.\<close>

datatype stop_result = Stop_returned | Stop_goes_on (call_root: bool)

definition stop :: "nat \<Rightarrow> sched_locals \<Rightarrow> 's fibers \<Rightarrow> scheduler \<Rightarrow> (stop_result \<times> scheduler) outcome" where
  "stop self lo fs sc =
     (let sc = sc\<lparr>sc_autoStop := True\<rparr>;
          root_idle = (case sc_rootFiber sc of
             None \<Rightarrow> False
           | Some r \<Rightarrow> sc_threadCount sc = 0 \<and> (GetState r fs = TERM' \<or> GetState r fs = INIT));
          sc = (if root_idle then sc\<lparr>sc_stopping := True\<rparr> else sc)
      in if root_idle \<and> stopping sc then Inr (Stop_returned, sc)
         else if sc_rootThread sc \<noteq> -1 \<and> Scheduler_GetThis lo \<noteq> Some self
         then Inl (Assert_fail ''GetThis() == this'')
         else if sc_rootThread sc = -1 \<and> Scheduler_GetThis lo = Some self
         then Inl (Assert_fail ''GetThis() != this'')
         else (let sc = (tickle ^^ sc_threadCount sc) (sc\<lparr>sc_stopping := True\<rparr>);
                   sc = (if sc_rootFiber sc \<noteq> None then tickle sc else sc)
               in Inr (Stop_goes_on (sc_rootFiber sc \<noteq> None \<and> \<not> stopping sc), sc)))"

definition stop_take_threads :: "scheduler \<Rightarrow> (string \<times> int) option list \<times> scheduler" where
  "stop_take_threads sc = (sc_threads sc, sc\<lparr>sc_threads := []\<rparr>)"

subsection \<open>Switching to a scheduler\<close>

text \<open>\<open>switchTo\<close> up to \<open>YieldToHold\<close>: \<open>None\<close> when there is nothing to do, otherwise the current fiber,
  which has been scheduled and yields next.\<close>

definition switchTo ::
  "nat \<Rightarrow> int \<Rightarrow> sched_locals \<Rightarrow> 's fibers \<Rightarrow> scheduler
     \<Rightarrow> (nat option \<times> sched_locals \<times> 's fibers \<times> scheduler) outcome" where
  "switchTo self thr lo fs sc =
     (if Scheduler_GetThis lo = None then Inl (Assert_fail ''Scheduler::GetThis() != nullptr'')
      else if Scheduler_GetThis lo = Some self \<and> (thr = -1 \<or> thr = sl_tid lo) then Inr (None, lo, fs, sc)
      else obind (GetThis (sl_fibers lo) fs) (\<lambda>(cur, th, fs).
        Inr (Some cur, lo\<lparr>sl_fibers := th\<rparr>, fs, schedule (fiber_task (Some cur) thr) sc)))"

text \<open>The constructor and the destructor of \<open>SchedulerSwitcher\<close>: the scheduler that is asked to take
  the current fiber over, if any; the constructor remembers the scheduler it comes from.\<close>

definition new_SchedulerSwitcher :: "nat option \<Rightarrow> sched_locals \<Rightarrow> nat option \<times> nat option" where
  "new_SchedulerSwitcher target lo = (Scheduler_GetThis lo, target)"

definition delete_SchedulerSwitcher :: "nat option \<Rightarrow> nat option" where
  "delete_SchedulerSwitcher m_caller = m_caller"

definition dump :: "scheduler \<Rightarrow> string" where
  "dump sc =
     ''[Scheduler name='' @ sc_name sc @ '' size='' @ show_nat (sc_threadCount sc) @
     '' active_count='' @ show_nat (unat (sc_active sc)) @ '' idle_count='' @ show_nat (unat (sc_idle sc)) @
     '' stopping='' @ (if sc_stopping sc then ''1'' else ''0'') @ '' ]'' @ newline @ ''    '' @
     concat (map (\<lambda>(i, t). (if i \<noteq> 0 then '', '' else []) @ show_int t)
                 (enumerate 0 (sc_threadIds sc)))"

end
