(* ===== verification/Workers.thy ===== *)
theory Workers
  imports Scheduler
begin

text \<open>
  The loop of the scheduler's worker threads, \<open>Scheduler::run\<close> of \<open>primo/schedule.cpp\<close>, for threads
  that run it on their own stack. One turn of the loop is a search of the queue under the lock, the
  dispatch of what was found, which switches to a fiber, and the bookkeeping after the fiber has
  switched back; other threads run between these steps.
\<close>

subsection \<open>State\<close>

record 'e world =
  w_sched :: scheduler
  w_rest :: 'e

record 'e proc =
  p_fibers :: "'e world fibers"
  p_world :: "'e world"

datatype worker_pc =
    W_pick
  | W_dispatch bool        \<comment> \<open>\<open>is_active\<close>\<close>
  | W_after_fiber
  | W_after_cb
  | W_after_idle
  | W_exit

record worker =
  wk_locals :: sched_locals
  wk_idle :: nat
  wk_cb :: "nat option"
  wk_ft :: task
  wk_pc :: worker_pc

definition upd_sched :: "(scheduler \<Rightarrow> scheduler) \<Rightarrow> 'e proc \<Rightarrow> 'e proc" where
  "upd_sched g pr = pr\<lparr>p_world := (p_world pr)\<lparr>w_sched := g (w_sched (p_world pr))\<rparr>\<rparr>"

text \<open>The idle fiber's program: it yields until the scheduler may stop.\<close>

primcorec idle_prog :: "'e world coro" where
  "idle_prog = Coro (map_stretch (\<lambda>_. idle_prog)
     (Branch (\<lambda>w. if stopping (w_sched w) then Return else Yield_hold ())))"

lemma run_idle_prog [simp]:
  "run_coro idle_prog w = (w, if stopping (w_sched w) then Finished else Held_at idle_prog)"
  by (subst idle_prog.code) simp

subsection \<open>The loop\<close>

definition worker_begin :: "nat \<Rightarrow> fiber_env \<Rightarrow> bool \<Rightarrow> sched_locals \<Rightarrow> 'e proc \<Rightarrow> (worker \<times> 'e proc) outcome" where
  "worker_begin self env junk lo pr =
     (let lo = setThis self lo
      in obind (GetThis (sl_fibers lo) (p_fibers pr)) (\<lambda>(f, th, fs).
           (case new_Fiber env junk (Some idle_prog) 0 False fs of (idle, fs) \<Rightarrow>
              Inr (\<lparr>wk_locals = lo\<lparr>sl_fibers := th, sl_scheduler_fiber := Some f\<rparr>, wk_idle = idle,
                    wk_cb = None, wk_ft = no_task, wk_pc = W_pick\<rparr>,
                   pr\<lparr>p_fibers := fs\<rparr>))))"

definition worker_pick :: "worker \<Rightarrow> 'e proc \<Rightarrow> (worker \<times> 'e proc) outcome" where
  "worker_pick wk pr =
     obind (pick_task (\<lambda>f. GetState f (p_fibers pr)) (sl_tid (wk_locals wk)) (sc_fibers (w_sched (p_world pr))))
       (\<lambda>(ft, rest, tickle_me).
         let pr = upd_sched (\<lambda>sc. sc\<lparr>sc_fibers := rest\<rparr>) pr;
             pr = (if ft \<noteq> None then upd_sched (\<lambda>sc. sc\<lparr>sc_active := sc_active sc + 1\<rparr>) pr else pr);
             pr = (if tickle_me then upd_sched tickle pr else pr)
         in Inr (wk\<lparr>wk_ft := (case ft of None \<Rightarrow> no_task | Some t \<Rightarrow> t), wk_pc := W_dispatch (ft \<noteq> None)\<rparr>, pr))"

text \<open>Switching from the worker's loop to a fiber.\<close>

definition worker_swap_in :: "nat \<Rightarrow> worker \<Rightarrow> 'e proc \<Rightarrow> (worker \<times> 'e proc) outcome" where
  "worker_swap_in f wk pr =
     obind (SwapIn f (sl_fibers (wk_locals wk)) (p_fibers pr) (p_world pr)) (\<lambda>(th, fs, w).
       Inr (wk\<lparr>wk_locals := (wk_locals wk)\<lparr>sl_fibers := th\<rparr>\<rparr>, \<lparr>p_fibers = fs, p_world = w\<rparr>))"

definition unfinished :: "nat \<Rightarrow> 'e proc \<Rightarrow> bool" where
  "unfinished f pr \<longleftrightarrow> GetState f (p_fibers pr) \<noteq> TERM' \<and> GetState f (p_fibers pr) \<noteq> EXCEPT"

text \<open>The fiber a function runs in: the one left from an earlier function is reset, or a new one is
  made.\<close>

definition cb_fiber_for ::
  "fiber_env \<Rightarrow> bool \<Rightarrow> 'e world coro \<Rightarrow> nat option \<Rightarrow> 'e proc \<Rightarrow> (nat \<times> 'e proc) outcome" where
  "cb_fiber_for env junk c cb_fiber pr =
     (case cb_fiber of
        Some f \<Rightarrow> obind (Reset f (Some c) (p_fibers pr)) (\<lambda>fs. Inr (f, pr\<lparr>p_fibers := fs\<rparr>))
      | None \<Rightarrow> (case new_Fiber env junk (Some c) 0 False (p_fibers pr) of
                  (f, fs) \<Rightarrow> Inr (f, pr\<lparr>p_fibers := fs\<rparr>)))"

text \<open>The fiber of a task, if the task has one that can still run.\<close>

definition fiber_to_run :: "task \<Rightarrow> 'e proc \<Rightarrow> nat option" where
  "fiber_to_run ft pr =
     (case ft_fiber ft of Some f \<Rightarrow> if unfinished f pr then Some f else None | None \<Rightarrow> None)"

definition worker_dispatch ::
  "fiber_env \<Rightarrow> bool \<Rightarrow> (nat \<Rightarrow> 'e world coro) \<Rightarrow> bool \<Rightarrow> worker \<Rightarrow> 'e proc \<Rightarrow> (worker \<times> 'e proc) outcome" where
  "worker_dispatch env junk code is_active wk pr =
     (case fiber_to_run (wk_ft wk) pr of
        Some f \<Rightarrow>
          obind (worker_swap_in f wk pr) (\<lambda>(wk, pr). Inr (wk\<lparr>wk_pc := W_after_fiber\<rparr>, pr))
      | None \<Rightarrow>
          (case ft_cb (wk_ft wk) of
             Some c \<Rightarrow>
               obind (cb_fiber_for env junk (code c) (wk_cb wk) pr) (\<lambda>(f, pr).
               obind (worker_swap_in f (wk\<lparr>wk_cb := Some f, wk_ft := no_task\<rparr>) pr) (\<lambda>(wk, pr).
               Inr (wk\<lparr>wk_pc := W_after_cb\<rparr>, pr)))
           | None \<Rightarrow>
               if is_active
               then Inr (wk\<lparr>wk_pc := W_pick\<rparr>, upd_sched (\<lambda>sc. sc\<lparr>sc_active := sc_active sc - 1\<rparr>) pr)
               else if GetState (wk_idle wk) (p_fibers pr) = TERM' then Inr (wk\<lparr>wk_pc := W_exit\<rparr>, pr)
               else obind (worker_swap_in (wk_idle wk) wk
                      (upd_sched (\<lambda>sc. sc\<lparr>sc_idle := sc_idle sc + 1\<rparr>) pr)) (\<lambda>(wk, pr).
                    Inr (wk\<lparr>wk_pc := W_after_idle\<rparr>, pr))))"

text \<open>The state of a fiber that has switched back without being ready or finished becomes \<open>HOLD\<close>.\<close>

definition hold_fiber :: "nat \<Rightarrow> 'e proc \<Rightarrow> 'e proc" where
  "hold_fiber f pr = pr\<lparr>p_fibers := set_state f HOLD (p_fibers pr)\<rparr>"

definition worker_after_fiber :: "worker \<Rightarrow> 'e proc \<Rightarrow> (worker \<times> 'e proc) outcome" where
  "worker_after_fiber wk pr =
     (case ft_fiber (wk_ft wk) of
        None \<Rightarrow> Inl Null_deref
      | Some f \<Rightarrow>
          (let pr = upd_sched (\<lambda>sc. sc\<lparr>sc_active := sc_active sc - 1\<rparr>) pr;
               pr = (if GetState f (p_fibers pr) = READY then upd_sched (schedule (fiber_task (Some f) (-1))) pr
                     else if unfinished f pr then hold_fiber f pr else pr)
           in Inr (wk\<lparr>wk_ft := no_task, wk_pc := W_pick\<rparr>, pr)))"

definition worker_after_cb :: "worker \<Rightarrow> 'e proc \<Rightarrow> (worker \<times> 'e proc) outcome" where
  "worker_after_cb wk pr =
     (case wk_cb wk of
        None \<Rightarrow> Inl Null_deref
      | Some f \<Rightarrow>
          (let pr = upd_sched (\<lambda>sc. sc\<lparr>sc_active := sc_active sc - 1\<rparr>) pr;
               wk = wk\<lparr>wk_pc := W_pick\<rparr>
           in if GetState f (p_fibers pr) = READY
              then Inr (wk\<lparr>wk_cb := None\<rparr>, upd_sched (schedule (fiber_task (Some f) (-1))) pr)
              else if \<not> unfinished f pr
              then obind (Reset f None (p_fibers pr)) (\<lambda>fs. Inr (wk, pr\<lparr>p_fibers := fs\<rparr>))
              else Inr (wk\<lparr>wk_cb := None\<rparr>, hold_fiber f pr)))"

definition worker_after_idle :: "worker \<Rightarrow> 'e proc \<Rightarrow> (worker \<times> 'e proc) outcome" where
  "worker_after_idle wk pr =
     (let pr = upd_sched (\<lambda>sc. sc\<lparr>sc_idle := sc_idle sc - 1\<rparr>) pr;
          pr = (if unfinished (wk_idle wk) pr then hold_fiber (wk_idle wk) pr else pr)
      in Inr (wk\<lparr>wk_pc := W_pick\<rparr>, pr))"

definition worker_step ::
  "fiber_env \<Rightarrow> bool \<Rightarrow> (nat \<Rightarrow> 'e world coro) \<Rightarrow> worker \<Rightarrow> 'e proc \<Rightarrow> (worker \<times> 'e proc) outcome" where
  "worker_step env junk code wk pr =
     (case wk_pc wk of
        W_pick \<Rightarrow> worker_pick wk pr
      | W_dispatch is_active \<Rightarrow> worker_dispatch env junk code is_active wk pr
      | W_after_fiber \<Rightarrow> worker_after_fiber wk pr
      | W_after_cb \<Rightarrow> worker_after_cb wk pr
      | W_after_idle \<Rightarrow> worker_after_idle wk pr
      | W_exit \<Rightarrow> Inr (wk, pr))"

text \<open>One turn of the loop without interruption, from the search of the queue to the next.\<close>

definition worker_turn ::
  "fiber_env \<Rightarrow> bool \<Rightarrow> (nat \<Rightarrow> 'e world coro) \<Rightarrow> worker \<Rightarrow> 'e proc \<Rightarrow> (worker \<times> 'e proc) outcome" where
  "worker_turn env junk code wk pr =
     obind (worker_pick wk pr) (\<lambda>(wk, pr).
     obind (worker_step env junk code wk pr) (\<lambda>(wk, pr).
     if wk_pc wk = W_pick \<or> wk_pc wk = W_exit then Inr (wk, pr) else worker_step env junk code wk pr))"

end
