(* ===== verification/SchedulerProps.thy ===== *)
theory SchedulerProps
  imports Workers
begin

text \<open>
  What the scheduler guarantees: which task a worker picks, what one turn of its loop does with a
  fiber and with a function, how a new thread becomes a worker, and the failure of a fiber that is
  scheduled twice.
\<close>

subsection \<open>Picking\<close>

text \<open>A task of another thread, and a task this thread can take now.\<close>

definition elsewhere :: "int \<Rightarrow> task \<Rightarrow> bool" where
  "elsewhere tid t \<longleftrightarrow> ft_thread t \<noteq> -1 \<and> ft_thread t \<noteq> tid"

definition eligible :: "(nat \<Rightarrow> fiber_state) \<Rightarrow> int \<Rightarrow> task \<Rightarrow> bool" where
  "eligible state tid t \<longleftrightarrow> \<not> elsewhere tid t \<and> map_option state (ft_fiber t) \<noteq> Some EXEC"

definition nonempty_task :: "task \<Rightarrow> bool" where
  "nonempty_task t \<longleftrightarrow> ft_fiber t \<noteq> None \<or> ft_cb t \<noteq> None"

lemma pick_task_spec:
  "list_all nonempty_task q \<Longrightarrow> pick_task state tid q =
     Inr (case dropWhile (\<lambda>t. \<not> eligible state tid t) q of
            [] \<Rightarrow> (None, q, list_ex (elsewhere tid) q)
          | t # post \<Rightarrow>
              (Some t, takeWhile (\<lambda>t. \<not> eligible state tid t) q @ post,
               post \<noteq> [] \<or> list_ex (elsewhere tid) (takeWhile (\<lambda>t. \<not> eligible state tid t) q)))"
proof (induction q)
  case (Cons t ts)
  then have IH: "pick_task state tid ts =
     Inr (case dropWhile (\<lambda>t. \<not> eligible state tid t) ts of
            [] \<Rightarrow> (None, ts, list_ex (elsewhere tid) ts)
          | t # post \<Rightarrow>
              (Some t, takeWhile (\<lambda>t. \<not> eligible state tid t) ts @ post,
               post \<noteq> [] \<or> list_ex (elsewhere tid) (takeWhile (\<lambda>t. \<not> eligible state tid t) ts)))"
    and t: "nonempty_task t" by simp_all
  consider "elsewhere tid t" | "\<not> elsewhere tid t" "map_option state (ft_fiber t) = Some EXEC"
    | "eligible state tid t" by (auto simp: eligible_def)
  then show ?case
  proof cases
    case 1
    then have "\<not> eligible state tid t" "ft_thread t \<noteq> -1 \<and> ft_thread t \<noteq> tid"
      by (simp_all add: eligible_def elsewhere_def)
    then show ?thesis
      using IH 1 by (cases "dropWhile (\<lambda>t. \<not> eligible state tid t) ts")
        (simp_all del: dropWhile_eq_Nil_conv)
  next
    case 2
    then have "\<not> eligible state tid t" "\<not> (ft_thread t \<noteq> -1 \<and> ft_thread t \<noteq> tid)"
      by (simp_all add: eligible_def elsewhere_def)
    then show ?thesis
      using IH 2 t by (cases "dropWhile (\<lambda>t. \<not> eligible state tid t) ts")
        (auto simp: nonempty_task_def simp del: dropWhile_eq_Nil_conv)
  next
    case 3
    then have "\<not> (ft_thread t \<noteq> -1 \<and> ft_thread t \<noteq> tid)" "map_option state (ft_fiber t) \<noteq> Some EXEC"
      by (simp_all add: eligible_def elsewhere_def)
    then show ?thesis using 3 t by (auto simp: nonempty_task_def)
  qed
qed simp

text \<open>The search of the queue. A worker takes the first task that is bound to no other thread and
  whose fiber is not executing, and removes it and nothing else; when there is none the queue stays
  as it is. It tickles the others when it has passed over a task of another thread or leaves tasks
  behind the one it takes.\<close>

theorem worker_picks_first_eligible:
  assumes "list_all nonempty_task q"
  shows "pick_task state tid q =
     Inr (case dropWhile (\<lambda>t. \<not> eligible state tid t) q of
            [] \<Rightarrow> (None, q, list_ex (elsewhere tid) q)
          | t # post \<Rightarrow>
              (Some t, takeWhile (\<lambda>t. \<not> eligible state tid t) q @ post,
               post \<noteq> [] \<or> list_ex (elsewhere tid) (takeWhile (\<lambda>t. \<not> eligible state tid t) q)))"
  using assms by (rule pick_task_spec)

theorem worker_picks_first_eligible_witness:
  "pick_task (\<lambda>f. if f = 1 then EXEC else READY) 7
     [fiber_task (Some 5) 8, fiber_task (Some 1) (-1), cb_task (Some 2) 7, fiber_task (Some 3) (-1)]
   = Inr (Some (cb_task (Some 2) 7),
       [fiber_task (Some 5) 8, fiber_task (Some 1) (-1), fiber_task (Some 3) (-1)], True)"
  by (subst worker_picks_first_eligible)
    (simp_all add: nonempty_task_def eligible_def elsewhere_def fiber_task_def cb_task_def)

subsection \<open>One turn of the loop\<close>

lemma upd_sched_simps [simp]:
  "p_fibers (upd_sched g pr) = p_fibers pr"
  "w_sched (p_world (upd_sched g pr)) = g (w_sched (p_world pr))"
  "w_rest (p_world (upd_sched g pr)) = w_rest (p_world pr)"
  by (simp_all add: upd_sched_def)

text \<open>The process after a task has been taken from the queue.\<close>

definition taken :: "task list \<Rightarrow> bool \<Rightarrow> 'e proc \<Rightarrow> 'e proc" where
  "taken rest tickle_me pr =
     upd_sched (\<lambda>sc. (if tickle_me then tickle else (\<lambda>sc. sc))
        (sc\<lparr>sc_fibers := rest, sc_active := sc_active sc + 1\<rparr>)) pr"

lemma worker_pick_taken:
  assumes "pick_task (\<lambda>f. GetState f (p_fibers pr)) (sl_tid (wk_locals wk)) (sc_fibers (w_sched (p_world pr)))
    = Inr (Some t, rest, tickle_me)"
  shows "worker_pick wk pr = Inr (wk\<lparr>wk_ft := t, wk_pc := W_dispatch True\<rparr>, taken rest tickle_me pr)"
  using assms by (simp add: worker_pick_def taken_def upd_sched_def)

lemma taken_fibers [simp]: "p_fibers (taken rest tickle_me pr) = p_fibers pr"
  by (simp add: taken_def)

text \<open>What becomes of a fiber after a stretch of its program, and of the queue.\<close>

definition settle :: "nat \<Rightarrow> 's coro stop \<Rightarrow> 's fibers \<Rightarrow> 's fibers" where
  "settle f p fs =
     (case p of Held_at c \<Rightarrow> set_state f HOLD (upd_fiber f (after_stretch p) fs)
      | _ \<Rightarrow> upd_fiber f (after_stretch p) fs)"

definition requeue :: "nat \<Rightarrow> 's coro stop \<Rightarrow> scheduler \<Rightarrow> scheduler" where
  "requeue f p sc = (case p of Ready_at c \<Rightarrow> schedule (fiber_task (Some f) (-1)) sc | _ \<Rightarrow> sc)"

lemma GetState_after [simp]:
  "f < length (fs_store fs) \<Longrightarrow> GetState f (upd_fiber f (after_stretch p) fs) =
     (case p of Finished \<Rightarrow> TERM' | Raised e \<Rightarrow> EXCEPT | Ready_at c \<Rightarrow> READY | Held_at c \<Rightarrow> EXEC)"
  by (cases p) (simp_all add: GetState_def)

lemma worker_swap_in_effect:
  assumes "wf_fibers (p_fibers pr)" "at_main m (sl_fibers (wk_locals wk)) (p_fibers pr)"
    "f < length (fs_store (p_fibers pr))" "GetState f (p_fibers pr) \<in> {INIT, READY, HOLD}"
    and run: "run_coro (program_left (fs_store (p_fibers pr) ! f)) (p_world pr) = (w, p)"
  shows "worker_swap_in f wk pr =
    Inr (wk, \<lparr>p_fibers = upd_fiber f (after_stretch p) (p_fibers pr), p_world = w\<rparr>)"
  using SwapIn_resumes [OF assms(1-4), of "p_world pr"] run by (simp add: worker_swap_in_def)

lemma worker_after_fiber_effect:
  assumes "f < length (fs_store fs)" "ft_fiber (wk_ft wk) = Some f"
  shows "worker_after_fiber wk \<lparr>p_fibers = upd_fiber f (after_stretch p) fs, p_world = w\<rparr> =
    Inr (wk\<lparr>wk_ft := no_task, wk_pc := W_pick\<rparr>,
         \<lparr>p_fibers = settle f p fs,
          p_world = w\<lparr>w_sched := requeue f p ((w_sched w)\<lparr>sc_active := sc_active (w_sched w) - 1\<rparr>)\<rparr>\<rparr>)"
  using assms
  by (cases p) (simp_all add: worker_after_fiber_def Let_def unfinished_def settle_def requeue_def
      hold_fiber_def upd_sched_def)

text \<open>The five ways in which a worker goes on from the search of the queue.\<close>

lemma dispatch_cases:
  obtains (fiber) f where "fiber_to_run (wk_ft wk) pr = Some f" "ft_fiber (wk_ft wk) = Some f"
      "worker_dispatch env junk code b wk pr =
         obind (worker_swap_in f wk pr) (\<lambda>(wk, pr). Inr (wk\<lparr>wk_pc := W_after_fiber\<rparr>, pr))"
  | (cb) c where "fiber_to_run (wk_ft wk) pr = None" "ft_cb (wk_ft wk) = Some c"
      "worker_dispatch env junk code b wk pr =
         obind (cb_fiber_for env junk (code c) (wk_cb wk) pr) (\<lambda>(f, pr).
           obind (worker_swap_in f (wk\<lparr>wk_cb := Some f, wk_ft := no_task\<rparr>) pr)
             (\<lambda>(wk, pr). Inr (wk\<lparr>wk_pc := W_after_cb\<rparr>, pr)))"
  | (dropped) "fiber_to_run (wk_ft wk) pr = None" "ft_cb (wk_ft wk) = None" "b"
      "worker_dispatch env junk code b wk pr =
         Inr (wk\<lparr>wk_pc := W_pick\<rparr>, upd_sched (\<lambda>sc. sc\<lparr>sc_active := sc_active sc - 1\<rparr>) pr)"
  | (ended) "fiber_to_run (wk_ft wk) pr = None" "ft_cb (wk_ft wk) = None" "\<not> b"
      "GetState (wk_idle wk) (p_fibers pr) = TERM'"
      "worker_dispatch env junk code b wk pr = Inr (wk\<lparr>wk_pc := W_exit\<rparr>, pr)"
  | (idle) "fiber_to_run (wk_ft wk) pr = None" "ft_cb (wk_ft wk) = None" "\<not> b"
      "GetState (wk_idle wk) (p_fibers pr) \<noteq> TERM'"
      "worker_dispatch env junk code b wk pr =
         obind (worker_swap_in (wk_idle wk) wk (upd_sched (\<lambda>sc. sc\<lparr>sc_idle := sc_idle sc + 1\<rparr>) pr))
           (\<lambda>(wk, pr). Inr (wk\<lparr>wk_pc := W_after_idle\<rparr>, pr))"
proof (cases "fiber_to_run (wk_ft wk) pr")
  case None
  then show ?thesis
    using cb dropped ended idle by (cases "ft_cb (wk_ft wk)"; cases b) (auto simp: worker_dispatch_def)
next
  case (Some f)
  then have "ft_fiber (wk_ft wk) = Some f" by (auto simp: fiber_to_run_def split: option.splits if_splits)
  then show ?thesis using fiber Some by (simp add: worker_dispatch_def)
qed

lemma turn_runs_fiber_eq:
  assumes wf: "wf_fibers (p_fibers pr)" "at_main m (sl_fibers (wk_locals wk)) (p_fibers pr)"
    and pick: "pick_task (\<lambda>f. GetState f (p_fibers pr)) (sl_tid (wk_locals wk))
      (sc_fibers (w_sched (p_world pr))) = Inr (Some t, rest, tickle_me)"
    and f: "ft_fiber t = Some f" "f < length (fs_store (p_fibers pr))"
      "GetState f (p_fibers pr) \<in> {INIT, READY, HOLD}"
    and run: "run_coro (program_left (fs_store (p_fibers pr) ! f)) (p_world (taken rest tickle_me pr)) = (w, p)"
  shows "worker_turn env junk code wk pr =
    Inr (wk\<lparr>wk_ft := no_task, wk_pc := W_pick\<rparr>,
         \<lparr>p_fibers = settle f p (p_fibers pr),
          p_world = w\<lparr>w_sched := requeue f p ((w_sched w)\<lparr>sc_active := sc_active (w_sched w) - 1\<rparr>)\<rparr>\<rparr>)"
proof -
  let ?wk = "wk\<lparr>wk_ft := t, wk_pc := W_dispatch True\<rparr>" and ?pr = "taken rest tickle_me pr"
  have run_f: "fiber_to_run t ?pr = Some f" using f by (auto simp: fiber_to_run_def unfinished_def)
  have "worker_swap_in f ?wk ?pr = Inr (?wk, \<lparr>p_fibers = upd_fiber f (after_stretch p) (p_fibers pr), p_world = w\<rparr>)"
    using worker_swap_in_effect [of ?pr m ?wk f w p] wf f run by simp
  then have "worker_step env junk code ?wk ?pr = Inr (?wk\<lparr>wk_pc := W_after_fiber\<rparr>,
      \<lparr>p_fibers = upd_fiber f (after_stretch p) (p_fibers pr), p_world = w\<rparr>)"
    using run_f by (simp add: worker_step_def worker_dispatch_def)
  then show ?thesis
    using worker_pick_taken [OF pick] worker_after_fiber_effect [OF f(2), of "?wk\<lparr>wk_pc := W_after_fiber\<rparr>" p w] f(1)
    by (simp add: worker_turn_def worker_step_def)
qed

text \<open>C13: a turn with a fiber. When a worker finds a fiber task whose fiber is new, ready or held, one
  uninterrupted turn of its loop runs the fiber's program up to its next yield or its end, on the
  state in which the task has left the queue and the worker counts as active, and then stops
  counting the worker; a fiber that yielded ready goes to the end of the queue, bound to no thread
  even if its task was; a fiber that yielded to hold is marked so and is in no queue; a finished or
  failed fiber is dropped.\<close>

theorem turn_runs_fiber:
  assumes wf: "wf_fibers (p_fibers pr)" "at_main m (sl_fibers (wk_locals wk)) (p_fibers pr)"
    and pick: "pick_task (\<lambda>f. GetState f (p_fibers pr)) (sl_tid (wk_locals wk))
      (sc_fibers (w_sched (p_world pr))) = Inr (Some t, rest, tickle_me)"
    and f: "ft_fiber t = Some f" "f < length (fs_store (p_fibers pr))"
      "GetState f (p_fibers pr) \<in> {INIT, READY, HOLD}"
    and run: "run_coro (program_left (fs_store (p_fibers pr) ! f)) (p_world (taken rest tickle_me pr)) = (w, p)"
  shows "worker_turn env junk code wk pr =
    Inr (wk\<lparr>wk_ft := no_task, wk_pc := W_pick\<rparr>,
         \<lparr>p_fibers = settle f p (p_fibers pr),
          p_world = w\<lparr>w_sched := requeue f p ((w_sched w)\<lparr>sc_active := sc_active (w_sched w) - 1\<rparr>)\<rparr>\<rparr>)"
  using assms by (rule turn_runs_fiber_eq)

text \<open>A small process: thread 7 on its main fiber, and one fiber.\<close>

definition sample_world :: "'e \<Rightarrow> task list \<Rightarrow> 'e world" where
  "sample_world e q = \<lparr>w_sched = (initial_scheduler ''s'')\<lparr>sc_fibers := q\<rparr>, w_rest = e\<rparr>"

definition sample_process :: "nat world coro \<Rightarrow> task list \<Rightarrow> nat proc" where
  "sample_process c q =
     \<lparr>p_fibers = \<lparr>fs_store =
        [\<lparr>fb_id = 0, fb_stack_size = 0, fb_state = EXEC, fb_context = Own_stack, fb_stack = False,
          fb_callback = None, fb_alive = True\<rparr>,
         \<lparr>fb_id = 1, fb_stack_size = 1024, fb_state = INIT, fb_context = At_entry MainFunc, fb_stack = True,
          fb_callback = Some c, fb_alive = True\<rparr>],
        fs_next_id = 1, fs_count = 2\<rparr>,
      p_world = sample_world 5 q\<rparr>"

definition sample_worker :: "int \<Rightarrow> worker" where
  "sample_worker tid =
     \<lparr>wk_locals = \<lparr>sl_fibers = \<lparr>t_fiber = Some 0, t_threadFiber = Some 0\<rparr>,
        sl_thread = initial_thread_locals, sl_scheduler = Some 0, sl_scheduler_fiber = Some 0, sl_tid = tid\<rparr>,
      wk_idle = 1, wk_cb = None, wk_ft = no_task, wk_pc = W_pick\<rparr>"

definition fresh_locals :: "int \<Rightarrow> sched_locals" where
  "fresh_locals tid = (wk_locals (sample_worker tid))\<lparr>sl_fibers := \<lparr>t_fiber = None, t_threadFiber = None\<rparr>\<rparr>"

lemmas sample_simps = sample_process_def sample_worker_def sample_world_def initial_scheduler_def
  no_task_def fiber_task_def cb_task_def

lemma sample_wf:
  "wf_fibers (p_fibers (sample_process c q))"
  "at_main 0 (sl_fibers (wk_locals (sample_worker tid))) (p_fibers (sample_process c q))"
  by (simp_all add: sample_simps wf_fibers_def wf_fiber_def fiber_ids_def numbered_def at_main_def)

theorem turn_runs_fiber_witness:
  "(let c = Coro (Do (w_rest_update Suc) (Yield_ready (Coro Return)));
        pr = sample_process c [fiber_task (Some 1) 7]
    in \<exists>pr'. worker_turn \<lparr>fe_stack_size = 1024, fe_malloc = \<lambda>n. True\<rparr> False (\<lambda>i. c) (sample_worker 7) pr
         = Inr (sample_worker 7, pr') \<and>
       w_rest (p_world pr') = 6 \<and> GetState 1 (p_fibers pr') = READY \<and>
       sc_fibers (w_sched (p_world pr')) = [fiber_task (Some 1) (-1)] \<and> sc_active (w_sched (p_world pr')) = 0)"
proof -
  let ?c = "Coro (Do (w_rest_update Suc) (Yield_ready (Coro Return)))"
  let ?pr = "sample_process ?c [fiber_task (Some 1) 7]" and ?wk = "sample_worker 7"
  let ?env = "\<lparr>fe_stack_size = 1024, fe_malloc = \<lambda>n. True\<rparr>"
  let ?w = "w_rest_update Suc (p_world (taken [] False ?pr))"
  have "worker_turn ?env False (\<lambda>i. ?c) ?wk ?pr =
    Inr (?wk\<lparr>wk_ft := no_task, wk_pc := W_pick\<rparr>,
         \<lparr>p_fibers = settle 1 (Ready_at (Coro Return)) (p_fibers ?pr),
          p_world = ?w\<lparr>w_sched := requeue 1 (Ready_at (Coro Return) :: nat world coro stop)
            ((w_sched ?w)\<lparr>sc_active := sc_active (w_sched ?w) - 1\<rparr>)\<rparr>\<rparr>)"
    by (rule turn_runs_fiber [OF sample_wf(1) [of ?c "[fiber_task (Some 1) 7]"] sample_wf(2) [of 7], where t = "fiber_task (Some 1) 7"])
      (simp_all add: sample_simps GetState_def program_left_def)
  then show ?thesis
    by (simp add: Let_def settle_def requeue_def GetState_def taken_def upd_sched_def sample_simps
        schedule_def scheduleNoLock_def tickle_def)
qed

text \<open>A function runs in the worker's spare fiber or in a new one.\<close>

definition spare_ok :: "nat option \<Rightarrow> 's fibers \<Rightarrow> bool" where
  "spare_ok cb fs \<longleftrightarrow> (\<forall>f. cb = Some f \<longrightarrow> f < length (fs_store fs) \<and> fb_stack (fs_store fs ! f) \<and> GetState f fs = INIT)"

text \<open>The second store has the fibers of the first, and they are the same but for \<open>f\<close>.\<close>

definition only_fiber :: "nat \<Rightarrow> 's fibers \<Rightarrow> 's fibers \<Rightarrow> bool" where
  "only_fiber f fs fs' \<longleftrightarrow> length (fs_store fs) \<le> length (fs_store fs') \<and>
     (\<forall>g < length (fs_store fs). g \<noteq> f \<longrightarrow> fs_store fs' ! g = fs_store fs ! g)"

lemma cb_fiber_for_ok:
  assumes wf: "wf_fibers (p_fibers pr)" "at_main m th (p_fibers pr)"
    and malloc: "\<And>n. fe_malloc env n" and spare: "spare_ok cb (p_fibers pr)"
  shows "\<exists>f fs. cb_fiber_for env junk c cb pr = Inr (f, pr\<lparr>p_fibers := fs\<rparr>) \<and> wf_fibers fs \<and> at_main m th fs \<and>
    f < length (fs_store fs) \<and> GetState f fs = INIT \<and> program_left (fs_store fs ! f) = c \<and> fb_stack (fs_store fs ! f) \<and>
    only_fiber f (p_fibers pr) fs \<and> f = (case cb of Some g \<Rightarrow> g | None \<Rightarrow> length (fs_store (p_fibers pr)))"
proof (cases cb)
  case None
  let ?fs = "p_fibers pr" and ?f = "length (fs_store (p_fibers pr))"
  let ?new = "snd (new_Fiber env junk (Some c) 0 False ?fs)"
  have "cb_fiber_for env junk c cb pr = Inr (?f, pr\<lparr>p_fibers := ?new\<rparr>)"
    using None by (simp add: cb_fiber_for_def new_Fiber_eq Let_def)
  moreover have "?f < length (fs_store ?new) \<and> GetState ?f ?new = INIT \<and>
      program_left (fs_store ?new ! ?f) = c \<and> fb_stack (fs_store ?new ! ?f) \<and> only_fiber ?f ?fs ?new"
    using malloc by (simp add: new_Fiber_eq Let_def GetState_def program_left_def only_fiber_def nth_append)
  ultimately show ?thesis using None wf_new_Fiber [OF wf(1) malloc] at_main_new_Fiber [OF wf(2)] by auto
next
  case (Some f)
  let ?g = "\<lambda>b. b\<lparr>fb_callback := Some c, fb_context := At_entry MainFunc, fb_state := INIT\<rparr>"
  let ?fs = "upd_fiber f ?g (p_fibers pr)"
  have f: "f < length (fs_store (p_fibers pr))" "fb_stack (fs_store (p_fibers pr) ! f)" "GetState f (p_fibers pr) = INIT"
    using spare Some by (simp_all add: spare_ok_def)
  then have r: "Reset f (Some c) (p_fibers pr) = Inr ?fs" by (simp add: Reset_def Let_def GetState_def)
  moreover have "resumable (fs_store (p_fibers pr) ! f)"
    using resumable_states [OF wf_fibersD [OF wf(1) f(1)]] f(3) by (simp add: GetState_def)
  ultimately show ?thesis
    using Some f wf_Reset [OF wf(1) r] at_main_upd [OF wf(2), of f ?g]
    by (intro exI [of _ f] exI [of _ ?fs]) (simp add: cb_fiber_for_def GetState_def program_left_def only_fiber_def)
qed

text \<open>What becomes of the fiber of a function after a stretch.\<close>

definition settle_cb :: "nat \<Rightarrow> 's coro stop \<Rightarrow> 's fibers \<Rightarrow> 's fibers" where
  "settle_cb f p fs =
     (case p of
        Ready_at c \<Rightarrow> upd_fiber f (after_stretch p) fs
      | Held_at c \<Rightarrow> set_state f HOLD (upd_fiber f (after_stretch p) fs)
      | _ \<Rightarrow> upd_fiber f (\<lambda>b. (after_stretch p b)\<lparr>fb_callback := None, fb_context := At_entry MainFunc,
                                              fb_state := INIT\<rparr>) fs)"

definition kept_cb :: "nat \<Rightarrow> 's coro stop \<Rightarrow> nat option" where
  "kept_cb f p = (case p of Finished \<Rightarrow> Some f | Raised e \<Rightarrow> Some f | _ \<Rightarrow> None)"

lemma worker_after_cb_effect:
  assumes f: "f < length (fs_store fs)" "fb_stack (fs_store fs ! f)" and wk: "wk_cb wk = Some f"
  shows "worker_after_cb wk \<lparr>p_fibers = upd_fiber f (after_stretch p) fs, p_world = w\<rparr> =
    Inr (wk\<lparr>wk_cb := kept_cb f p, wk_pc := W_pick\<rparr>,
         \<lparr>p_fibers = settle_cb f p fs,
          p_world = w\<lparr>w_sched := requeue f p ((w_sched w)\<lparr>sc_active := sc_active (w_sched w) - 1\<rparr>)\<rparr>\<rparr>)"
proof (cases p)
  case (Ready_at c)
  then show ?thesis using f wk
    by (simp add: worker_after_cb_def Let_def requeue_def upd_sched_def GetState_def settle_cb_def kept_cb_def)
next
  case (Held_at c)
  then show ?thesis using f wk
    by (simp add: worker_after_cb_def Let_def requeue_def upd_sched_def settle_cb_def kept_cb_def
        unfinished_def hold_fiber_def set_state_def GetState_def)
next
  case Finished
  then show ?thesis using f wk
    by (cases wk) (simp add: worker_after_cb_def Let_def requeue_def upd_sched_def unfinished_def Reset_def
        GetState_def settle_cb_def kept_cb_def upd_fiber_def)
next
  case (Raised e)
  then show ?thesis using f wk
    by (cases wk) (simp add: worker_after_cb_def Let_def requeue_def upd_sched_def unfinished_def Reset_def
        GetState_def settle_cb_def kept_cb_def upd_fiber_def)
qed

lemma settle_cb_state:
  assumes "f < length (fs_store fs)" "fb_stack (fs_store fs ! f)"
  shows "case p of
       Ready_at c \<Rightarrow> GetState f (settle_cb f p fs) = READY \<and> program_left (fs_store (settle_cb f p fs) ! f) = c
     | Held_at c \<Rightarrow> GetState f (settle_cb f p fs) = HOLD \<and> program_left (fs_store (settle_cb f p fs) ! f) = c
     | _ \<Rightarrow> spare_ok (Some f) (settle_cb f p fs) \<and> fb_callback (fs_store (settle_cb f p fs) ! f) = None"
  using assms by (cases p) (simp_all add: settle_cb_def GetState_def program_left_def set_state_def spare_ok_def)

text \<open>The whole turn.\<close>

lemma function_turn:
  assumes wf: "wf_fibers (p_fibers pr)" "at_main m (sl_fibers (wk_locals wk)) (p_fibers pr)"
    and malloc: "\<And>n. fe_malloc env n" and spare: "spare_ok (wk_cb wk) (p_fibers pr)"
    and pick: "pick_task (\<lambda>f. GetState f (p_fibers pr)) (sl_tid (wk_locals wk))
      (sc_fibers (w_sched (p_world pr))) = Inr (Some t, rest, tickle_me)"
    and t: "ft_fiber t = None" "ft_cb t = Some i"
    and run: "run_coro (code i) (p_world (taken rest tickle_me pr)) = (w, p)"
  shows "\<exists>f fs. worker_turn env junk code wk pr =
      Inr (wk\<lparr>wk_cb := kept_cb f p, wk_ft := no_task, wk_pc := W_pick\<rparr>,
           \<lparr>p_fibers = settle_cb f p fs,
            p_world = w\<lparr>w_sched := requeue f p ((w_sched w)\<lparr>sc_active := sc_active (w_sched w) - 1\<rparr>)\<rparr>\<rparr>) \<and>
    wf_fibers fs \<and> at_main m (sl_fibers (wk_locals wk)) fs \<and> f < length (fs_store fs) \<and>
    GetState f fs = INIT \<and> fb_stack (fs_store fs ! f) \<and> only_fiber f (p_fibers pr) fs \<and>
    f = (case wk_cb wk of Some g \<Rightarrow> g | None \<Rightarrow> length (fs_store (p_fibers pr)))"
proof -
  let ?wk = "wk\<lparr>wk_ft := t, wk_pc := W_dispatch True\<rparr>" and ?pr = "taken rest tickle_me pr"
  obtain f fs where cb: "cb_fiber_for env junk (code i) (wk_cb wk) ?pr = Inr (f, ?pr\<lparr>p_fibers := fs\<rparr>)"
    "wf_fibers fs" "at_main m (sl_fibers (wk_locals wk)) fs" "f < length (fs_store fs)" "GetState f fs = INIT"
    "program_left (fs_store fs ! f) = code i" "fb_stack (fs_store fs ! f)" "only_fiber f (p_fibers pr) fs"
    "f = (case wk_cb wk of Some g \<Rightarrow> g | None \<Rightarrow> length (fs_store (p_fibers pr)))"
    using cb_fiber_for_ok [of ?pr m "sl_fibers (wk_locals wk)" env "wk_cb wk" junk "code i"] wf malloc spare
    unfolding taken_fibers by blast
  let ?wk' = "?wk\<lparr>wk_cb := Some f, wk_ft := no_task\<rparr>"
  have "worker_swap_in f ?wk' (?pr\<lparr>p_fibers := fs\<rparr>)
      = Inr (?wk', \<lparr>p_fibers = upd_fiber f (after_stretch p) fs, p_world = w\<rparr>)"
    using worker_swap_in_effect [of "?pr\<lparr>p_fibers := fs\<rparr>" m ?wk' f w p] cb run by simp
  then have disp: "worker_step env junk code ?wk ?pr = Inr (?wk'\<lparr>wk_pc := W_after_cb\<rparr>,
      \<lparr>p_fibers = upd_fiber f (after_stretch p) fs, p_world = w\<rparr>)"
    using t cb(1) by (simp add: worker_step_def worker_dispatch_def fiber_to_run_def)
  have turn: "worker_turn env junk code wk pr
      = worker_after_cb (?wk'\<lparr>wk_pc := W_after_cb\<rparr>) \<lparr>p_fibers = upd_fiber f (after_stretch p) fs, p_world = w\<rparr>"
    by (simp add: worker_turn_def worker_pick_taken [OF pick] disp) (simp add: worker_step_def)
  have wk: "?wk'\<lparr>wk_pc := W_after_cb, wk_cb := x, wk_pc := W_pick\<rparr> = wk\<lparr>wk_cb := x, wk_ft := no_task, wk_pc := W_pick\<rparr>" for x
    by (cases wk) simp
  have "wk_cb (?wk'\<lparr>wk_pc := W_after_cb\<rparr>) = Some f" by simp
  from worker_after_cb_effect [OF cb(4,7) this, of p w] show ?thesis
    using cb unfolding turn wk by blast
qed



text \<open>A new thread becomes a worker: it gets a main fiber, and an idle fiber is made.\<close>

lemma worker_begin_fresh:
  assumes wf: "wf_fibers (p_fibers pr)" and malloc: "\<And>n. fe_malloc env n"
    and new: "t_fiber (sl_fibers lo) = None"
  shows "\<exists>wk pr'. worker_begin self env junk lo pr = Inr (wk, pr') \<and> wk_pc wk = W_pick \<and> wk_cb wk = None \<and>
    sl_tid (wk_locals wk) = sl_tid lo \<and> wk_idle wk = Suc (length (fs_store (p_fibers pr))) \<and>
    at_main (length (fs_store (p_fibers pr))) (sl_fibers (wk_locals wk)) (p_fibers pr') \<and> wf_fibers (p_fibers pr') \<and>
    length (fs_store (p_fibers pr')) = length (fs_store (p_fibers pr)) + 2 \<and>
    (\<forall>f < length (fs_store (p_fibers pr)). fs_store (p_fibers pr') ! f = fs_store (p_fibers pr) ! f) \<and>
    GetState (wk_idle wk) (p_fibers pr') = INIT \<and> program_left (fs_store (p_fibers pr') ! wk_idle wk) = idle_prog \<and>
    p_world pr' = p_world pr"
proof -
  let ?fs = "p_fibers pr" and ?m = "length (fs_store (p_fibers pr))"
  let ?b = "\<lparr>fb_id = 0, fb_stack_size = 0, fb_state = EXEC, fb_context = Own_stack,
    fb_stack = False, fb_callback = None, fb_alive = True\<rparr>"
  let ?fs1 = "?fs\<lparr>fs_store := fs_store ?fs @ [?b], fs_next_id := fs_next_id ?fs, fs_count := fs_count ?fs + 1\<rparr>"
  let ?th = "(sl_fibers lo)\<lparr>t_fiber := Some ?m, t_threadFiber := Some ?m\<rparr>"
  let ?fs2 = "snd (new_Fiber env junk (Some idle_prog) 0 False ?fs1)"
  let ?wk = "\<lparr>wk_locals = lo\<lparr>sl_scheduler := Some self, sl_fibers := ?th, sl_scheduler_fiber := Some ?m\<rparr>,
    wk_idle = Suc ?m, wk_cb = None, wk_ft = no_task, wk_pc = W_pick\<rparr>"
  have "GetThis (sl_fibers lo) ?fs = Inr (?m, ?th, ?fs1)"
    using new by (simp add: GetThis_def new_main_Fiber_def SetThis_def Let_def)
  then have "worker_begin self env junk lo pr = Inr (?wk, pr\<lparr>p_fibers := ?fs2\<rparr>)"
    by (simp add: worker_begin_def new_Fiber_eq Let_def)
  moreover have wf1: "wf_fibers ?fs1" using wf by (intro wf_append_fiber) (simp_all add: wf_fiber_def)
  moreover have "wf_fibers ?fs2" by (rule wf_new_Fiber [OF wf1 malloc])
  moreover have "at_main ?m ?th ?fs2" by (rule at_main_new_Fiber) (simp add: at_main_def)
  ultimately show ?thesis
    by (intro exI [of _ ?wk] exI [of _ "pr\<lparr>p_fibers := ?fs2\<rparr>"])
      (simp add: new_Fiber_eq Let_def nth_append GetState_def program_left_def)
qed

subsection \<open>A fiber that is scheduled twice\<close>

definition scheduled_twice :: "nat \<Rightarrow> 'e proc \<Rightarrow> 'e proc" where
  "scheduled_twice f pr = upd_sched (schedule (fiber_task (Some f) (-1))) (upd_sched (schedule (fiber_task (Some f) (-1))) pr)"

lemma twice_aborts:
  assumes wf: "wf_fibers (p_fibers pr)" "at_main m (sl_fibers (wk_locals a)) (p_fibers pr)"
    and f: "f < length (fs_store (p_fibers pr))" "GetState f (p_fibers pr) \<in> {INIT, READY, HOLD}"
    and empty: "sc_fibers (w_sched (p_world pr)) = []"
    and hold: "\<And>w. \<exists>c. snd (run_coro (program_left (fs_store (p_fibers pr) ! f)) w) = Held_at c"
  shows "\<exists>a1 b1 a2 pr1 pr2 pr3.
    worker_pick a (scheduled_twice f pr) = Inr (a1, pr1) \<and> worker_pick b pr1 = Inr (b1, pr2) \<and>
    worker_step env junk code a1 pr2 = Inr (a2, pr3) \<and>
    worker_step env junk code b1 pr3 = Inl (Assert_fail ''mState != EXEC'') \<and> wk_pc b1 = W_dispatch True"
proof -
  let ?t = "fiber_task (Some f) (-1)" and ?pr = "scheduled_twice f pr"
  let ?pr1 = "taken [?t] True ?pr"
  let ?pr2 = "taken [] False ?pr1"
  let ?a = "a\<lparr>wk_ft := ?t, wk_pc := W_dispatch True\<rparr>" and ?b = "b\<lparr>wk_ft := ?t, wk_pc := W_dispatch True\<rparr>"
  have fs: "p_fibers ?pr = p_fibers pr" by (simp add: scheduled_twice_def)
  have q: "sc_fibers (w_sched (p_world ?pr)) = [?t, ?t]"
    using empty by (simp add: scheduled_twice_def schedule_def scheduleNoLock_def tickle_def fiber_task_def)
  have 1: "worker_pick a ?pr = Inr (?a, ?pr1)"
    using f fs by (intro worker_pick_taken) (auto simp: q fiber_task_def)
  have "sc_fibers (w_sched (p_world ?pr1)) = [?t]" by (simp add: taken_def tickle_def)
  then have 2: "worker_pick b ?pr1 = Inr (?b, ?pr2)"
    using f fs by (intro worker_pick_taken) (auto simp: fiber_task_def)
  obtain w c where run: "run_coro (program_left (fs_store (p_fibers pr) ! f)) (p_world ?pr2) = (w, Held_at c)"
    using hold [of "p_world ?pr2"] by (metis prod.collapse)
  let ?pr3 = "\<lparr>p_fibers = upd_fiber f (after_stretch (Held_at c)) (p_fibers pr), p_world = w\<rparr>"
  have "worker_swap_in f ?a ?pr2 = Inr (?a, ?pr3)"
    using worker_swap_in_effect [of ?pr2 m ?a f w "Held_at c"] wf f run fs by simp
  then have 3: "worker_step env junk code ?a ?pr2 = Inr (?a\<lparr>wk_pc := W_after_fiber\<rparr>, ?pr3)"
    using f fs by (auto simp: worker_step_def worker_dispatch_def fiber_to_run_def fiber_task_def unfinished_def)
  have st: "GetState f (p_fibers ?pr3) = EXEC" using f by simp
  have "worker_swap_in f ?b ?pr3 = Inl (Assert_fail ''mState != EXEC'')"
    using st by (simp add: worker_swap_in_def SwapIn_def Let_def)
  moreover have "fiber_to_run (wk_ft ?b) ?pr3 = Some f"
    using st by (simp add: fiber_to_run_def fiber_task_def unfinished_def)
  ultimately have "worker_step env junk code ?b ?pr3 = Inl (Assert_fail ''mState != EXEC'')"
    by (simp add: worker_step_def worker_dispatch_def)
  moreover have "wk_pc ?b = W_dispatch True" by simp
  ultimately show ?thesis using 1 2 3 by blast
qed

text \<open>C31: a fiber must not be scheduled again before it has run. When a held fiber is in the queue
  twice, two workers can both take it, because the state that the search tests is set only later, in
  \<open>SwapIn\<close>, outside the lock; when the first one's stretch has yielded to hold, the second one's switch
  fails an assertion, because the first has not yet marked the fiber as held.\<close>

theorem schedule_twice_aborts:
  assumes wf: "wf_fibers (p_fibers pr)" "at_main m (sl_fibers (wk_locals a)) (p_fibers pr)"
    and f: "f < length (fs_store (p_fibers pr))" "GetState f (p_fibers pr) = HOLD"
    and empty: "sc_fibers (w_sched (p_world pr)) = []"
    and hold: "\<And>w. \<exists>c. snd (run_coro (program_left (fs_store (p_fibers pr) ! f)) w) = Held_at c"
  shows "\<exists>a1 b1 a2 pr1 pr2 pr3.
    worker_pick a (scheduled_twice f pr) = Inr (a1, pr1) \<and> worker_pick b pr1 = Inr (b1, pr2) \<and>
    worker_step env junk code a1 pr2 = Inr (a2, pr3) \<and>
    worker_step env junk code b1 pr3 = Inl (Assert_fail ''mState != EXEC'')"
  using twice_aborts [OF wf f(1) _ empty hold, of b env junk code] f(2) by auto

text \<open>The fiber of the small process, held after its first stretch.\<close>

theorem schedule_twice_aborts_witness:
  "(let c = Coro (Yield_hold (Coro Return));
        pr = sample_process c [];
        pr = pr\<lparr>p_fibers := save_context 1 (In_callback MainFunc c) (set_state 1 HOLD (p_fibers pr))\<rparr>
    in \<exists>a1 b1 a2 pr1 pr2 pr3.
         worker_pick (sample_worker 7) (scheduled_twice 1 pr) = Inr (a1, pr1) \<and>
         worker_pick (sample_worker 8) pr1 = Inr (b1, pr2) \<and>
         worker_step \<lparr>fe_stack_size = 1024, fe_malloc = \<lambda>n. True\<rparr> False (\<lambda>i. c) a1 pr2 = Inr (a2, pr3) \<and>
         worker_step \<lparr>fe_stack_size = 1024, fe_malloc = \<lambda>n. True\<rparr> False (\<lambda>i. c) b1 pr3
         = Inl (Assert_fail ''mState != EXEC''))"
  unfolding Let_def
  by (rule schedule_twice_aborts [where m = 0])
    (simp_all add: sample_simps wf_fibers_def wf_fiber_def fiber_ids_def numbered_def at_main_def set_state_def
      save_context_def upd_fiber_def GetState_def program_left_def)

end
