(* ===== verification/SchedulerInv.thy ===== *)
theory SchedulerInv
  imports SchedulerProps
begin

text \<open>
  The scheduler as a system of worker threads whose steps interleave, with other threads that
  schedule tasks and stop the scheduler: the counters of active and idle threads, and what it means
  that the scheduler may stop.
\<close>

subsection \<open>Programs that only schedule\<close>

text \<open>What a task may do to the scheduler: schedule functions, and fibers among the first \<open>n\<close>, which
  existed before. \<open>polite\<close> says that a program does nothing else to it.\<close>

definition task_in :: "nat \<Rightarrow> task \<Rightarrow> bool" where
  "task_in n t \<longleftrightarrow> (\<forall>f. ft_fiber t = Some f \<longrightarrow> f < n)"

definition by_scheduling :: "nat \<Rightarrow> 'e world \<Rightarrow> 'e world \<Rightarrow> bool" where
  "by_scheduling n w w' \<longleftrightarrow>
     (\<exists>fts. list_all (task_in n) fts \<and> w_sched w' = fold schedule fts (w_sched w))"

coinductive polite :: "nat \<Rightarrow> 'e world coro \<Rightarrow> bool" for n where
  polite: "(\<And>w. by_scheduling n w (fst (run_coro c w))) \<Longrightarrow>
    (\<And>w c'. snd (run_coro c w) = Ready_at c' \<Longrightarrow> polite n c') \<Longrightarrow>
    (\<And>w c'. snd (run_coro c w) = Held_at c' \<Longrightarrow> polite n c') \<Longrightarrow> polite n c"

lemma by_scheduling_refl [simp]: "by_scheduling n w w"
  unfolding by_scheduling_def by (rule exI [of _ "[]"]) simp

lemma polite_idle: "polite n idle_prog"
  by (coinduction rule: polite.coinduct) (auto split: if_splits)

lemma polite_raise [simp]: "polite n (Coro (Raise e))"
  by (rule polite) simp_all

lemma polite_run:
  assumes "polite n c" "run_coro c w = (w', p)"
  shows "by_scheduling n w w'" "p = Ready_at c' \<Longrightarrow> polite n c'" "p = Held_at c' \<Longrightarrow> polite n c'"
  using assms(1) polite.cases [OF assms(1)] assms(2) by (metis fst_conv snd_conv)+

text \<open>All programs of a store of fibers are polite.\<close>

definition polite_fiber :: "nat \<Rightarrow> 'e world fiber \<Rightarrow> bool" where
  "polite_fiber n b \<longleftrightarrow>
     (\<forall>c. fb_callback b = Some c \<longrightarrow> polite n c) \<and> (\<forall>e c. fb_context b = In_callback e c \<longrightarrow> polite n c)"

definition polite_fibers :: "nat \<Rightarrow> 'e world fibers \<Rightarrow> bool" where
  "polite_fibers n fs \<longleftrightarrow> list_all (polite_fiber n) (fs_store fs)"

lemma polite_upd [wf_intros]:
  assumes "polite_fibers n fs" "\<And>b. polite_fiber n b \<Longrightarrow> polite_fiber n (g b)"
  shows "polite_fibers n (upd_fiber f g fs)"
proof (cases "f < length (fs_store fs)")
  case True
  then show ?thesis using assms
    by (auto simp: polite_fibers_def upd_fiber_def list_all_length nth_list_update)
next
  case False
  then show ?thesis using assms(1) by (simp add: polite_fibers_def upd_fiber_def not_less list_update_beyond)
qed

lemma polite_set_state [wf_intros]: "polite_fibers n fs \<Longrightarrow> polite_fibers n (set_state f st fs)"
  unfolding set_state_def by (erule polite_upd) (simp add: polite_fiber_def)

lemma polite_save [wf_intros]:
  "polite_fibers n fs \<Longrightarrow> (\<And>e c. x = In_callback e c \<Longrightarrow> polite n c) \<Longrightarrow> polite_fibers n (save_context f x fs)"
  unfolding save_context_def by (erule polite_upd) (simp add: polite_fiber_def)

lemma length_store [simp]:
  "length (fs_store (set_state f st fs)) = length (fs_store fs)"
  "length (fs_store (save_context f x fs)) = length (fs_store fs)"
  by (simp_all add: set_state_def save_context_def)

lemma polite_GetThis:
  "polite_fibers n fs \<Longrightarrow> GetThis th fs = Inr (f, th', fs') \<Longrightarrow> polite_fibers n fs'"
  by (auto simp: GetThis_def new_main_Fiber_def SetThis_def Let_def polite_fibers_def polite_fiber_def
      split: option.splits)

lemma polite_new_Fiber:
  "polite_fibers n fs \<Longrightarrow> (\<And>c. cb = Some c \<Longrightarrow> polite n c) \<Longrightarrow>
   polite_fibers n (snd (new_Fiber env junk cb size' use_caller fs))"
  by (simp add: new_Fiber_eq Let_def polite_fibers_def polite_fiber_def)

lemma polite_Reset:
  "polite_fibers n fs \<Longrightarrow> (\<And>c. cb = Some c \<Longrightarrow> polite n c) \<Longrightarrow> Reset f cb fs = Inr fs' \<Longrightarrow> polite_fibers n fs'"
  by (auto simp: Reset_def Let_def polite_fiber_def intro!: polite_upd split: if_splits)

lemma polite_run_callback:
  assumes fs: "polite_fibers n fs" and c: "polite n c" and th: "t_fiber th = Some f"
    and r: "run_callback e f c th fs w = Inr (th', fs', w')"
  shows "polite_fibers n fs' \<and> by_scheduling n w w' \<and> length (fs_store fs') = length (fs_store fs)"
proof -
  obtain w1 p where run: "run_coro c w = (w1, p)" by fastforce
  note pol = polite_run [OF c run]
  have "polite_fibers n (upd_fiber f (\<lambda>b. b\<lparr>fb_callback := None, fb_state := TERM'\<rparr>) fs)"
    using fs by (rule polite_upd) (simp add: polite_fiber_def)
  then show ?thesis
    using r run pol fs th
    by (cases p)
      (auto simp: run_callback_def leave_entry_eq YieldToReady_def YieldToHold_def SwapOut_def obind_Inr_iff
        GetThis_def intro!: polite_save polite_set_state split: if_splits)
qed

lemma nth_polite: "polite_fibers n fs \<Longrightarrow> f < length (fs_store fs) \<Longrightarrow> polite_fiber n (fs_store fs ! f)"
  by (simp add: polite_fibers_def list_all_length)

lemma polite_SwapIn:
  assumes fs: "polite_fibers n fs" and f: "f < length (fs_store fs)" and r: "SwapIn f th fs w = Inr (th', fs', w')"
  shows "polite_fibers n fs' \<and> by_scheduling n w w' \<and> length (fs_store fs') = length (fs_store fs)"
proof -
  let ?fs = "set_state f EXEC fs" and ?th = "SetThis (Some f) th"
  have pfs: "polite_fibers n ?fs" using fs by (rule polite_set_state)
  have b: "polite_fiber n (fs_store ?fs ! f)" using pfs f by (intro nth_polite) (simp_all add: set_state_def)
  have res: "resume f ?th ?fs w = Inr (th', fs', w')"
    using r by (auto simp: SwapIn_def Let_def split: if_splits)
  show ?thesis
  proof (cases "fb_context (fs_store ?fs ! f)")
    case (At_entry e)
    let ?c = "case fb_callback (fs_store ?fs ! f) of None \<Rightarrow> Coro (Raise Bad_function_call) | Some c \<Rightarrow> c"
    have "polite n ?c" using b by (simp add: polite_fiber_def split: option.splits)
    moreover have "run_callback e f ?c ?th ?fs w = Inr (th', fs', w')"
      using res At_entry by (simp add: resume_def run_entry_def GetThis_def SetThis_def)
    ultimately show ?thesis
      using polite_run_callback [OF pfs, of _ ?th f] by (auto simp: SetThis_def)
  next
    case (In_callback e c)
    then have "polite n c" using b by (simp add: polite_fiber_def)
    moreover have "run_callback e f c ?th ?fs w = Inr (th', fs', w')"
      using res In_callback by (simp add: resume_def)
    ultimately show ?thesis
      using polite_run_callback [OF pfs, of _ ?th f] by (auto simp: SetThis_def)
  next
    case Own_stack
    then show ?thesis using res pfs by (auto simp: resume_def)
  qed (use res in \<open>simp add: resume_def\<close>)
qed

subsection \<open>The system\<close>

definition busy :: "worker \<Rightarrow> bool" where
  "busy wk \<longleftrightarrow> wk_pc wk \<in> {W_dispatch True, W_after_fiber, W_after_cb}"

definition idling :: "worker \<Rightarrow> bool" where
  "idling wk \<longleftrightarrow> wk_pc wk = W_after_idle"

text \<open>A step: a worker goes on, a thread that is not in a fiber becomes a worker, some thread schedules a task, or some thread
  stops the scheduler (up to the joining of the workers). The programs of functions are given by
  \<open>code\<close>; fibers that are scheduled from outside exist.\<close>

inductive sys_step ::
  "nat \<Rightarrow> fiber_env \<Rightarrow> bool \<Rightarrow> (nat \<Rightarrow> 'e world coro) \<Rightarrow> worker list \<times> 'e proc \<Rightarrow> worker list \<times> 'e proc \<Rightarrow> bool"
  for self env junk code where
  sys_work: "i < length ws \<Longrightarrow> worker_step env junk code (ws ! i) pr = Inr (wk, pr') \<Longrightarrow>
    sys_step self env junk code (ws, pr) (ws[i := wk], pr')"
| sys_join: "worker_begin self env junk lo pr = Inr (wk, pr') \<Longrightarrow> t_threadFiber (sl_fibers lo) = t_fiber (sl_fibers lo) \<Longrightarrow>
    sys_step self env junk code (ws, pr) (ws @ [wk], pr')"
| sys_schedule: "task_in (length (fs_store (p_fibers pr))) ft \<Longrightarrow>
    sys_step self env junk code (ws, pr) (ws, upd_sched (schedule ft) pr)"
| sys_stop: "stop self lo (p_fibers pr) (w_sched (p_world pr)) = Inr (r, sc) \<Longrightarrow>
    sys_step self env junk code (ws, pr) (ws, upd_sched (\<lambda>_. sc) pr)"

inductive sys_reachable ::
  "nat \<Rightarrow> fiber_env \<Rightarrow> bool \<Rightarrow> (nat \<Rightarrow> 'e world coro) \<Rightarrow> 'e proc \<Rightarrow> worker list \<times> 'e proc \<Rightarrow> bool"
  for self env junk code pr0 where
  sys_start: "sys_reachable self env junk code pr0 ([], pr0)"
| sys_more: "sys_reachable self env junk code pr0 st \<Longrightarrow> sys_step self env junk code st st' \<Longrightarrow>
    sys_reachable self env junk code pr0 st'"

definition queue_ok :: "nat \<Rightarrow> scheduler \<Rightarrow> bool" where
  "queue_ok n sc \<longleftrightarrow> list_all (\<lambda>t. nonempty_task t \<and> task_in n t) (sc_fibers sc)"

definition worker_ok :: "nat \<Rightarrow> worker \<Rightarrow> bool" where
  "worker_ok n wk \<longleftrightarrow> wk_idle wk < n \<and> (\<forall>f. wk_cb wk = Some f \<longrightarrow> f < n) \<and> task_in n (wk_ft wk) \<and>
     (wk_pc wk = W_dispatch False \<longrightarrow> wk_ft wk = no_task)"

text \<open>The part of the invariant that is about the data, and the counters.\<close>

definition sys_ok :: "nat \<Rightarrow> worker list \<times> 'e proc \<Rightarrow> bool" where
  "sys_ok n st \<longleftrightarrow> (case st of (ws, pr) \<Rightarrow>
     n \<le> length (fs_store (p_fibers pr)) \<and> polite_fibers n (p_fibers pr) \<and>
     queue_ok (length (fs_store (p_fibers pr))) (w_sched (p_world pr)) \<and>
     list_all (worker_ok (length (fs_store (p_fibers pr)))) ws)"

definition counted :: "worker list \<times> 'e proc \<Rightarrow> bool" where
  "counted st \<longleftrightarrow> (case st of (ws, pr) \<Rightarrow>
     sc_active (w_sched (p_world pr)) = of_nat (length (filter busy ws)) \<and>
     sc_idle (w_sched (p_world pr)) = of_nat (length (filter idling ws)))"

lemma task_in_no_task [simp]: "task_in n no_task"
  by (simp add: task_in_def no_task_def)

lemma task_in_mono: "task_in n t \<Longrightarrow> n \<le> m \<Longrightarrow> task_in m t"
  by (auto simp: task_in_def)

lemma queue_ok_mono: "queue_ok n sc \<Longrightarrow> n \<le> m \<Longrightarrow> queue_ok m sc"
  by (auto simp: queue_ok_def list_all_iff intro: task_in_mono)

lemma worker_ok_mono: "worker_ok n wk \<Longrightarrow> n \<le> m \<Longrightarrow> worker_ok m wk"
  by (auto simp: worker_ok_def intro: task_in_mono)

lemma schedule_simps [simp]:
  "sc_active (schedule ft sc) = sc_active sc" "sc_idle (schedule ft sc) = sc_idle sc"
  "sc_autoStop (schedule ft sc) = sc_autoStop sc" "sc_stopping (schedule ft sc) = sc_stopping sc"
  "sc_fibers (schedule ft sc) = sc_fibers sc @ (if nonempty_task ft then [ft] else [])"
  by (simp_all add: schedule_def scheduleNoLock_def tickle_def nonempty_task_def)

lemma schedule_ok: "queue_ok n sc \<Longrightarrow> task_in n ft \<Longrightarrow> queue_ok n (schedule ft sc)"
  by (simp add: queue_ok_def)

lemma fold_schedule:
  "sc_active (fold schedule fts sc) = sc_active sc" "sc_idle (fold schedule fts sc) = sc_idle sc"
  "queue_ok n sc \<Longrightarrow> list_all (task_in n) fts \<Longrightarrow> queue_ok n (fold schedule fts sc)"
  by (induction fts arbitrary: sc) (simp_all add: schedule_ok)

lemma by_scheduling_keeps:
  assumes "by_scheduling n w w'"
  shows "sc_active (w_sched w') = sc_active (w_sched w)" "sc_idle (w_sched w') = sc_idle (w_sched w)"
    "queue_ok m (w_sched w) \<Longrightarrow> n \<le> m \<Longrightarrow> queue_ok m (w_sched w')"
  using assms
  by (auto simp: by_scheduling_def fold_schedule intro!: fold_schedule(3)
      elim!: list.pred_mono_strong intro: task_in_mono)

text \<open>Switching to a fiber.\<close>

lemma worker_swap_in_keeps:
  assumes "polite_fibers n (p_fibers pr)" "f < length (fs_store (p_fibers pr))"
    and "worker_swap_in f wk pr = Inr (wk', pr')"
  shows "polite_fibers n (p_fibers pr')" "length (fs_store (p_fibers pr')) = length (fs_store (p_fibers pr))"
    "by_scheduling n (p_world pr) (p_world pr')"
    "wk_idle wk' = wk_idle wk" "wk_cb wk' = wk_cb wk" "wk_ft wk' = wk_ft wk"
  using assms(3) polite_SwapIn [OF assms(1,2), of "sl_fibers (wk_locals wk)" "p_world pr"]
  by (auto simp: worker_swap_in_def obind_Inr_iff)

subsection \<open>Each step keeps the invariant\<close>

text \<open>What a step of a worker keeps and how it counts.\<close>

definition keeps :: "nat \<Rightarrow> worker \<times> 'e proc \<Rightarrow> worker \<times> 'e proc \<Rightarrow> bool" where
  "keeps n st st' \<longleftrightarrow> (case st of (wk, pr) \<Rightarrow> case st' of (wk', pr') \<Rightarrow>
     length (fs_store (p_fibers pr)) \<le> length (fs_store (p_fibers pr')) \<and>
     polite_fibers n (p_fibers pr') \<and>
     queue_ok (length (fs_store (p_fibers pr'))) (w_sched (p_world pr')) \<and>
     worker_ok (length (fs_store (p_fibers pr'))) wk' \<and>
     sc_active (w_sched (p_world pr')) = sc_active (w_sched (p_world pr)) + of_bool (busy wk') - of_bool (busy wk) \<and>
     sc_idle (w_sched (p_world pr')) = sc_idle (w_sched (p_world pr)) + of_bool (idling wk') - of_bool (idling wk))"

lemma pick_task_subset:
  "pick_task state tid q = Inr (r, rest, tk) \<Longrightarrow> set rest \<subseteq> set q \<and> (\<forall>t. r = Some t \<longrightarrow> t \<in> set q)"
  by (induction q arbitrary: r rest tk) (fastforce simp: obind_Inr_iff split: if_splits)+

lemma queue_ok_subset: "queue_ok n sc \<Longrightarrow> set (sc_fibers sc') \<subseteq> set (sc_fibers sc) \<Longrightarrow> queue_ok n sc'"
  by (auto simp: queue_ok_def list_all_iff)

lemma tickle_simps [simp]:
  "sc_active (tickle sc) = sc_active sc" "sc_idle (tickle sc) = sc_idle sc" "sc_fibers (tickle sc) = sc_fibers sc"
  by (simp_all add: tickle_def)

lemma pick_keeps:
  assumes "polite_fibers n (p_fibers pr)" "queue_ok (length (fs_store (p_fibers pr))) (w_sched (p_world pr))"
    "worker_ok (length (fs_store (p_fibers pr))) wk" "wk_pc wk = W_pick"
    and "worker_pick wk pr = Inr (wk', pr')"
  shows "keeps n (wk, pr) (wk', pr')"
proof -
  let ?q = "pick_task (\<lambda>f. GetState f (p_fibers pr)) (sl_tid (wk_locals wk)) (sc_fibers (w_sched (p_world pr)))"
  obtain r rest tk where p: "?q = Inr (r, rest, tk)"
  proof (cases ?q)
    case (Inl e)
    then show thesis using assms(5) by (simp add: worker_pick_def)
  next
    case (Inr x)
    then show thesis using that by (cases x) simp
  qed
  have wk': "wk' = wk\<lparr>wk_ft := (case r of None \<Rightarrow> no_task | Some t \<Rightarrow> t), wk_pc := W_dispatch (r \<noteq> None)\<rparr>"
    and pr': "pr' = (let pr = upd_sched (\<lambda>sc. sc\<lparr>sc_fibers := rest\<rparr>) pr;
        pr = (if r \<noteq> None then upd_sched (\<lambda>sc. sc\<lparr>sc_active := sc_active sc + 1\<rparr>) pr else pr)
      in if tk then upd_sched tickle pr else pr)"
    using assms(5) unfolding worker_pick_def p by (simp_all add: Let_def)
  have fs: "p_fibers pr' = p_fibers pr" and q: "sc_fibers (w_sched (p_world pr')) = rest"
    and n: "sc_active (w_sched (p_world pr')) = sc_active (w_sched (p_world pr)) + of_bool (r \<noteq> None)"
      "sc_idle (w_sched (p_world pr')) = sc_idle (w_sched (p_world pr))"
    unfolding pr' Let_def by (cases r; cases tk; simp)+
  note sub = pick_task_subset [OF p]
  have "queue_ok (length (fs_store (p_fibers pr'))) (w_sched (p_world pr'))"
    using queue_ok_subset [OF assms(2)] sub q fs by simp
  moreover have "task_in (length (fs_store (p_fibers pr))) (wk_ft wk')"
    using assms(2) sub wk' by (cases r) (auto simp: queue_ok_def list_all_iff task_in_def no_task_def)
  ultimately show ?thesis
    using assms(1,3,4) fs n wk'
    by (cases r) (simp_all add: keeps_def worker_ok_def busy_def idling_def)
qed

lemma swap_keeps:
  assumes fs: "polite_fibers n (p_fibers pr)" and f: "f < length (fs_store (p_fibers pr))"
    and q: "queue_ok (length (fs_store (p_fibers pr))) (w_sched (p_world pr))" "n \<le> length (fs_store (p_fibers pr))"
    and s: "worker_swap_in f wk pr = Inr (wk', pr')"
  shows "polite_fibers n (p_fibers pr') \<and> length (fs_store (p_fibers pr')) = length (fs_store (p_fibers pr)) \<and>
    queue_ok (length (fs_store (p_fibers pr))) (w_sched (p_world pr')) \<and>
    sc_active (w_sched (p_world pr')) = sc_active (w_sched (p_world pr)) \<and>
    sc_idle (w_sched (p_world pr')) = sc_idle (w_sched (p_world pr)) \<and>
    wk_idle wk' = wk_idle wk \<and> wk_cb wk' = wk_cb wk \<and> wk_ft wk' = wk_ft wk"
  using worker_swap_in_keeps [OF fs f s] by_scheduling_keeps [of n "p_world pr" "p_world pr'"] q by simp

lemma cb_fiber_keeps:
  assumes fs: "polite_fibers n (p_fibers pr)" and c: "polite n c"
    and cb: "\<And>f. cb = Some f \<Longrightarrow> f < length (fs_store (p_fibers pr))"
    and r: "cb_fiber_for env junk c cb pr = Inr (f, pr')"
  shows "polite_fibers n (p_fibers pr') \<and> f < length (fs_store (p_fibers pr')) \<and>
    length (fs_store (p_fibers pr)) \<le> length (fs_store (p_fibers pr')) \<and> p_world pr' = p_world pr"
proof (cases cb)
  case None
  have "polite_fibers n (snd (new_Fiber env junk (Some c) 0 False (p_fibers pr)))"
    using fs c by (intro polite_new_Fiber) simp_all
  moreover have "cb_fiber_for env junk c cb pr = Inr (length (fs_store (p_fibers pr)),
      pr\<lparr>p_fibers := snd (new_Fiber env junk (Some c) 0 False (p_fibers pr))\<rparr>)"
    using None by (simp add: cb_fiber_for_def new_Fiber_eq Let_def)
  from trans [OF r [symmetric] this]
  have "f = length (fs_store (p_fibers pr))"
    "pr' = pr\<lparr>p_fibers := snd (new_Fiber env junk (Some c) 0 False (p_fibers pr))\<rparr>" by simp_all
  moreover have "length (fs_store (snd (new_Fiber env junk (Some c) 0 False (p_fibers pr))))
      = Suc (length (fs_store (p_fibers pr)))" by (simp add: new_Fiber_eq Let_def)
  ultimately show ?thesis by simp
next
  case (Some g)
  then obtain fs' where r': "Reset g (Some c) (p_fibers pr) = Inr fs'" "f = g" "pr' = pr\<lparr>p_fibers := fs'\<rparr>"
    using r by (auto simp: cb_fiber_for_def obind_Inr_iff)
  have "length (fs_store fs') = length (fs_store (p_fibers pr))"
    using r'(1) by (auto simp: Reset_def Let_def split: if_splits)
  moreover have "polite_fibers n fs'" by (rule polite_Reset [OF fs _ r'(1)]) (use c in simp)
  ultimately show ?thesis using r'(2,3) cb Some by simp
qed

lemma dispatch_keeps:
  assumes fs: "polite_fibers n (p_fibers pr)" and n: "n \<le> length (fs_store (p_fibers pr))"
    and q: "queue_ok (length (fs_store (p_fibers pr))) (w_sched (p_world pr))"
    and wk: "worker_ok (length (fs_store (p_fibers pr))) wk" "wk_pc wk = W_dispatch b"
    and code: "\<And>i. polite n (code i)"
    and r: "worker_dispatch env junk code b wk pr = Inr (wk', pr')"
  shows "keeps n (wk, pr) (wk', pr')"
proof (cases rule: dispatch_cases [of wk pr env junk code b])
  case (fiber f)
  then have b: "b" "f < length (fs_store (p_fibers pr))"
    using wk by (auto simp: worker_ok_def no_task_def task_in_def)
  obtain wk1 where s: "worker_swap_in f wk pr = Inr (wk1, pr')" "wk' = wk1\<lparr>wk_pc := W_after_fiber\<rparr>"
    using r fiber(3) by (auto simp: obind_Inr_iff)
  show ?thesis
    using swap_keeps [OF fs b(2) q n s(1)] wk b(1) s(2)
    by (simp add: keeps_def worker_ok_def busy_def idling_def)
next
  case (cb c)
  then have b: b using wk by (auto simp: worker_ok_def no_task_def)
  obtain f pr1 wk1 where c: "cb_fiber_for env junk (code c) (wk_cb wk) pr = Inr (f, pr1)"
    "worker_swap_in f (wk\<lparr>wk_cb := Some f, wk_ft := no_task\<rparr>) pr1 = Inr (wk1, pr')"
    "wk' = wk1\<lparr>wk_pc := W_after_cb\<rparr>"
    using r cb(3) by (auto simp: obind_Inr_iff)
  have 1: "polite_fibers n (p_fibers pr1)" "f < length (fs_store (p_fibers pr1))"
    "length (fs_store (p_fibers pr)) \<le> length (fs_store (p_fibers pr1))" "p_world pr1 = p_world pr"
    using cb_fiber_keeps [OF fs code _ c(1)] wk(1) by (simp_all add: worker_ok_def)
  then have "queue_ok (length (fs_store (p_fibers pr1))) (w_sched (p_world pr1))"
    using q by (auto intro: queue_ok_mono)
  from swap_keeps [OF 1(1,2) this _ c(2)] show ?thesis
    using 1 n wk b c(3)
    by (simp add: keeps_def worker_ok_def busy_def idling_def no_task_def task_in_def)
next
  case dropped
  then show ?thesis
    using r fs q wk by (auto simp: keeps_def worker_ok_def busy_def idling_def queue_ok_def)
next
  case ended
  then show ?thesis
    using r fs q wk by (auto simp: keeps_def worker_ok_def busy_def idling_def)
next
  case idle
  let ?pr = "upd_sched (\<lambda>sc. sc\<lparr>sc_idle := sc_idle sc + 1\<rparr>) pr"
  obtain wk1 where s: "worker_swap_in (wk_idle wk) wk ?pr = Inr (wk1, pr')" "wk' = wk1\<lparr>wk_pc := W_after_idle\<rparr>"
    using r idle(5) by (auto simp: obind_Inr_iff)
  have "queue_ok (length (fs_store (p_fibers ?pr))) (w_sched (p_world ?pr))"
    using q by (simp add: queue_ok_def)
  from swap_keeps [OF _ _ this _ s(1), of n] show ?thesis
    using wk n fs idle(3) s(2) by (simp add: keeps_def worker_ok_def busy_def idling_def)
qed

lemma hold_fiber_simps [simp]:
  "p_world (hold_fiber f pr) = p_world pr"
  "length (fs_store (p_fibers (hold_fiber f pr))) = length (fs_store (p_fibers pr))"
  "polite_fibers n (p_fibers pr) \<Longrightarrow> polite_fibers n (p_fibers (hold_fiber f pr))"
  by (simp_all add: hold_fiber_def polite_set_state)

lemma task_in_fiber_task [simp]: "task_in n (fiber_task (Some f) thr) \<longleftrightarrow> f < n"
  by (simp add: task_in_def fiber_task_def)

lemma after_fiber_keeps:
  assumes "polite_fibers n (p_fibers pr)" "queue_ok (length (fs_store (p_fibers pr))) (w_sched (p_world pr))"
    "worker_ok (length (fs_store (p_fibers pr))) wk" "wk_pc wk = W_after_fiber"
    and r: "worker_after_fiber wk pr = Inr (wk', pr')"
  shows "keeps n (wk, pr) (wk', pr')"
proof -
  obtain f where f: "ft_fiber (wk_ft wk) = Some f" using r by (auto simp: worker_after_fiber_def split: option.splits)
  let ?pr = "upd_sched (\<lambda>sc. sc\<lparr>sc_active := sc_active sc - 1\<rparr>) pr"
  have wk': "wk' = wk\<lparr>wk_ft := no_task, wk_pc := W_pick\<rparr>"
    and pr': "pr' = (if GetState f (p_fibers ?pr) = READY then upd_sched (schedule (fiber_task (Some f) (-1))) ?pr
                     else if unfinished f ?pr then hold_fiber f ?pr else ?pr)"
    using r f by (simp_all add: worker_after_fiber_def Let_def)
  have "f < length (fs_store (p_fibers pr))" using assms(3) f by (simp add: worker_ok_def task_in_def)
  then have "polite_fibers n (p_fibers pr')" "length (fs_store (p_fibers pr')) = length (fs_store (p_fibers pr))"
    "sc_active (w_sched (p_world pr')) = sc_active (w_sched (p_world pr)) - 1"
    "sc_idle (w_sched (p_world pr')) = sc_idle (w_sched (p_world pr))"
    "queue_ok (length (fs_store (p_fibers pr))) (w_sched (p_world pr'))"
    unfolding pr' using assms(1,2) by (simp_all add: queue_ok_def nonempty_task_def fiber_task_def task_in_def)
  then show ?thesis
    using assms(3,4) wk' by (simp add: keeps_def worker_ok_def busy_def idling_def)
qed

lemma after_cb_keeps:
  assumes "polite_fibers n (p_fibers pr)" "queue_ok (length (fs_store (p_fibers pr))) (w_sched (p_world pr))"
    "worker_ok (length (fs_store (p_fibers pr))) wk" "wk_pc wk = W_after_cb"
    and r: "worker_after_cb wk pr = Inr (wk', pr')"
  shows "keeps n (wk, pr) (wk', pr')"
proof -
  obtain f where f: "wk_cb wk = Some f" using r by (auto simp: worker_after_cb_def split: option.splits)
  let ?pr = "upd_sched (\<lambda>sc. sc\<lparr>sc_active := sc_active sc - 1\<rparr>) pr"
  have fn: "f < length (fs_store (p_fibers pr))" using assms(3) f by (simp add: worker_ok_def)
  consider
      (ready) "pr' = upd_sched (schedule (fiber_task (Some f) (-1))) ?pr" "wk' = wk\<lparr>wk_pc := W_pick, wk_cb := None\<rparr>"
    | (over) fs where "Reset f None (p_fibers ?pr) = Inr fs" "pr' = ?pr\<lparr>p_fibers := fs\<rparr>" "wk' = wk\<lparr>wk_pc := W_pick\<rparr>"
    | (held) "pr' = hold_fiber f ?pr" "wk' = wk\<lparr>wk_pc := W_pick, wk_cb := None\<rparr>"
    using r f by (auto simp: worker_after_cb_def Let_def obind_Inr_iff split: if_splits)
  then show ?thesis
  proof cases
    case ready
    have "queue_ok (length (fs_store (p_fibers pr))) (w_sched (p_world pr'))"
      using assms(2) fn unfolding ready(1) by (simp add: queue_ok_def nonempty_task_def fiber_task_def task_in_def)
    then show ?thesis using assms(1,3,4) ready by (simp add: keeps_def worker_ok_def busy_def idling_def)
  next
    case over
    have "polite_fibers n fs" "length (fs_store fs) = length (fs_store (p_fibers pr))"
      using over(1) assms(1) polite_Reset [of n "p_fibers ?pr" None f fs] by (auto simp: Reset_def Let_def split: if_splits)
    then show ?thesis using assms(2-4) over(2,3)
      by (simp add: keeps_def worker_ok_def busy_def idling_def queue_ok_def)
  next
    case held
    then show ?thesis using assms(1-4)
      by (simp add: keeps_def worker_ok_def busy_def idling_def queue_ok_def)
  qed
qed

lemma after_idle_keeps:
  assumes "polite_fibers n (p_fibers pr)" "queue_ok (length (fs_store (p_fibers pr))) (w_sched (p_world pr))"
    "worker_ok (length (fs_store (p_fibers pr))) wk" "wk_pc wk = W_after_idle"
    and r: "worker_after_idle wk pr = Inr (wk', pr')"
  shows "keeps n (wk, pr) (wk', pr')"
proof -
  let ?pr = "upd_sched (\<lambda>sc. sc\<lparr>sc_idle := sc_idle sc - 1\<rparr>) pr"
  have "wk' = wk\<lparr>wk_pc := W_pick\<rparr>" "pr' = (if unfinished (wk_idle wk) ?pr then hold_fiber (wk_idle wk) ?pr else ?pr)"
    using r by (simp_all add: worker_after_idle_def Let_def)
  then show ?thesis using assms(1-4)
    by (simp add: keeps_def worker_ok_def busy_def idling_def queue_ok_def)
qed

lemma worker_step_keeps:
  assumes fs: "polite_fibers n (p_fibers pr)" and n: "n \<le> length (fs_store (p_fibers pr))"
    and q: "queue_ok (length (fs_store (p_fibers pr))) (w_sched (p_world pr))"
    and wk: "worker_ok (length (fs_store (p_fibers pr))) wk"
    and code: "\<And>i. polite n (code i)"
    and r: "worker_step env junk code wk pr = Inr (wk', pr')"
  shows "keeps n (wk, pr) (wk', pr')"
proof (cases "wk_pc wk")
  case W_pick
  then show ?thesis using r pick_keeps [OF fs q wk] by (simp add: worker_step_def)
next
  case (W_dispatch b)
  then show ?thesis using r dispatch_keeps [OF fs n q wk W_dispatch code] by (simp add: worker_step_def)
next
  case W_after_fiber
  then show ?thesis using r after_fiber_keeps [OF fs q wk] by (simp add: worker_step_def)
next
  case W_after_cb
  then show ?thesis using r after_cb_keeps [OF fs q wk] by (simp add: worker_step_def)
next
  case W_after_idle
  then show ?thesis using r after_idle_keeps [OF fs q wk] by (simp add: worker_step_def)
next
  case W_exit
  then show ?thesis using r fs q wk by (simp add: worker_step_def keeps_def)
qed

text \<open>The workers of the whole system.\<close>

lemma filter_update:
  assumes "i < length ws"
  shows "(of_nat (length (filter P (ws[i := x]))) :: 'a::ring_1) =
    of_nat (length (filter P ws)) + of_bool (P x) - of_bool (P (ws ! i))"
  using assms
proof (induction ws arbitrary: i)
  case (Cons w ws)
  then show ?case by (cases i) (auto simp: algebra_simps)
qed simp

lemma work_keeps:
  assumes "sys_ok n (ws, pr)" "counted (ws, pr)" "i < length ws" "keeps n (ws ! i, pr) (wk, pr')"
  shows "sys_ok n (ws[i := wk], pr')" "counted (ws[i := wk], pr')"
proof -
  have "list_all (worker_ok (length (fs_store (p_fibers pr')))) ws"
    using assms(1,4) by (auto simp: sys_ok_def keeps_def list_all_iff intro: worker_ok_mono)
  then show "sys_ok n (ws[i := wk], pr')"
    using assms(1,3,4) by (auto simp: sys_ok_def keeps_def list_all_length nth_list_update)
  show "counted (ws[i := wk], pr')"
    using assms(2-4) by (simp add: counted_def keeps_def filter_update)
qed

lemma worker_begin_ok:
  assumes fs: "polite_fibers n (p_fibers pr)"
    and r: "worker_begin self env junk lo pr = Inr (wk, pr')"
  shows "polite_fibers n (p_fibers pr')" "length (fs_store (p_fibers pr)) \<le> length (fs_store (p_fibers pr'))"
    "p_world pr' = p_world pr" "worker_ok (length (fs_store (p_fibers pr'))) wk" "\<not> busy wk" "\<not> idling wk"
proof -
  obtain f th fs1 where g: "GetThis (sl_fibers lo) (p_fibers pr) = Inr (f, th, fs1)"
    and wk: "wk = \<lparr>wk_locals = lo\<lparr>sl_scheduler := Some self, sl_fibers := th, sl_scheduler_fiber := Some f\<rparr>,
        wk_idle = length (fs_store fs1), wk_cb = None, wk_ft = no_task, wk_pc = W_pick\<rparr>"
    and pr': "pr' = pr\<lparr>p_fibers := snd (new_Fiber env junk (Some idle_prog) 0 False fs1)\<rparr>"
    using r by (auto simp: worker_begin_def obind_Inr_iff new_Fiber_eq Let_def)
  have l: "length (fs_store (p_fibers pr)) \<le> length (fs_store fs1)"
    using g by (auto simp: GetThis_def new_main_Fiber_def SetThis_def Let_def split: option.splits)
  have "polite_fibers n fs1" using polite_GetThis [OF fs g] .
  then show "polite_fibers n (p_fibers pr')"
    unfolding pr' by (auto intro!: polite_new_Fiber polite_idle)
  show "length (fs_store (p_fibers pr)) \<le> length (fs_store (p_fibers pr'))"
    "worker_ok (length (fs_store (p_fibers pr'))) wk"
    using l unfolding pr' wk by (simp_all add: new_Fiber_eq Let_def worker_ok_def)
  show "p_world pr' = p_world pr" "\<not> busy wk" "\<not> idling wk" unfolding pr' wk by (simp_all add: busy_def idling_def)
qed

lemma tickles [simp]:
  "sc_active ((tickle ^^ k) sc) = sc_active sc" "sc_idle ((tickle ^^ k) sc) = sc_idle sc"
  "sc_fibers ((tickle ^^ k) sc) = sc_fibers sc"
  by (induction k) simp_all

lemma stop_simps:
  assumes "stop self lo fs sc = Inr (r, sc')"
  shows "sc_active sc' = sc_active sc" "sc_idle sc' = sc_idle sc" "sc_fibers sc' = sc_fibers sc"
  using assms by (auto simp: stop_def Let_def split: if_splits option.splits)

lemma sys_step_keeps:
  assumes "sys_step self env junk code st st'" and code: "\<And>i. polite n (code i)"
  shows "sys_ok n st \<and> counted st \<Longrightarrow> sys_ok n st' \<and> counted st'"
  using assms(1)
proof (induction rule: sys_step.induct)
  case (sys_work i ws pr wk pr')
  then have "keeps n (ws ! i, pr) (wk, pr')"
    using worker_step_keeps [OF _ _ _ _ code] by (auto simp: sys_ok_def list_all_length)
  then show ?case using work_keeps sys_work by blast
next
  case (sys_join lo pr wk pr' ws)
  have p: "polite_fibers n (p_fibers pr)" using sys_join by (simp add: sys_ok_def)
  note b = worker_begin_ok [OF p sys_join(1)]
  have "list_all (worker_ok (length (fs_store (p_fibers pr')))) ws"
    using sys_join(3) b(2) by (auto simp: sys_ok_def list_all_iff intro: worker_ok_mono)
  then show ?case using sys_join(3) b
    by (auto simp: sys_ok_def counted_def intro: queue_ok_mono)
next
  case (sys_schedule pr ft ws)
  then show ?case by (auto simp: sys_ok_def counted_def intro: schedule_ok simp del: schedule_simps(5))
next
  case (sys_stop lo pr r sc ws)
  then show ?case using stop_simps [OF sys_stop(1)] by (simp add: sys_ok_def counted_def queue_ok_def)
qed

lemma reachable_ok:
  assumes "sys_reachable self env junk code pr0 st" "\<And>i. polite (length (fs_store (p_fibers pr0))) (code i)"
    "polite_fibers (length (fs_store (p_fibers pr0))) (p_fibers pr0)"
    "queue_ok (length (fs_store (p_fibers pr0))) (w_sched (p_world pr0))"
    "sc_active (w_sched (p_world pr0)) = 0" "sc_idle (w_sched (p_world pr0)) = 0"
  shows "sys_ok (length (fs_store (p_fibers pr0))) st \<and> counted st"
  using assms(1)
proof (induction rule: sys_reachable.induct)
  case sys_start
  then show ?case using assms(3-6) by (simp add: sys_ok_def counted_def)
next
  case (sys_more st st')
  then show ?case using sys_step_keeps [OF sys_more(2) assms(2)] by blast
qed



end
