(* ===== verification/SchedulerCode.thy ===== *)
theory SchedulerCode
  imports SwitchingProps SchedulerInv
begin

text \<open>
  \<open>Scheduler::run\<close> of \<open>primo/schedule.cpp\<close> as a program of the machine of \<open>Switching\<close>, statement by
  statement. On a worker thread, where the program is the thread's own function, its runs are the
  steps of \<open>Workers\<close>; on the root fiber, which \<open>stop\<close> calls when the scheduler uses the thread that
  made it, the switches nest, and \<open>stop\<close> never gets control back.
\<close>

subsection \<open>The program\<close>

text \<open>The points of \<open>run\<close> and \<open>idle\<close>, with the values of the local variables: \<open>idle_fiber\<close>, \<open>cb_fiber\<close>,
  \<open>ft\<close>, \<open>is_active\<close>. \<open>P_code\<close> is the program of a function.\<close>

datatype 'e phase =
    P_begin
  | P_pick nat "nat option"
  | P_picked nat "nat option" "task option" "task list" bool
  | P_dispatch nat "nat option" task bool
  | P_fiber nat "nat option" nat
  | P_after_fiber nat "nat option" nat
  | P_settle nat "nat option" nat
  | P_schedule nat "nat option" nat
  | P_hold nat "nat option" nat
  | P_cb nat "nat option" nat
  | P_cb_in nat nat
  | P_after_cb nat nat
  | P_settle_cb nat nat
  | P_clear nat nat
  | P_nothing nat "nat option"
  | P_idle_count nat "nat option"
  | P_idle_in nat "nat option"
  | P_after_idle nat "nat option"
  | P_settle_idle nat "nat option"
  | P_return
  | P_fail fault
  | P_idle
  | P_idle_yield
  | P_code "'e world code"

definition in_sched :: "(scheduler \<Rightarrow> scheduler) \<Rightarrow> 'e world \<Rightarrow> 'e world" where
  "in_sched g w = w\<lparr>w_sched := g (w_sched w)\<rparr>"

definition goes_on :: "fiber_state \<Rightarrow> bool" where
  "goes_on st \<longleftrightarrow> st \<noteq> TERM' \<and> st \<noteq> EXCEPT"

definition dispatch_phase :: "nat \<Rightarrow> nat option \<Rightarrow> task \<Rightarrow> bool \<Rightarrow> fiber_state list \<Rightarrow> 'e phase" where
  "dispatch_phase idle cb ft is_active states =
     (case (case ft_fiber ft of Some f \<Rightarrow> if goes_on (states ! f) then Some f else None | None \<Rightarrow> None) of
        Some f \<Rightarrow> P_fiber idle cb f
      | None \<Rightarrow>
          (case ft_cb ft of
             Some c \<Rightarrow> P_cb idle cb c
           | None \<Rightarrow>
               if is_active then P_nothing idle cb
               else if states ! idle = TERM' then P_return
               else P_idle_count idle cb))"

fun phase_op :: "(nat \<Rightarrow> 'e world code) \<Rightarrow> int \<Rightarrow> 'e phase \<Rightarrow> ('e world, 'e phase) op" where
  "phase_op code tid P_begin = Op_new (Some P_idle) (\<lambda>idle. P_pick idle None)"
| "phase_op code tid (P_pick idle cb) =
     Op_branch (\<lambda>w states. case pick_task (\<lambda>f. states ! f) tid (sc_fibers (w_sched w)) of
       Inl e \<Rightarrow> P_fail e
     | Inr (ft, rest, tickle_me) \<Rightarrow> P_picked idle cb ft rest tickle_me)"
| "phase_op code tid (P_picked idle cb ft rest tickle_me) =
     Op_do (in_sched (\<lambda>sc.
       let sc = sc\<lparr>sc_fibers := rest\<rparr>;
           sc = (if ft \<noteq> None then sc\<lparr>sc_active := sc_active sc + 1\<rparr> else sc)
       in if tickle_me then tickle sc else sc))
     (P_dispatch idle cb (case ft of None \<Rightarrow> no_task | Some t \<Rightarrow> t) (ft \<noteq> None))"
| "phase_op code tid (P_dispatch idle cb ft is_active) =
     Op_branch (\<lambda>w states. dispatch_phase idle cb ft is_active states)"
| "phase_op code tid (P_fiber idle cb f) = Op_swap_in f (P_after_fiber idle cb f)"
| "phase_op code tid (P_after_fiber idle cb f) =
     Op_do (in_sched (\<lambda>sc. sc\<lparr>sc_active := sc_active sc - 1\<rparr>)) (P_settle idle cb f)"
| "phase_op code tid (P_settle idle cb f) =
     Op_branch (\<lambda>w states. if states ! f = READY then P_schedule idle cb f
       else if goes_on (states ! f) then P_hold idle cb f else P_pick idle cb)"
| "phase_op code tid (P_schedule idle cb f) =
     Op_do (in_sched (schedule (fiber_task (Some f) (-1)))) (P_pick idle cb)"
| "phase_op code tid (P_hold idle cb f) = Op_hold f (P_pick idle cb)"
| "phase_op code tid (P_cb idle cb c) =
     (case cb of
        Some f \<Rightarrow> Op_reset f (Some (P_code (code c))) (P_cb_in idle f)
      | None \<Rightarrow> Op_new (Some (P_code (code c))) (\<lambda>f. P_cb_in idle f))"
| "phase_op code tid (P_cb_in idle f) = Op_swap_in f (P_after_cb idle f)"
| "phase_op code tid (P_after_cb idle f) =
     Op_do (in_sched (\<lambda>sc. sc\<lparr>sc_active := sc_active sc - 1\<rparr>)) (P_settle_cb idle f)"
| "phase_op code tid (P_settle_cb idle f) =
     Op_branch (\<lambda>w states. if states ! f = READY then P_schedule idle None f
       else if \<not> goes_on (states ! f) then P_clear idle f else P_hold idle None f)"
| "phase_op code tid (P_clear idle f) = Op_reset f None (P_pick idle (Some f))"
| "phase_op code tid (P_nothing idle cb) =
     Op_do (in_sched (\<lambda>sc. sc\<lparr>sc_active := sc_active sc - 1\<rparr>)) (P_pick idle cb)"
| "phase_op code tid (P_idle_count idle cb) =
     Op_do (in_sched (\<lambda>sc. sc\<lparr>sc_idle := sc_idle sc + 1\<rparr>)) (P_idle_in idle cb)"
| "phase_op code tid (P_idle_in idle cb) = Op_swap_in idle (P_after_idle idle cb)"
| "phase_op code tid (P_after_idle idle cb) =
     Op_do (in_sched (\<lambda>sc. sc\<lparr>sc_idle := sc_idle sc - 1\<rparr>)) (P_settle_idle idle cb)"
| "phase_op code tid (P_settle_idle idle cb) =
     Op_branch (\<lambda>w states. if goes_on (states ! idle) then P_hold idle cb idle else P_pick idle cb)"
| "phase_op code tid P_return = Op_return"
| "phase_op code tid (P_fail e) = Op_fail e"
| "phase_op code tid P_idle = Op_branch (\<lambda>w states. if stopping (w_sched w) then P_return else P_idle_yield)"
| "phase_op code tid P_idle_yield = Op_yield_hold P_idle"
| "phase_op code tid (P_code c) = map_op P_code (next_op c)"

primcorec run_code :: "(nat \<Rightarrow> 'e world code) \<Rightarrow> int \<Rightarrow> 'e phase \<Rightarrow> 'e world code" where
  "run_code code tid ph = Code (map_op (run_code code tid) (phase_op code tid ph))"

lemma run_code_P_code [simp]: "run_code code tid (P_code c) = c"
  by (coinduction arbitrary: c rule: code.coinduct)
    (auto simp: op.map_comp op.rel_map intro!: op.rel_refl)

lemma next_idle_prog:
  "next_stretch idle_prog = Branch (\<lambda>w. if stopping (w_sched w) then Return else Yield_hold idle_prog)"
  by (auto simp: fun_eq_iff)

lemma run_code_idle: "run_code code tid P_idle = embed_coro idle_prog"
proof -
  define R where "R c c' \<longleftrightarrow> (\<exists>ph p. c = run_code code tid ph \<and> c' = embed p \<and>
     (ph = P_idle \<and> p = next_stretch idle_prog \<or> ph = P_return \<and> p = Return \<or>
      ph = P_idle_yield \<and> p = Yield_hold idle_prog))" for c c' :: "'a world code"
  have "R (run_code code tid P_idle) (embed_coro idle_prog)" unfolding R_def by blast
  then show ?thesis
  proof (rule code.coinduct)
    fix c c' :: "'a world code" assume "R c c'"
    then consider "c = run_code code tid P_idle" "c' = embed_coro idle_prog"
      | "c = run_code code tid P_return" "c' = embed Return"
      | "c = run_code code tid P_idle_yield" "c' = embed (Yield_hold idle_prog)" unfolding R_def by blast
    then show "rel_op R (next_op c) (next_op c')"
    proof cases
      case 1
      then show ?thesis by (auto simp: next_idle_prog rel_fun_def R_def)
    next
      case 3
      then show ?thesis by (auto simp: R_def simp del: idle_prog.sel)
    qed simp
  qed
qed

subsection \<open>Phases on the main stack\<close>

text \<open>A machine on the main stack \<open>m\<close> at a phase of the program, with the given fibers and world; from
  such a machine the steps lead to another such machine, or to a failure.\<close>

type_synonym 'e loop_state = "'e phase \<times> 'e world fibers \<times> 'e world"

definition at_phase :: "(nat \<Rightarrow> 'e world code) \<Rightarrow> int \<Rightarrow> nat \<Rightarrow> 'e loop_state \<Rightarrow> 'e world machine \<Rightarrow> bool" where
  "at_phase code tid m st M \<longleftrightarrow> (case st of (ph, fs, w) \<Rightarrow>
     implements m fs w M \<and> ma_point M = On_main (run_code code tid ph))"

definition leads ::
  "bool \<Rightarrow> (nat \<Rightarrow> 'e world code) \<Rightarrow> int \<Rightarrow> nat \<Rightarrow> 'e loop_state \<Rightarrow> 'e loop_state outcome \<Rightarrow> bool" where
  "leads junk code tid m st r \<longleftrightarrow> (\<forall>M. at_phase code tid m st M \<longrightarrow>
     (case r of
        Inr st' \<Rightarrow> (\<exists>M'. msteps junk M M' \<and> at_phase code tid m st' M')
      | Inl e \<Rightarrow> (\<exists>M'. msteps junk M M' \<and> mstep junk M' = Failed e)))"

lemma leads_refl: "leads junk code tid m st (Inr st)"
  by (auto simp: leads_def intro: msteps_refl)

lemma leads_trans [trans]:
  "leads junk code tid m st (Inr st') \<Longrightarrow> leads junk code tid m st' r \<Longrightarrow> leads junk code tid m st r"
  unfolding leads_def by (cases r) (simp, meson msteps_trans)+

lemma leads_do:
  assumes "phase_op code tid ph = Op_do g ph'"
  shows "leads junk code tid m (ph, fs, w) (Inr (ph', fs, g w))"
  unfolding leads_def at_phase_def
proof (clarsimp)
  fix M assume M: "implements m fs w M" "ma_point M = On_main (run_code code tid ph)"
  let ?M = "M\<lparr>ma_world := g w, ma_point := On_main (run_code code tid ph')\<rparr>"
  have "mstep junk M = Running ?M" using M assms by (simp add: mstep_def step_op_def implements_def)
  then show "\<exists>M'. msteps junk M M' \<and> implements m fs (g w) M' \<and> ma_point M' = On_main (run_code code tid ph')"
    using implements_world [OF M(1)] by (intro exI [of _ ?M]) (simp add: msteps_one)
qed

lemma leads_branch:
  assumes "phase_op code tid ph = Op_branch b" "ph' = b w (map fb_state (fs_store fs))"
  shows "leads junk code tid m (ph, fs, w) (Inr (ph', fs, w))"
  unfolding leads_def at_phase_def
proof (clarsimp)
  fix M assume M: "implements m fs w M" "ma_point M = On_main (run_code code tid ph)"
  let ?M = "M\<lparr>ma_point := On_main (run_code code tid ph')\<rparr>"
  have "mstep junk M = Running ?M"
    using M assms states_implemented [OF M(1)] by (simp add: mstep_def step_op_def implements_def)
  then show "\<exists>M'. msteps junk M M' \<and> implements m fs w M' \<and> ma_point M' = On_main (run_code code tid ph')"
    using M(1) by (intro exI [of _ ?M]) (simp add: msteps_one)
qed

lemma leads_fail:
  fixes w :: "'e world"
  shows "leads junk code tid m (P_fail e, fs, w) (Inl e)"
  unfolding leads_def at_phase_def
proof (clarsimp)
  fix M :: "'e world machine" assume "ma_point M = On_main (run_code code tid (P_fail e))"
  then have "mstep junk M = Failed e" by (simp add: mstep_def step_op_def)
  then show "\<exists>M'. msteps junk M M' \<and> mstep junk M' = Failed e" by (blast intro: msteps_refl)
qed

lemma leads_new:
  assumes "phase_op code tid ph = Op_new (Some ph') k" "run_code code tid ph' = embed_coro c"
    "\<And>n. fe_malloc env n"
  shows "leads junk code tid m (ph, fs, w)
    (Inr (k (length (fs_store fs)), snd (new_Fiber env junk (Some c) n uc fs), w))"
  unfolding leads_def at_phase_def
proof (clarsimp)
  fix M assume M: "implements m fs w M" "ma_point M = On_main (run_code code tid ph)"
  let ?M = "(mnew junk (Some (embed_coro c)) M)\<lparr>ma_point := On_main (run_code code tid (k (length (fs_store fs))))\<rparr>"
  have "mstep junk M = Running ?M"
    using M assms(1,2) by (simp add: mstep_def step_op_def implements_def)
  moreover have "implements m (snd (new_Fiber env junk (Some c) n uc fs)) w ?M"
    using new_implemented [OF M(1) assms(3), of junk "Some c" n uc] by simp
  ultimately show "\<exists>M'. msteps junk M M' \<and> implements m (snd (new_Fiber env junk (Some c) n uc fs)) w M' \<and>
      ma_point M' = On_main (run_code code tid (k (length (fs_store fs))))"
    by (intro exI [of _ ?M]) (simp add: msteps_one)
qed

lemma leads_hold:
  assumes "phase_op code tid ph = Op_hold f ph'" "f < length (fs_store fs)"
  shows "leads junk code tid m (ph, fs, w) (Inr (ph', set_state f HOLD fs, w))"
  unfolding leads_def at_phase_def
proof (clarsimp)
  fix M assume M: "implements m fs w M" "ma_point M = On_main (run_code code tid ph)"
  let ?M = "(set_mstate f HOLD M)\<lparr>ma_point := On_main (run_code code tid ph')\<rparr>"
  have "mstep junk M = Running ?M" using M assms by (simp add: mstep_def step_op_def on_fiber_def implements_def)
  then show "\<exists>M'. msteps junk M M' \<and> implements m (set_state f HOLD fs) w M' \<and> ma_point M' = On_main (run_code code tid ph')"
    using hold_implemented [OF M(1) assms(2)] by (intro exI [of _ ?M]) (simp add: msteps_one)
qed

lemma leads_reset:
  assumes "phase_op code tid ph = Op_reset f cb ph'" "map_option (run_code code tid) cb = map_option embed_coro c"
    "f < length (fs_store fs)"
  shows "leads junk code tid m (ph, fs, w)
    (case Reset f c fs of Inl e \<Rightarrow> Inl e | Inr fs' \<Rightarrow> Inr (ph', fs', w))"
  unfolding leads_def at_phase_def
proof (clarify, goal_cases)
  case (1 M)
  let ?at = "\<lambda>M. M\<lparr>ma_point := On_main (run_code code tid ph')\<rparr>"
  have M: "implements m fs w M" "ma_point M = On_main (run_code code tid ph)" using 1 by simp_all
  have step: "mstep junk M =
      (case mReset f (map_option embed_coro c) M of Inl e \<Rightarrow> Failed e | Inr M' \<Rightarrow> Running (?at M'))"
    using M assms by (simp add: mstep_def step_op_def on_fiber_def implements_def)
  note r = reset_implemented [OF M(1) assms(3), of c]
  show ?case
  proof (cases "Reset f c fs")
    case (Inl e)
    then show ?thesis using r step by (auto intro: msteps_refl)
  next
    case (Inr fs')
    then obtain M' where M': "mReset f (map_option embed_coro c) M = Inr M'" "implements m fs' w M'"
      using r by auto
    then have "mstep junk M = Running (?at M')" using step by simp
    then show ?thesis using M'(2) Inr by (auto intro!: exI [of _ "?at M'"] msteps_one)
  qed
qed

lemma leads_swap_in:
  assumes "phase_op code tid ph = Op_swap_in f ph'" "f < length (fs_store fs)" "wf_fibers fs" "at_main m th fs"
  shows "leads junk code tid m (ph, fs, w)
    (case SwapIn f th fs w of Inl e \<Rightarrow> Inl e | Inr (th', fs', w') \<Rightarrow> Inr (ph', fs', w'))"
  unfolding leads_def at_phase_def
proof (clarify, goal_cases)
  case (1 M)
  then have M: "implements m fs w M" "ma_point M = On_main (Code (Op_swap_in f (run_code code tid ph')))"
    using assms(1) by (auto simp: run_code.code)
  from swap_in_steps [OF M(1) assms(3,4,2) M(2), of junk] show ?case
    by (cases "SwapIn f th fs w") auto
qed

subsection \<open>The steps of a worker are runs of the program\<close>

fun phase_of :: "worker \<Rightarrow> 'e phase" where
  "phase_of wk =
     (case wk_pc wk of
        W_pick \<Rightarrow> P_pick (wk_idle wk) (wk_cb wk)
      | W_dispatch is_active \<Rightarrow> P_dispatch (wk_idle wk) (wk_cb wk) (wk_ft wk) is_active
      | W_after_fiber \<Rightarrow>
          (case ft_fiber (wk_ft wk) of Some f \<Rightarrow> P_after_fiber (wk_idle wk) (wk_cb wk) f | None \<Rightarrow> P_fail Null_deref)
      | W_after_cb \<Rightarrow> (case wk_cb wk of Some f \<Rightarrow> P_after_cb (wk_idle wk) f | None \<Rightarrow> P_fail Null_deref)
      | W_after_idle \<Rightarrow> P_after_idle (wk_idle wk) (wk_cb wk)
      | W_exit \<Rightarrow> P_return)"

definition loop_state :: "worker \<Rightarrow> 'e proc \<Rightarrow> 'e loop_state" where
  "loop_state wk pr = (phase_of wk, p_fibers pr, p_world pr)"

definition loop_result :: "(worker \<times> 'e proc) outcome \<Rightarrow> 'e loop_state outcome" where
  "loop_result r = (case r of Inl e \<Rightarrow> Inl e | Inr (wk, pr) \<Rightarrow> Inr (loop_state wk pr))"

lemma loop_result_simps [simp]:
  "loop_result (Inl e) = Inl e" "loop_result (Inr (wk, pr)) = Inr (loop_state wk pr)"
  by (simp_all add: loop_result_def)

lemma in_sched_upd: "p_world (upd_sched g pr) = in_sched g (p_world pr)"
  by (simp add: upd_sched_def in_sched_def)

lemma nth_states: "f < length (fs_store fs) \<Longrightarrow> map fb_state (fs_store fs) ! f = GetState f fs"
  by (simp add: GetState_def)

lemma pick_task_cong:
  assumes "\<And>t f. t \<in> set q \<Longrightarrow> ft_fiber t = Some f \<Longrightarrow> st f = st' f"
  shows "pick_task st tid q = pick_task st' tid q"
  using assms
proof (induction q)
  case (Cons t q)
  have "map_option st (ft_fiber t) = map_option st' (ft_fiber t)"
    using Cons.prems [of t] by (cases "ft_fiber t") simp_all
  moreover have "pick_task st tid q = pick_task st' tid q" using Cons.prems by (intro Cons.IH) auto
  ultimately show ?case by (simp only: pick_task.simps)
qed simp

lemma pick_leads:
  assumes q: "queue_ok (length (fs_store (p_fibers pr))) (w_sched (p_world pr))" and pc: "wk_pc wk = W_pick"
  shows "leads junk code (sl_tid (wk_locals wk)) m (loop_state wk pr) (loop_result (worker_pick wk pr))"
proof -
  let ?fs = "p_fibers pr" and ?w = "p_world pr" and ?tid = "sl_tid (wk_locals wk)"
  let ?q = "sc_fibers (w_sched ?w)" and ?idle = "wk_idle wk" and ?cb = "wk_cb wk"
  have pick: "pick_task (\<lambda>f. map fb_state (fs_store ?fs) ! f) ?tid ?q = pick_task (\<lambda>f. GetState f ?fs) ?tid ?q"
    using q by (intro pick_task_cong nth_states) (auto simp: queue_ok_def list_all_iff task_in_def)
  have here: "loop_state wk pr = (P_pick ?idle ?cb, ?fs, ?w)" using pc by (simp add: loop_state_def)
  show ?thesis
  proof (cases "pick_task (\<lambda>f. GetState f ?fs) ?tid ?q")
    case (Inl e)
    have "leads junk code ?tid m (P_pick ?idle ?cb, ?fs, ?w) (Inr (P_fail e, ?fs, ?w))"
      by (rule leads_branch [OF phase_op.simps(2)]) (simp_all add: pick Inl)
    also have "leads junk code ?tid m (P_fail e, ?fs, ?w) (Inl e)" by (rule leads_fail)
    finally show ?thesis using Inl unfolding here by (simp add: worker_pick_def)
  next
    case (Inr x)
    obtain ft rest tk where x: "x = (ft, rest, tk)" by (cases x)
    have "leads junk code ?tid m (P_pick ?idle ?cb, ?fs, ?w) (Inr (P_picked ?idle ?cb ft rest tk, ?fs, ?w))"
      by (rule leads_branch [OF phase_op.simps(2)]) (simp_all add: pick Inr x)
    also have "leads junk code ?tid m (P_picked ?idle ?cb ft rest tk, ?fs, ?w) (loop_result (worker_pick wk pr))"
      unfolding worker_pick_def Inr x obind_simps prod.case Let_def loop_result_simps loop_state_def
      using leads_do [of code ?tid "P_picked ?idle ?cb ft rest tk", OF phase_op.simps(3), of junk m ?fs ?w]
      by (cases ft; cases tk) (simp_all add: Let_def in_sched_def upd_sched_def)
    finally show ?thesis unfolding here .
  qed
qed

lemma goes_on_unfinished: "unfinished f pr = goes_on (GetState f (p_fibers pr))"
  by (simp add: unfinished_def goes_on_def)

text \<open>The bookkeeping after a switch.\<close>

lemma after_fiber_leads:
  assumes wk: "worker_ok (length (fs_store (p_fibers pr))) wk" and pc: "wk_pc wk = W_after_fiber"
  shows "leads junk code tid m (loop_state wk pr) (loop_result (worker_after_fiber wk pr))"
proof (cases "ft_fiber (wk_ft wk)")
  case None
  then show ?thesis using pc leads_fail by (simp add: loop_state_def worker_after_fiber_def)
next
  case (Some f)
  let ?pr = "upd_sched (\<lambda>sc. sc\<lparr>sc_active := sc_active sc - 1\<rparr>) pr" and ?fs = "p_fibers pr"
  let ?idle = "wk_idle wk" and ?cb = "wk_cb wk"
  have f: "f < length (fs_store ?fs)" using wk Some by (simp add: worker_ok_def task_in_def)
  have "leads junk code tid m (loop_state wk pr) (Inr (P_settle ?idle ?cb f, ?fs, p_world ?pr))"
    using leads_do [of code tid "P_after_fiber ?idle ?cb f" _ "P_settle ?idle ?cb f" junk m ?fs "p_world pr"] pc Some
    by (simp add: loop_state_def in_sched_upd)
  also have "leads junk code tid m (P_settle ?idle ?cb f, ?fs, p_world ?pr) (loop_result (worker_after_fiber wk pr))"
  proof -
    consider "GetState f ?fs = READY" | "GetState f ?fs \<noteq> READY" "goes_on (GetState f ?fs)"
      | "GetState f ?fs \<noteq> READY" "\<not> goes_on (GetState f ?fs)" by blast
    then show ?thesis
    proof cases
      case 1
      have "leads junk code tid m (P_settle ?idle ?cb f, ?fs, p_world ?pr) (Inr (P_schedule ?idle ?cb f, ?fs, p_world ?pr))"
        by (rule leads_branch [OF phase_op.simps(7)]) (use 1 f in \<open>simp_all add: nth_states GetState_def\<close>)
      also have "leads junk code tid m (P_schedule ?idle ?cb f, ?fs, p_world ?pr) (loop_result (worker_after_fiber wk pr))"
        using leads_do [of code tid "P_schedule ?idle ?cb f" _ "P_pick ?idle ?cb" junk m ?fs "p_world ?pr"] 1 Some
        by (simp add: worker_after_fiber_def Let_def loop_state_def in_sched_upd)
      finally show ?thesis .
    next
      case 2
      have "leads junk code tid m (P_settle ?idle ?cb f, ?fs, p_world ?pr) (Inr (P_hold ?idle ?cb f, ?fs, p_world ?pr))"
        by (rule leads_branch [OF phase_op.simps(7)]) (use 2 f in \<open>simp_all add: nth_states GetState_def\<close>)
      also have "leads junk code tid m (P_hold ?idle ?cb f, ?fs, p_world ?pr) (loop_result (worker_after_fiber wk pr))"
        using leads_hold [of code tid "P_hold ?idle ?cb f" f "P_pick ?idle ?cb" ?fs junk m "p_world ?pr"] f 2 Some
        by (simp add: worker_after_fiber_def Let_def loop_state_def hold_fiber_def goes_on_unfinished)
      finally show ?thesis .
    next
      case 3
      have "leads junk code tid m (P_settle ?idle ?cb f, ?fs, p_world ?pr) (Inr (P_pick ?idle ?cb, ?fs, p_world ?pr))"
        by (rule leads_branch [OF phase_op.simps(7)]) (use 3 f in \<open>simp_all add: nth_states GetState_def\<close>)
      then show ?thesis
        using 3 Some by (simp add: worker_after_fiber_def Let_def loop_state_def goes_on_unfinished)
    qed
  qed
  finally show ?thesis .
qed

lemma after_cb_leads:
  assumes wk: "worker_ok (length (fs_store (p_fibers pr))) wk" and pc: "wk_pc wk = W_after_cb"
  shows "leads junk code tid m (loop_state wk pr) (loop_result (worker_after_cb wk pr))"
proof (cases "wk_cb wk")
  case None
  then show ?thesis using pc leads_fail by (simp add: loop_state_def worker_after_cb_def)
next
  case (Some f)
  let ?pr = "upd_sched (\<lambda>sc. sc\<lparr>sc_active := sc_active sc - 1\<rparr>) pr" and ?fs = "p_fibers pr" and ?idle = "wk_idle wk"
  have f: "f < length (fs_store ?fs)" using wk Some by (simp add: worker_ok_def)
  have "leads junk code tid m (loop_state wk pr) (Inr (P_settle_cb ?idle f, ?fs, p_world ?pr))"
    using leads_do [of code tid "P_after_cb ?idle f" _ "P_settle_cb ?idle f" junk m ?fs "p_world pr"] pc Some
    by (simp add: loop_state_def in_sched_upd)
  also have "leads junk code tid m (P_settle_cb ?idle f, ?fs, p_world ?pr) (loop_result (worker_after_cb wk pr))"
  proof -
    consider "GetState f ?fs = READY" | "GetState f ?fs \<noteq> READY" "goes_on (GetState f ?fs)"
      | "GetState f ?fs \<noteq> READY" "\<not> goes_on (GetState f ?fs)" by blast
    then show ?thesis
    proof cases
      case 1
      have "leads junk code tid m (P_settle_cb ?idle f, ?fs, p_world ?pr) (Inr (P_schedule ?idle None f, ?fs, p_world ?pr))"
        by (rule leads_branch [OF phase_op.simps(13)]) (use 1 f in \<open>simp_all add: nth_states GetState_def\<close>)
      also have "leads junk code tid m (P_schedule ?idle None f, ?fs, p_world ?pr) (loop_result (worker_after_cb wk pr))"
        using leads_do [of code tid "P_schedule ?idle None f" _ "P_pick ?idle None" junk m ?fs "p_world ?pr"] 1 Some
        by (simp add: worker_after_cb_def Let_def loop_state_def in_sched_upd)
      finally show ?thesis .
    next
      case 2
      have "leads junk code tid m (P_settle_cb ?idle f, ?fs, p_world ?pr) (Inr (P_hold ?idle None f, ?fs, p_world ?pr))"
        by (rule leads_branch [OF phase_op.simps(13)]) (use 2 f in \<open>simp_all add: nth_states GetState_def\<close>)
      also have "leads junk code tid m (P_hold ?idle None f, ?fs, p_world ?pr) (loop_result (worker_after_cb wk pr))"
        using leads_hold [of code tid "P_hold ?idle None f" f "P_pick ?idle None" ?fs junk m "p_world ?pr"] f 2 Some
        by (simp add: worker_after_cb_def Let_def loop_state_def hold_fiber_def goes_on_unfinished)
      finally show ?thesis .
    next
      case 3
      have "leads junk code tid m (P_settle_cb ?idle f, ?fs, p_world ?pr) (Inr (P_clear ?idle f, ?fs, p_world ?pr))"
        by (rule leads_branch [OF phase_op.simps(13)]) (use 3 f in \<open>simp_all add: nth_states GetState_def\<close>)
      also have "leads junk code tid m (P_clear ?idle f, ?fs, p_world ?pr) (loop_result (worker_after_cb wk pr))"
        using leads_reset [of code tid "P_clear ?idle f" f None "P_pick ?idle (Some f)" None ?fs junk m "p_world ?pr"] f 3 Some
        by (cases "Reset f None ?fs") (simp_all add: worker_after_cb_def Let_def loop_state_def goes_on_unfinished)
      finally show ?thesis .
    qed
  qed
  finally show ?thesis .
qed

lemma after_idle_leads:
  assumes wk: "worker_ok (length (fs_store (p_fibers pr))) wk" and pc: "wk_pc wk = W_after_idle"
  shows "leads junk code tid m (loop_state wk pr) (loop_result (worker_after_idle wk pr))"
proof -
  let ?pr = "upd_sched (\<lambda>sc. sc\<lparr>sc_idle := sc_idle sc - 1\<rparr>) pr" and ?fs = "p_fibers pr"
  let ?idle = "wk_idle wk" and ?cb = "wk_cb wk"
  have f: "?idle < length (fs_store ?fs)" using wk by (simp add: worker_ok_def)
  have "leads junk code tid m (loop_state wk pr) (Inr (P_settle_idle ?idle ?cb, ?fs, p_world ?pr))"
    using leads_do [of code tid "P_after_idle ?idle ?cb" _ "P_settle_idle ?idle ?cb" junk m ?fs "p_world pr"] pc
    by (simp add: loop_state_def in_sched_upd)
  also have "leads junk code tid m (P_settle_idle ?idle ?cb, ?fs, p_world ?pr) (loop_result (worker_after_idle wk pr))"
  proof (cases "goes_on (GetState ?idle ?fs)")
    case True
    have "leads junk code tid m (P_settle_idle ?idle ?cb, ?fs, p_world ?pr) (Inr (P_hold ?idle ?cb ?idle, ?fs, p_world ?pr))"
      by (rule leads_branch [OF phase_op.simps(19)]) (use True f in \<open>simp_all add: nth_states GetState_def\<close>)
    also have "leads junk code tid m (P_hold ?idle ?cb ?idle, ?fs, p_world ?pr) (loop_result (worker_after_idle wk pr))"
      using leads_hold [of code tid "P_hold ?idle ?cb ?idle" ?idle "P_pick ?idle ?cb" ?fs junk m "p_world ?pr"] f True
      by (simp add: worker_after_idle_def Let_def loop_state_def hold_fiber_def goes_on_unfinished)
    finally show ?thesis .
  next
    case False
    have "leads junk code tid m (P_settle_idle ?idle ?cb, ?fs, p_world ?pr) (Inr (P_pick ?idle ?cb, ?fs, p_world ?pr))"
      by (rule leads_branch [OF phase_op.simps(19)]) (use False f in \<open>simp_all add: nth_states GetState_def\<close>)
    then show ?thesis using False by (simp add: worker_after_idle_def Let_def loop_state_def goes_on_unfinished)
  qed
  finally show ?thesis .
qed

text \<open>Switching from the loop to a fiber.\<close>

lemma swap_leads:
  assumes op: "phase_op code tid ph = Op_swap_in f ph'" and f: "f < length (fs_store (p_fibers pr))"
    and wf: "wf_fibers (p_fibers pr)" "at_main m (sl_fibers (wk_locals wk)) (p_fibers pr)"
    and after: "\<And>wk'. wk_idle wk' = wk_idle wk \<Longrightarrow> wk_cb wk' = wk_cb wk \<Longrightarrow> wk_ft wk' = wk_ft wk \<Longrightarrow>
      phase_of (wk'\<lparr>wk_pc := pc\<rparr>) = ph'"
  shows "leads junk code tid m (ph, p_fibers pr, p_world pr)
    (loop_result (obind (worker_swap_in f wk pr) (\<lambda>(wk, pr). Inr (wk\<lparr>wk_pc := pc\<rparr>, pr))))"
proof (cases "SwapIn f (sl_fibers (wk_locals wk)) (p_fibers pr) (p_world pr)")
  case (Inl e)
  then show ?thesis
    using leads_swap_in [OF op f wf, of junk "p_world pr"] by (simp add: worker_swap_in_def)
next
  case (Inr x)
  obtain th fs w where x: "x = (th, fs, w)" by (cases x)
  have "phase_of (wk\<lparr>wk_locals := (wk_locals wk)\<lparr>sl_fibers := th\<rparr>, wk_pc := pc\<rparr>) = ph'"
    using after [of "wk\<lparr>wk_locals := (wk_locals wk)\<lparr>sl_fibers := th\<rparr>\<rparr>"] by simp
  then show ?thesis
    using leads_swap_in [OF op f wf, of junk "p_world pr"] Inr x
    by (simp add: worker_swap_in_def loop_state_def del: phase_of.simps)
qed

text \<open>The fiber that a function runs in.\<close>

lemma cb_fiber_leads:
  fixes code :: "nat \<Rightarrow> 'e world coro"
  assumes wf: "wf_fibers (p_fibers pr)" "at_main m th (p_fibers pr)" and malloc: "\<And>n. fe_malloc env n"
    and cb: "\<And>f. cb = Some f \<Longrightarrow> f < length (fs_store (p_fibers pr))"
  shows "leads junk (\<lambda>i. embed_coro (code i)) tid m (P_cb idle cb c, p_fibers pr, p_world pr)
    (case cb_fiber_for env junk (code c) cb pr of
       Inl e \<Rightarrow> Inl e | Inr (f, pr') \<Rightarrow> Inr (P_cb_in idle f, p_fibers pr', p_world pr'))"
proof (cases cb)
  case None
  have "leads junk (\<lambda>i. embed_coro (code i)) tid m (P_cb idle None c, p_fibers pr, p_world pr)
    (Inr (P_cb_in idle (length (fs_store (p_fibers pr))),
          snd (new_Fiber env junk (Some (code c)) 0 False (p_fibers pr)), p_world pr))"
    by (rule leads_new [where ph' = "P_code (embed_coro (code c))" and k = "P_cb_in idle"]) (simp_all add: malloc)
  then show ?thesis using None by (simp add: cb_fiber_for_def new_Fiber_eq Let_def)
next
  case (Some g)
  have "leads junk (\<lambda>i. embed_coro (code i)) tid m (P_cb idle (Some g) c, p_fibers pr, p_world pr)
    (case Reset g (Some (code c)) (p_fibers pr) of Inl e \<Rightarrow> Inl e | Inr fs' \<Rightarrow> Inr (P_cb_in idle g, fs', p_world pr))"
    by (rule leads_reset [where cb = "Some (P_code (embed_coro (code c)))"]) (simp_all add: cb Some)
  then show ?thesis using Some
    by (cases "Reset g (Some (code c)) (p_fibers pr)") (simp_all add: cb_fiber_for_def)
qed

lemma at_main_Reset:
  assumes "wf_fibers fs" "at_main m th fs" "Reset f cb fs = Inr fs'"
  shows "at_main m th fs'"
proof -
  have "wf_fiber (fs_store fs ! m)" using assms(1,2) by (intro wf_fibersD) (simp_all add: at_main_def)
  then have "\<not> fb_stack (fs_store fs ! m)" using assms(2) by (simp add: wf_fiber_def at_main_def)
  then show ?thesis using assms(2,3) by (cases "f = m") (auto simp: Reset_def Let_def at_main_def split: if_splits)
qed

lemma cb_fiber_ok:
  assumes wf: "wf_fibers (p_fibers pr)" "at_main m th (p_fibers pr)" and malloc: "\<And>n. fe_malloc env n"
    and cb: "\<And>f. cb = Some f \<Longrightarrow> f < length (fs_store (p_fibers pr))"
    and r: "cb_fiber_for env junk c cb pr = Inr (f, pr')"
  shows "wf_fibers (p_fibers pr') \<and> at_main m th (p_fibers pr') \<and> f < length (fs_store (p_fibers pr'))"
proof (cases cb)
  case None
  then have "p_fibers pr' = snd (new_Fiber env junk (Some c) 0 False (p_fibers pr))" "f = length (fs_store (p_fibers pr))"
    using r by (auto simp: cb_fiber_for_def new_Fiber_eq Let_def)
  moreover have "length (fs_store (snd (new_Fiber env junk (Some c) 0 False (p_fibers pr)))) = Suc (length (fs_store (p_fibers pr)))"
    by (simp add: new_Fiber_eq Let_def)
  ultimately show ?thesis using wf_new_Fiber [OF wf(1) malloc] at_main_new_Fiber [OF wf(2)] by simp
next
  case (Some g)
  then obtain fs where fs: "Reset g (Some c) (p_fibers pr) = Inr fs" "f = g" "pr' = pr\<lparr>p_fibers := fs\<rparr>"
    using r by (auto simp: cb_fiber_for_def obind_Inr_iff)
  have "length (fs_store fs) = length (fs_store (p_fibers pr))"
    using fs(1) by (auto simp: Reset_def Let_def split: if_splits)
  then show ?thesis using fs(2,3) cb Some wf_Reset [OF wf(1) fs(1)] at_main_Reset [OF wf fs(1)] by simp
qed

text \<open>Where the code goes on from the search of the queue, in the same five cases.\<close>

lemma dispatch_phase_eq:
  assumes "idle < length (fs_store (p_fibers pr))"
    and "\<And>f. ft_fiber ft = Some f \<Longrightarrow> f < length (fs_store (p_fibers pr))"
  shows "dispatch_phase idle cb ft b (map fb_state (fs_store (p_fibers pr))) =
    (case fiber_to_run ft pr of
       Some f \<Rightarrow> P_fiber idle cb f
     | None \<Rightarrow>
         (case ft_cb ft of
            Some c \<Rightarrow> P_cb idle cb c
          | None \<Rightarrow> if b then P_nothing idle cb
                    else if GetState idle (p_fibers pr) = TERM' then P_return else P_idle_count idle cb))"
  using assms
  using goes_on_unfinished by (auto simp: dispatch_phase_def fiber_to_run_def GetState_def split: option.splits)

lemma dispatch_cb_leads:
  fixes code :: "nat \<Rightarrow> 'e world coro"
  assumes wf: "wf_fibers (p_fibers pr)" "at_main m (sl_fibers (wk_locals wk)) (p_fibers pr)"
    and malloc: "\<And>n. fe_malloc env n"
    and cb: "\<And>f. wk_cb wk = Some f \<Longrightarrow> f < length (fs_store (p_fibers pr))"
  shows "leads junk (\<lambda>i. embed_coro (code i)) tid m (P_cb (wk_idle wk) (wk_cb wk) c, p_fibers pr, p_world pr)
    (loop_result (obind (cb_fiber_for env junk (code c) (wk_cb wk) pr) (\<lambda>(f, pr).
       obind (worker_swap_in f (wk\<lparr>wk_cb := Some f, wk_ft := no_task\<rparr>) pr)
         (\<lambda>(wk, pr). Inr (wk\<lparr>wk_pc := W_after_cb\<rparr>, pr)))))"
proof -
  have go: "leads junk (\<lambda>i. embed_coro (code i)) tid m (P_cb (wk_idle wk) (wk_cb wk) c, p_fibers pr, p_world pr)
    (case cb_fiber_for env junk (code c) (wk_cb wk) pr of
       Inl e \<Rightarrow> Inl e | Inr (f, pr') \<Rightarrow> Inr (P_cb_in (wk_idle wk) f, p_fibers pr', p_world pr'))"
    by (rule cb_fiber_leads [OF wf malloc cb])
  show ?thesis
  proof (cases "cb_fiber_for env junk (code c) (wk_cb wk) pr")
    case (Inl e)
    then show ?thesis using go by simp
  next
    case (Inr x)
    obtain f pr' where x: "x = (f, pr')" by (cases x)
    have r: "cb_fiber_for env junk (code c) (wk_cb wk) pr = Inr (f, pr')" using Inr x by simp
    have ok: "wf_fibers (p_fibers pr')" "at_main m (sl_fibers (wk_locals wk)) (p_fibers pr')"
      "f < length (fs_store (p_fibers pr'))"
      using cb_fiber_ok [OF wf malloc _ r] cb by blast+
    have "leads junk (\<lambda>i. embed_coro (code i)) tid m (P_cb (wk_idle wk) (wk_cb wk) c, p_fibers pr, p_world pr)
        (Inr (P_cb_in (wk_idle wk) f, p_fibers pr', p_world pr'))"
      using go r by simp
    also have "leads junk (\<lambda>i. embed_coro (code i)) tid m (P_cb_in (wk_idle wk) f, p_fibers pr', p_world pr')
        (loop_result (obind (worker_swap_in f (wk\<lparr>wk_cb := Some f, wk_ft := no_task\<rparr>) pr')
          (\<lambda>(wk, pr). Inr (wk\<lparr>wk_pc := W_after_cb\<rparr>, pr))))"
      by (rule swap_leads [where ph' = "P_after_cb (wk_idle wk) f"]) (use ok in simp_all)
    finally show ?thesis using r by simp
  qed
qed

lemma dispatch_idle_leads:
  assumes wf: "wf_fibers (p_fibers pr)" "at_main m (sl_fibers (wk_locals wk)) (p_fibers pr)"
    and idle: "wk_idle wk < length (fs_store (p_fibers pr))"
  shows "leads junk code tid m (P_idle_count (wk_idle wk) (wk_cb wk), p_fibers pr, p_world pr)
    (loop_result (obind (worker_swap_in (wk_idle wk) wk (upd_sched (\<lambda>sc. sc\<lparr>sc_idle := sc_idle sc + 1\<rparr>) pr))
       (\<lambda>(wk, pr). Inr (wk\<lparr>wk_pc := W_after_idle\<rparr>, pr))))"
proof -
  let ?idle = "wk_idle wk" and ?cb = "wk_cb wk" and ?pr = "upd_sched (\<lambda>sc. sc\<lparr>sc_idle := sc_idle sc + 1\<rparr>) pr"
  have "leads junk code tid m (P_idle_count ?idle ?cb, p_fibers pr, p_world pr)
      (Inr (P_idle_in ?idle ?cb, p_fibers ?pr, p_world ?pr))"
    using leads_do [of code tid "P_idle_count ?idle ?cb" _ "P_idle_in ?idle ?cb" junk m "p_fibers pr" "p_world pr"]
    by (simp add: in_sched_upd)
  also have "leads junk code tid m (P_idle_in ?idle ?cb, p_fibers ?pr, p_world ?pr)
      (loop_result (obind (worker_swap_in ?idle wk ?pr) (\<lambda>(wk, pr). Inr (wk\<lparr>wk_pc := W_after_idle\<rparr>, pr))))"
    by (rule swap_leads [where ph' = "P_after_idle ?idle ?cb"]) (use idle wf in simp_all)
  finally show ?thesis .
qed

lemma dispatch_leads:
  fixes code :: "nat \<Rightarrow> 'e world coro"
  assumes wf: "wf_fibers (p_fibers pr)" "at_main m (sl_fibers (wk_locals wk)) (p_fibers pr)"
    and malloc: "\<And>n. fe_malloc env n"
    and wk: "worker_ok (length (fs_store (p_fibers pr))) wk" and pc: "wk_pc wk = W_dispatch b"
  shows "leads junk (\<lambda>i. embed_coro (code i)) tid m (loop_state wk pr) (loop_result (worker_dispatch env junk code b wk pr))"
proof -
  let ?idle = "wk_idle wk" and ?cb = "wk_cb wk" and ?ft = "wk_ft wk" and ?fs = "p_fibers pr" and ?w = "p_world pr"
  let ?code = "\<lambda>i. embed_coro (code i)" and ?r = "loop_result (worker_dispatch env junk code b wk pr)"
  define ph :: "'e phase" where "ph = dispatch_phase ?idle ?cb ?ft b (map fb_state (fs_store ?fs))"
  have len: "?idle < length (fs_store ?fs)" "\<And>f. ft_fiber ?ft = Some f \<Longrightarrow> f < length (fs_store ?fs)"
    "\<And>f. ?cb = Some f \<Longrightarrow> f < length (fs_store ?fs)"
    using wk by (simp_all add: worker_ok_def task_in_def)
  have ph: "ph = (case fiber_to_run ?ft pr of
       Some f \<Rightarrow> P_fiber ?idle ?cb f
     | None \<Rightarrow>
         (case ft_cb ?ft of
            Some c \<Rightarrow> P_cb ?idle ?cb c
          | None \<Rightarrow> if b then P_nothing ?idle ?cb
                    else if GetState ?idle ?fs = TERM' then P_return else P_idle_count ?idle ?cb))"
    unfolding ph_def by (rule dispatch_phase_eq [OF len(1,2)])
  have "loop_state wk pr = (P_dispatch ?idle ?cb ?ft b, ?fs, ?w)" using pc by (simp add: loop_state_def)
  moreover have "leads junk ?code tid m (P_dispatch ?idle ?cb ?ft b, ?fs, ?w) (Inr (ph, ?fs, ?w))"
    by (rule leads_branch [OF phase_op.simps(4)]) (simp add: ph_def)
  ultimately have "leads junk ?code tid m (loop_state wk pr) (Inr (ph, ?fs, ?w))" by simp
  also have "leads junk ?code tid m (ph, ?fs, ?w) ?r"
  proof (cases rule: dispatch_cases [of wk pr env junk code b])
    case (fiber f)
    have "leads junk ?code tid m (P_fiber ?idle ?cb f, ?fs, ?w)
        (loop_result (obind (worker_swap_in f wk pr) (\<lambda>(wk, pr). Inr (wk\<lparr>wk_pc := W_after_fiber\<rparr>, pr))))"
      by (rule swap_leads [where ph' = "P_after_fiber ?idle ?cb f"]) (use fiber(2) len wf in simp_all)
    then show ?thesis using fiber(1,3) by (simp add: ph)
  next
    case (cb c)
    have "leads junk ?code tid m (P_cb ?idle ?cb c, ?fs, ?w) ?r"
      unfolding cb(3) by (rule dispatch_cb_leads [OF wf malloc len(3)])
    then show ?thesis using cb(1,2) by (simp add: ph)
  next
    case dropped
    then show ?thesis
      using leads_do [of ?code tid "P_nothing ?idle ?cb" _ "P_pick ?idle ?cb" junk m ?fs ?w]
      by (simp add: ph loop_state_def in_sched_upd)
  next
    case ended
    then show ?thesis using leads_refl by (simp add: ph loop_state_def)
  next
    case idle
    then show ?thesis using dispatch_idle_leads [OF wf len(1)] by (simp add: ph)
  qed
  finally show ?thesis .
qed

text \<open>C12: the steps in which the scheduler's loop is modelled are right: on a worker thread, a step of the
  model from one state of the loop to the next, or to a failure, is a run of the program of
  \<open>Scheduler::run\<close> on the machine that switches contexts, from the same point of the program with the
  same fibers and the same queue to the corresponding one.\<close>

theorem worker_steps_are_runs:
  fixes code :: "nat \<Rightarrow> 'e world coro"
  assumes "wf_fibers (p_fibers pr)" "at_main m (sl_fibers (wk_locals wk)) (p_fibers pr)"
    and "\<And>n. fe_malloc env n"
    and "worker_ok (length (fs_store (p_fibers pr))) wk"
    and "queue_ok (length (fs_store (p_fibers pr))) (w_sched (p_world pr))"
  shows "leads junk (\<lambda>i. embed_coro (code i)) (sl_tid (wk_locals wk)) m
    (loop_state wk pr) (loop_result (worker_step env junk code wk pr))"
proof (cases "wk_pc wk")
  case W_pick
  then show ?thesis using pick_leads [OF assms(5) W_pick] by (simp add: worker_step_def)
next
  case (W_dispatch b)
  show ?thesis using dispatch_leads [OF assms(1-4) W_dispatch] W_dispatch by (simp add: worker_step_def)
next
  case W_after_fiber
  then show ?thesis using after_fiber_leads [OF assms(4) W_after_fiber] by (simp add: worker_step_def)
next
  case W_after_cb
  then show ?thesis using after_cb_leads [OF assms(4) W_after_cb] by (simp add: worker_step_def)
next
  case W_after_idle
  then show ?thesis using after_idle_leads [OF assms(4) W_after_idle] by (simp add: worker_step_def)
next
  case W_exit
  then show ?thesis by (simp add: worker_step_def leads_refl)
qed

text \<open>The machine of the small process.\<close>

definition sample_machine :: "'s code \<Rightarrow> 's code \<Rightarrow> 's \<Rightarrow> 's machine" where
  "sample_machine cb c w =
     \<lparr>ma_fibers =
        [\<lparr>mf_state = EXEC, mf_stack = False, mf_callback = None, mf_context = None, mf_gen = 0\<rparr>,
         \<lparr>mf_state = INIT, mf_stack = True, mf_callback = Some cb, mf_context = own 1 0 (Enter MainFunc), mf_gen = 0\<rparr>],
      ma_this = 0, ma_thread_fiber = 0, ma_stack = 0, ma_point = On_main c, ma_world = w\<rparr>"

theorem worker_steps_are_runs_witness:
  "(let pr = sample_process (Coro Return) [fiber_task (Some 1) 7];
        code = \<lambda>i. embed_coro (Coro Return);
        M = sample_machine (embed_coro (Coro Return)) (run_code code 7 (phase_of (sample_worker 7))) (p_world pr)
    in \<exists>wk' pr' M'. worker_step \<lparr>fe_stack_size = 1024, fe_malloc = \<lambda>n. True\<rparr> False (\<lambda>i. Coro Return) (sample_worker 7) pr
         = Inr (wk', pr') \<and>
       msteps False M M' \<and> at_phase code 7 0 (loop_state wk' pr') M' \<and> wk_pc wk' = W_dispatch True)"
proof -
  let ?pr = "sample_process (Coro Return) [fiber_task (Some 1) 7]" and ?wk = "sample_worker 7"
  let ?code = "\<lambda>i :: nat. embed_coro (Coro Return :: nat world coro)"
  let ?env = "\<lparr>fe_stack_size = 1024, fe_malloc = \<lambda>n. True\<rparr>"
  let ?M = "sample_machine (embed_coro (Coro Return)) (run_code ?code 7 (phase_of ?wk)) (p_world ?pr)"
  have "worker_pick ?wk ?pr = Inr (?wk\<lparr>wk_ft := fiber_task (Some 1) 7, wk_pc := W_dispatch True\<rparr>, taken [] False ?pr)"
    by (rule worker_pick_taken) (simp add: sample_simps GetState_def)
  then have s: "worker_step ?env False (\<lambda>i. Coro Return) ?wk ?pr
      = Inr (?wk\<lparr>wk_ft := fiber_task (Some 1) 7, wk_pc := W_dispatch True\<rparr>, taken [] False ?pr)"
    by (simp add: worker_step_def sample_worker_def)
  have "at_phase ?code 7 0 (loop_state ?wk ?pr) ?M"
    by (simp add: at_phase_def loop_state_def implements_def sample_machine_def sample_process_def mirrors_def
        own_def less_Suc_eq del: phase_of.simps)
  moreover have "leads False ?code (sl_tid (wk_locals ?wk)) 0 (loop_state ?wk ?pr)
      (loop_result (worker_step ?env False (\<lambda>i. Coro Return) ?wk ?pr))"
    by (rule worker_steps_are_runs)
      (simp_all add: sample_wf, simp_all add: sample_simps worker_ok_def queue_ok_def task_in_def nonempty_task_def)
  ultimately have "\<exists>M'. msteps False ?M M' \<and>
      at_phase ?code 7 0 (loop_state (?wk\<lparr>wk_ft := fiber_task (Some 1) 7, wk_pc := W_dispatch True\<rparr>) (taken [] False ?pr)) M'"
    unfolding s leads_def by (simp add: sample_worker_def del: phase_of.simps)
  then show ?thesis unfolding Let_def s by (auto simp del: phase_of.simps)
qed

end
