(* ===== verification/RootFiber.thy ===== *)
theory RootFiber
  imports SchedulerCode
begin

text \<open>
  The scheduler's loop on the root fiber. \<open>Scheduler::stop\<close> of \<open>primo/schedule.cpp\<close> calls the root
  fiber of a scheduler made with \<open>use_caller\<close>, to run the remaining tasks on the calling thread. The
  call saves the point to return to in the context of the thread's main fiber; the loop's own switches
  save over it, since \<open>Fiber::SwapIn\<close> always saves there.
\<close>

subsection \<open>A lost stack\<close>

text \<open>The main stack \<open>m\<close> is not running, and no context of the fibers \<open>fs\<close> leads to it.\<close>

definition leads_off :: "nat \<Rightarrow> 's mfiber \<Rightarrow> bool" where
  "leads_off m b \<longleftrightarrow> (\<forall>c. mf_context b = Some c \<longrightarrow> cx_stack c \<noteq> m)"

definition away :: "nat \<Rightarrow> nat set \<Rightarrow> 's machine \<Rightarrow> bool" where
  "away m fs M \<longleftrightarrow>
     ma_thread_fiber M = m \<and> m < length (ma_fibers M) \<and> \<not> mf_stack (ma_fibers M ! m) \<and> ma_stack M \<noteq> m \<and>
     (\<forall>f < length (ma_fibers M). f \<in> fs \<longrightarrow> leads_off m (ma_fibers M ! f))"

abbreviation lost :: "nat \<Rightarrow> 's machine \<Rightarrow> bool" where
  "lost m \<equiv> away m UNIV"

lemma away_frame [simp]:
  "away m fs (M\<lparr>ma_point := p\<rparr>) = away m fs M"
  "away m fs (M\<lparr>ma_world := w, ma_point := p\<rparr>) = away m fs M"
  "away m fs (M\<lparr>ma_this := t\<rparr>) = away m fs M"
  "away m fs (M\<lparr>ma_world := w\<rparr>) = away m fs M"
  by (simp_all add: away_def)

lemma away_upd:
  assumes "away m fs M" "mf_stack (g (ma_fibers M ! f)) = mf_stack (ma_fibers M ! f)"
    "f < length (ma_fibers M) \<Longrightarrow> f \<in> gs \<Longrightarrow> leads_off m (g (ma_fibers M ! f))" "gs - {f} \<subseteq> fs"
  shows "away m gs (mupd f g M)"
  using assms unfolding away_def by (simp add: nth_update_if) blast

lemma away_swapcontext:
  assumes "away m fs M" "swapcontext from to p M = Running M'" "to < length (ma_fibers M)"
    "to \<in> insert from fs"
  shows "away m (insert from fs) M'"
proof -
  let ?M = "mupd from (\<lambda>b. b\<lparr>mf_context :=
    Some \<lparr>cx_stack = ma_stack M, cx_gen = mf_gen (ma_fibers M ! ma_stack M), cx_point = p\<rparr>\<rparr>) M"
  obtain c where c: "mf_context (ma_fibers ?M ! to) = Some c"
    and M': "M' = (mupd (cx_stack c) (\<lambda>b. b\<lparr>mf_gen := Suc (mf_gen b)\<rparr>) ?M)\<lparr>ma_stack := cx_stack c, ma_point := cx_point c\<rparr>"
    using assms(2) by (auto simp: swapcontext_def Let_def split: option.splits if_splits)
  have 1: "away m (insert from fs) ?M"
    using assms(1) by (rule away_upd) (use assms(1) in \<open>auto simp: leads_off_def away_def\<close>)
  then have "cx_stack c \<noteq> m" using c assms(3,4) by (auto simp: away_def leads_off_def)
  moreover have "away m (insert from fs) (mupd (cx_stack c) (\<lambda>b. b\<lparr>mf_gen := Suc (mf_gen b)\<rparr>) ?M)"
    using 1 by (rule away_upd) (use 1 in \<open>auto simp: away_def leads_off_def\<close>)
  ultimately show ?thesis unfolding M' by (simp add: away_def)
qed

text \<open>Once lost, the main stack stays lost, whatever the programs do.\<close>

lemma lost_swapcontext:
  "lost m M \<Longrightarrow> swapcontext from to p M = Running M' \<Longrightarrow> to < length (ma_fibers M) \<Longrightarrow> lost m M'"
  using away_swapcontext [of m UNIV M "from" to p M'] by simp

lemma lost_set_mstate [simp]: "lost m (set_mstate f st M) = lost m M"
  by (auto simp: set_mstate_def away_def nth_update_if leads_off_def)

lemma length_set_mstate [simp]: "length (ma_fibers (set_mstate f st M)) = length (ma_fibers M)"
  by (simp add: set_mstate_def)

lemma lost_mSwapOut: "lost m M \<Longrightarrow> x \<in> {mSwapOut, mBack} \<Longrightarrow> x f p M = Running M' \<Longrightarrow> lost m M'"
  by (auto simp: mSwapOut_def mBack_def elim!: lost_swapcontext [rotated]) (simp_all add: away_def)

lemma lost_mleave: "lost m M \<Longrightarrow> mleave e f M = Running M' \<Longrightarrow> lost m M'"
  using lost_mSwapOut [of m M mSwapOut f "Ended e f" M'] lost_mSwapOut [of m M mBack f "Ended e f" M']
  by (cases e) (simp_all add: mleave_def)

lemma lost_step_op:
  assumes l: "lost m M" and r: "step_op junk at o' M = Running M'"
  shows "lost m M'"
proof (cases o')
  case (Op_new cb k)
  then show ?thesis using assms by (auto simp: step_op_def mnew_def away_def nth_append leads_off_def less_Suc_eq)
next
  case (Op_reset f cb k)
  then obtain M1 where M1: "mReset f cb M = Inr M1" "M' = M1\<lparr>ma_point := at k\<rparr>" "f < length (ma_fibers M)"
    using r by (auto simp: step_op_def on_fiber_def split: sum.splits if_splits)
  then have "mf_stack (ma_fibers M ! f)" by (auto simp: mReset_def Let_def split: if_splits)
  then have "f \<noteq> m" using l by (auto simp: away_def)
  then show ?thesis using M1 l
    by (auto simp: mReset_def Let_def leads_off_def away_def nth_update_if split: if_splits)
next
  case (Op_yield_ready k)
  then show ?thesis using assms lost_mSwapOut [of m "set_mstate (ma_this M) READY M"]
    by (auto simp: step_op_def mYieldToReady_def split: if_splits)
next
  case (Op_yield_hold k)
  then show ?thesis using assms lost_mSwapOut [of m M]
    by (auto simp: step_op_def mYieldToHold_def split: if_splits)
next
  case (Op_swap_in f k)
  then show ?thesis using assms lost_swapcontext [of m "set_mstate f EXEC (M\<lparr>ma_this := f\<rparr>)"]
    by (auto simp: step_op_def on_fiber_def mSwapIn_def split: if_splits)
next
  case (Op_call f k)
  then show ?thesis using assms lost_swapcontext [of m "set_mstate f EXEC (M\<lparr>ma_this := f\<rparr>)"]
    by (auto simp: step_op_def on_fiber_def mCall_def split: if_splits)
qed (use assms in \<open>auto simp: step_op_def on_fiber_def split: if_splits\<close>)

lemma lost_mstep:
  assumes l: "lost m M" and r: "mstep junk M = Running M'"
  shows "lost m M'"
proof (cases "ma_point M")
  case (Inside e cur c)
  have "lost m (mupd cur (\<lambda>b. b\<lparr>mf_callback := None, mf_state := TERM'\<rparr>) M)"
    using l by (rule away_upd) (use l in \<open>auto simp: away_def leads_off_def\<close>)
  then show ?thesis
    using Inside r l lost_mleave [of m "set_mstate cur EXCEPT M" e cur M']
      lost_mleave [of m "mupd cur (\<lambda>b. b\<lparr>mf_callback := None, mf_state := TERM'\<rparr>) M" e cur M'] lost_step_op [OF l, of junk "Inside e cur"]
    by (cases "next_op c") (auto simp: mstep_def)
next
  case (On_main c)
  then show ?thesis using r lost_step_op [OF l, of junk On_main] by (simp add: mstep_def)
qed (use l r in \<open>auto simp: mstep_def\<close>)

subsection \<open>The loop before its first switch\<close>

text \<open>The phases that the loop can be in before it has switched to a fiber: there is no spare fiber for
  functions yet, and the idle fiber is new.\<close>

definition new_idle :: "fiber_state list \<Rightarrow> nat \<Rightarrow> nat option \<Rightarrow> bool" where
  "new_idle states idle cb \<longleftrightarrow> cb = None \<and> idle < length states \<and> states ! idle = INIT"

fun early :: "fiber_state list \<Rightarrow> 'e phase \<Rightarrow> bool" where
  "early states P_begin = True"
| "early states (P_pick idle cb) = new_idle states idle cb"
| "early states (P_picked idle cb ft rest tickle_me) = new_idle states idle cb"
| "early states (P_dispatch idle cb ft is_active) = new_idle states idle cb"
| "early states (P_nothing idle cb) = new_idle states idle cb"
| "early states (P_fiber idle cb f) = True"
| "early states (P_cb idle cb c) = (cb = None)"
| "early states (P_cb_in idle f) = True"
| "early states (P_idle_count idle cb) = True"
| "early states (P_idle_in idle cb) = True"
| "early states (P_fail e) = True"
| "early states ph = False"

abbreviation mstates :: "'s machine \<Rightarrow> fiber_state list" where
  "mstates M \<equiv> map mf_state (ma_fibers M)"

definition before_switch :: "(nat \<Rightarrow> 'e world code) \<Rightarrow> int \<Rightarrow> nat \<Rightarrow> nat \<Rightarrow> 'e world machine \<Rightarrow> bool" where
  "before_switch code tid m r M \<longleftrightarrow>
     away m (- {m}) M \<and> mstate m M = EXEC \<and>
     (ma_this M = r \<and> mf_callback (ma_fibers M ! r) = Some (run_code code tid P_begin) \<and> (\<exists>e. ma_point M = Enter e) \<or>
      (\<exists>e ph. ma_point M = Inside e r (run_code code tid ph) \<and> early (mstates M) ph))"

lemma away_mnew: "away m fs M \<Longrightarrow> away m fs (mnew junk cb M)"
  by (auto simp: mnew_def away_def nth_append leads_off_def less_Suc_eq)

lemma switch_loses:
  assumes "away m (- {m}) M" "mstate m M = EXEC" "on_fiber f (mSwapIn f p M) M = Running M'"
  shows "lost m M'"
proof -
  have f: "f < length (ma_fibers M)" "mstate f M \<noteq> EXEC"
    and s: "swapcontext m f p (set_mstate f EXEC (M\<lparr>ma_this := f\<rparr>)) = Running M'"
    using assms by (auto simp: on_fiber_def mSwapIn_def away_def split: if_splits)
  have "away m (- {m}) (set_mstate f EXEC (M\<lparr>ma_this := f\<rparr>))"
    unfolding set_mstate_def using assms(1) by (intro away_upd [of m "- {m}"]) (auto simp: away_def leads_off_def)
  moreover have "insert m (- {m}) = UNIV" by blast
  ultimately show ?thesis using away_swapcontext [of m "- {m}" _ m f p M'] s f by simp
qed

lemma early_dispatch:
  assumes "new_idle states idle cb"
  shows "early states (dispatch_phase idle cb ft is_active states)"
  using assms by (auto simp: dispatch_phase_def new_idle_def split: option.splits)

text \<open>Steps of the program inside the root fiber.\<close>

lemma inside_ops:
  assumes "ma_point M = Inside e r (run_code code tid ph)"
  shows "phase_op code tid ph = Op_do g ph' \<Longrightarrow> mstep junk M =
      Running (M\<lparr>ma_world := g (ma_world M), ma_point := Inside e r (run_code code tid ph')\<rparr>)"
    "phase_op code tid ph = Op_branch b \<Longrightarrow> mstep junk M =
      Running (M\<lparr>ma_point := Inside e r (run_code code tid (b (ma_world M) (mstates M)))\<rparr>)"
    "phase_op code tid ph = Op_new cb k \<Longrightarrow> mstep junk M =
      Running ((mnew junk (map_option (run_code code tid) cb) M)
        \<lparr>ma_point := Inside e r (run_code code tid (k (length (ma_fibers M))))\<rparr>)"
    "phase_op code tid ph = Op_swap_in f ph' \<Longrightarrow> mstep junk M =
      on_fiber f (mSwapIn f (Inside e r (run_code code tid ph')) M) M"
    "phase_op code tid ph = Op_fail x \<Longrightarrow> mstep junk M = Failed x"
  using assms by (simp_all add: mstep_def step_op_def)

lemma before_switch_inside:
  assumes "away m (- {m}) M" "mstate m M = EXEC" "early (mstates M) ph"
  shows "before_switch code tid m r (M\<lparr>ma_point := Inside e r (run_code code tid ph)\<rparr>)"
    "before_switch code tid m r (M\<lparr>ma_world := w, ma_point := Inside e r (run_code code tid ph)\<rparr>)"
  using assms by (auto simp: before_switch_def mstate_def)

lemma before_switch_new:
  assumes aw: "away m (- {m}) M" "mstate m M = EXEC"
    and e: "early (mstates M @ [INIT]) ph"
  shows "before_switch code tid m r ((mnew junk cb M)\<lparr>ma_point := Inside e r (run_code code tid ph)\<rparr>)"
proof (rule before_switch_inside(1))
  show "away m (- {m}) (mnew junk cb M)" using aw(1) by (rule away_mnew)
  show "mstate m (mnew junk cb M) = EXEC" using aw by (auto simp: mstate_def mnew_def nth_append away_def)
  show "early (mstates (mnew junk cb M)) ph" using e by (simp add: mnew_def)
qed

lemma stays:
  assumes aw: "away m (- {m}) M" "mstate m M = EXEC" and at: "ma_point M = Inside e r (run_code code tid ph)"
    and r: "mstep junk M = Running M'"
  shows "phase_op code tid ph = Op_do g ph' \<Longrightarrow> early (mstates M) ph' \<Longrightarrow> before_switch code tid m r M'"
    "phase_op code tid ph = Op_branch b \<Longrightarrow> early (mstates M) (b (ma_world M) (mstates M)) \<Longrightarrow>
      before_switch code tid m r M'"
    "phase_op code tid ph = Op_new cb k \<Longrightarrow> early (mstates M @ [INIT]) (k (length (ma_fibers M))) \<Longrightarrow>
      before_switch code tid m r M'"
    "phase_op code tid ph = Op_swap_in f ph' \<Longrightarrow> lost m M'"
    "phase_op code tid ph = Op_fail x \<Longrightarrow> False"
  using r inside_ops [OF at] before_switch_inside [OF aw] before_switch_new [OF aw] switch_loses [OF aw]
  by (metis progress.inject(1), metis progress.inject(1), metis progress.inject(1), metis, metis progress.distinct(3))

lemma before_switch_phase:
  assumes aw: "away m (- {m}) M" "mstate m M = EXEC" and ph: "early (mstates M) ph"
    and at: "ma_point M = Inside e r (run_code code tid ph)" and r: "mstep junk M = Running M'"
  shows "before_switch code tid m r M' \<or> lost m M'"
proof (cases ph)
  case P_begin
  have "early (mstates M @ [INIT]) (P_pick (length (ma_fibers M)) None)" by (simp add: new_idle_def nth_append)
  then show ?thesis using stays(3) [OF aw at r phase_op.simps(1) [of code tid, folded P_begin]] by simp
next
  case (P_pick idle cb)
  show ?thesis using stays(2) [OF aw at r phase_op.simps(2) [of code tid idle cb, folded P_pick]]
    ph P_pick by (simp split: sum.split)
next
  case (P_picked idle cb ft rest tk)
  show ?thesis using stays(1) [OF aw at r phase_op.simps(3) [of code tid idle cb ft rest tk, folded P_picked]]
    ph P_picked by simp
next
  case (P_dispatch idle cb ft act)
  show ?thesis using stays(2) [OF aw at r phase_op.simps(4) [of code tid idle cb ft act, folded P_dispatch]]
    ph P_dispatch by (simp add: early_dispatch)
next
  case (P_nothing idle cb)
  show ?thesis using stays(1) [OF aw at r phase_op.simps(15) [of code tid idle cb, folded P_nothing]]
    ph P_nothing by simp
next
  case (P_idle_count idle cb)
  show ?thesis using stays(1) [OF aw at r phase_op.simps(16) [of code tid idle cb, folded P_idle_count]]
    ph P_idle_count by simp
next
  case (P_cb idle cb c)
  then show ?thesis
    using stays(3) [OF aw at r, of "Some (P_code (code c))" "P_cb_in idle"] ph by simp
next
  case (P_fiber idle cb f)
  then show ?thesis using stays(4) [OF aw at r, of f "P_after_fiber idle cb f"] by simp
next
  case (P_cb_in idle f)
  then show ?thesis using stays(4) [OF aw at r, of f "P_after_cb idle f"] by simp
next
  case (P_idle_in idle cb)
  then show ?thesis using stays(4) [OF aw at r, of idle "P_after_idle idle cb"] by simp
next
  case (P_fail x)
  then show ?thesis using stays(5) [OF aw at r, of x] by simp
qed (use ph in simp_all)

lemma before_switch_step:
  assumes b: "before_switch code tid m r M" and r: "mstep junk M = Running M'"
  shows "before_switch code tid m r M' \<or> lost m M'"
proof -
  have aw: "away m (- {m}) M" "mstate m M = EXEC" using b by (simp_all add: before_switch_def)
  consider e where "ma_this M = r" "mf_callback (ma_fibers M ! r) = Some (run_code code tid P_begin)" "ma_point M = Enter e"
    | e ph where "ma_point M = Inside e r (run_code code tid ph)" "early (mstates M) ph"
    using b by (auto simp: before_switch_def)
  then show ?thesis
  proof cases
    case 1
    then have "M' = M\<lparr>ma_point := Inside e r (run_code code tid P_begin)\<rparr>" using r by (simp add: mstep_def)
    then show ?thesis using before_switch_inside(1) [OF aw, of P_begin] by simp
  next
    case 2
    then show ?thesis using before_switch_phase [OF aw 2(2,1) r] by simp
  qed
qed

subsection \<open>\<open>stop\<close> does not return\<close>

text \<open>The thread \<open>m\<close> is in \<open>stop\<close>, about to call the root fiber \<open>r\<close>, which has not run yet; \<open>rest\<close> is
  what \<open>stop\<close> does after the call.\<close>

definition calls_root :: "(nat \<Rightarrow> 'e world code) \<Rightarrow> int \<Rightarrow> nat \<Rightarrow> nat \<Rightarrow> 'e world code \<Rightarrow> 'e world machine \<Rightarrow> bool" where
  "calls_root code tid m r rest M \<longleftrightarrow>
     ma_point M = On_main (Code (Op_call r rest)) \<and> ma_stack M = m \<and> ma_thread_fiber M = m \<and>
     m < length (ma_fibers M) \<and> r < length (ma_fibers M) \<and> r \<noteq> m \<and>
     \<not> mf_stack (ma_fibers M ! m) \<and> mstate m M = EXEC \<and>
     mf_callback (ma_fibers M ! r) = Some (run_code code tid P_begin) \<and>
     (\<exists>e. mf_context (ma_fibers M ! r) = own r (mf_gen (ma_fibers M ! r)) (Enter e)) \<and>
     (\<forall>f < length (ma_fibers M). f \<noteq> m \<longrightarrow> leads_off m (ma_fibers M ! f))"

lemma calls_root_step:
  assumes c: "calls_root code tid m r rest M" and step: "mstep junk M = Running M'"
  shows "before_switch code tid m r M'"
proof -
  obtain e where e: "mf_context (ma_fibers M ! r) = own r (mf_gen (ma_fibers M ! r)) (Enter e)"
    using c by (auto simp: calls_root_def)
  have "mstep junk M = swapcontext (ma_thread_fiber M) r (On_main rest) (set_mstate r EXEC (M\<lparr>ma_this := r\<rparr>))"
    using c by (simp add: calls_root_def mstep_def step_op_def on_fiber_def mCall_def)
  also have "\<dots> = Running (visited r m rest M)"
    using c e by (intro switch_to) (simp_all add: calls_root_def)
  finally have M': "M' = visited r m rest M" using step by simp
  have "away m (- {m}) M'"
    using c e by (auto simp: M' visited_def away_def calls_root_def nth_update_if leads_off_def own_def)
  moreover have "mstate m M' = EXEC" "ma_this M' = r" "ma_point M' = Enter e"
    "mf_callback (ma_fibers M' ! r) = Some (run_code code tid P_begin)"
    using c e by (simp_all add: M' visited_def calls_root_def mstate_def own_def)
  ultimately show ?thesis by (auto simp: before_switch_def)
qed

lemma never_back:
  assumes "msteps junk M M'" "before_switch code tid m r M \<or> lost m M"
  shows "before_switch code tid m r M' \<or> lost m M'"
  using assms by (induction rule: msteps.induct) (use before_switch_step lost_mstep in blast)+

text \<open>C11: \<open>stop\<close> of a scheduler that uses its caller's thread never returns once it has called the root
  fiber: whatever the tasks and functions are, and however often the loop switches, the thread's
  own stack does not run again, so that what follows the call, the joining of the workers, is never
  done. (The steps end in undefined behaviour, a failure, or not at all.)\<close>

theorem stop_never_returns:
  assumes "calls_root code tid m r rest M" and "msteps junk M M'" and "M' \<noteq> M"
  shows "ma_stack M' \<noteq> m"
  using assms(2)
proof cases
  case (msteps_step M1)
  have "before_switch code tid m r M' \<or> lost m M'"
    using never_back [OF msteps_step(2)] calls_root_step [OF assms(1) msteps_step(1)] by blast
  then show ?thesis by (auto simp: before_switch_def away_def)
qed (use assms(3) in simp)

text \<open>A scheduler with no threads of its own and one function in the queue, which returns at once: the
  thread is in \<open>stop\<close>. The run ends with the root fiber's last switch, which would resume its own
  stack at a point it has left.\<close>

definition root_sample :: "unit world machine" where
  "root_sample =
     \<lparr>ma_fibers =
        [\<lparr>mf_state = EXEC, mf_stack = False, mf_callback = None, mf_context = None, mf_gen = 0\<rparr>,
         \<lparr>mf_state = INIT, mf_stack = True, mf_callback = Some (run_code (\<lambda>i. Code Op_return) 7 P_begin),
          mf_context = own 1 0 (Enter MainFunc), mf_gen = 0\<rparr>],
      ma_this = 0, ma_thread_fiber = 0, ma_stack = 0,
      ma_point = On_main (Code (Op_call 1 (Code Op_return))),
      ma_world = \<lparr>w_sched = (initial_scheduler ''s'')\<lparr>sc_fibers := [cb_task (Some 3) (-1)], sc_rootFiber := Some 1,
        sc_autoStop := True\<rparr>, w_rest = ()\<rparr>\<rparr>"

fun mrun :: "bool \<Rightarrow> nat \<Rightarrow> 's machine \<Rightarrow> 's progress" where
  "mrun junk 0 M = Running M"
| "mrun junk (Suc n) M = (case mstep junk M of Running M' \<Rightarrow> mrun junk n M' | r \<Rightarrow> r)"

lemmas machine_defs = mstep_def step_op_def on_fiber_def mCall_def mSwapIn_def mSwapOut_def mBack_def
  mleave_def swapcontext_def Let_def mupd_def set_mstate_def mstate_def mnew_def mReset_def own_def
  dispatch_phase_def goes_on_def in_sched_def no_task_def cb_task_def initial_scheduler_def tickle_def
  stopping_def

lemma mrun_Undefined: "mrun junk n M = Undefined \<Longrightarrow> \<exists>M'. msteps junk M M' \<and> mstep junk M' = Undefined"
  by (induction n arbitrary: M) (auto split: progress.splits intro: msteps.intros)

lemma root_sample_run: "mrun False 40 root_sample = Undefined" "mstep False root_sample \<noteq> Undefined"
  by (simp_all add: root_sample_def machine_defs eval_nat_numeral)

theorem stop_never_returns_witness:
  "\<exists>M'. msteps False root_sample M' \<and> ma_stack M' \<noteq> 0 \<and> mstep False M' = Undefined"
proof -
  obtain M' where M': "msteps False root_sample M'" "mstep False M' = Undefined"
    using mrun_Undefined [OF root_sample_run(1)] by blast
  have "calls_root (\<lambda>i. Code Op_return) 7 0 1 (Code Op_return) root_sample"
    by (simp add: calls_root_def root_sample_def mstate_def own_def leads_off_def less_Suc_eq)
  from stop_never_returns [OF this M'(1)] show ?thesis using M' root_sample_run(2) by metis
qed

end
