(* ===== verification/RoundRobin.thy ===== *)
theory RoundRobin
  imports SchedulerProps
begin

text \<open>
  What a single worker of the scheduler amounts to for jobs that do not touch the scheduler: the
  loop of \<open>Scheduler::run\<close>, with its queue, fibers, spare fiber and counters, is a round robin over
  programs. It runs every job that ends to its end, and after \<open>stop\<close> has been asked for, the worker
  leaves its loop.
\<close>

subsection \<open>Jobs\<close>

text \<open>A job is a program over the rest of the process only.\<close>

primrec lift_op :: "('e, 'e coro) stretch \<Rightarrow> ('e world, 'e coro) stretch" where
  "lift_op Return = Return"
| "lift_op (Raise x) = Raise x"
| "lift_op (Do g p) = Do (w_rest_update g) (lift_op p)"
| "lift_op (Branch k) = Branch (\<lambda>w. lift_op (k (w_rest w)))"
| "lift_op (Yield_ready c) = Yield_ready c"
| "lift_op (Yield_hold c) = Yield_hold c"

primcorec lift_job :: "'e coro \<Rightarrow> 'e world coro" where
  "lift_job d = Coro (map_stretch lift_job (lift_op (next_stretch d)))"

lemma run_lift_stretch:
  "run_stretch (map_stretch h (lift_op p)) w =
     (case run_stretch p (w_rest w) of (e, r) \<Rightarrow> (w\<lparr>w_rest := e\<rparr>, map_stop h r))"
  by (induction p arbitrary: w) auto

lemma run_lift_job:
  "run_coro (lift_job d) w =
     (case run_coro d (w_rest w) of (e, r) \<Rightarrow> (w\<lparr>w_rest := e\<rparr>, map_stop lift_job r))"
  by (simp add: run_coro_def run_lift_stretch)

text \<open>Round robin: the first job runs up to its next yield and goes to the end of the row.\<close>

inductive round_robin :: "'e coro list \<Rightarrow> 'e \<Rightarrow> 'e \<Rightarrow> bool" where
  rr_done: "round_robin [] e e"
| rr_ends: "run_coro d e = (e1, Finished) \<Longrightarrow> round_robin ds e1 e' \<Longrightarrow> round_robin (d # ds) e e'"
| rr_fails: "run_coro d e = (e1, Raised x) \<Longrightarrow> round_robin ds e1 e' \<Longrightarrow> round_robin (d # ds) e e'"
| rr_yields: "run_coro d e = (e1, Ready_at d') \<Longrightarrow> round_robin (ds @ [d']) e1 e' \<Longrightarrow> round_robin (d # ds) e e'"

text \<open>A job that ends after at most \<open>n\<close> yields and never waits to be held.\<close>

fun ends_in :: "nat \<Rightarrow> 'e coro \<Rightarrow> bool" where
  "ends_in 0 d \<longleftrightarrow> (\<forall>e. \<exists>e' x. run_coro d e = (e', Finished) \<or> run_coro d e = (e', Raised x))"
| "ends_in (Suc n) d \<longleftrightarrow>
     (\<forall>e. (\<exists>e' x. run_coro d e = (e', Finished) \<or> run_coro d e = (e', Raised x)) \<or>
          (\<exists>e' d'. run_coro d e = (e', Ready_at d') \<and> ends_in n d'))"

lemma jobs_end: "list_all2 ends_in ns ds \<Longrightarrow> \<exists>e'. round_robin ds e e'"
proof (induction "sum_list ns + length ns" arbitrary: ns ds e rule: less_induct)
  case less
  show ?case
  proof (cases ds)
    case Nil
    then show ?thesis by (auto intro: rr_done)
  next
    case (Cons d rest)
    then obtain n ms where ns: "ns = n # ms" "ends_in n d" "list_all2 ends_in ms rest"
      using less.prems by (cases ns) auto
    have stop: "\<exists>e'. round_robin ds e e'"
      if "run_coro d e = (e1, Finished) \<or> run_coro d e = (e1, Raised x)" for e1 x
    proof -
      obtain e' where "round_robin rest e1 e'" using less.hyps [of ms rest e1] ns by auto
      then show ?thesis using that by (auto simp: Cons intro: rr_ends rr_fails)
    qed
    show ?thesis
    proof (cases n)
      case 0
      then show ?thesis using ns(2) stop by auto
    next
      case (Suc k)
      then consider e1 x where "run_coro d e = (e1, Finished) \<or> run_coro d e = (e1, Raised x)"
        | e1 d' where "run_coro d e = (e1, Ready_at d')" "ends_in k d'" using ns(2) unfolding Suc ends_in.simps by meson
      then show ?thesis
      proof cases
        case 1
        then show ?thesis by (rule stop)
      next
        case 2
        have "list_all2 ends_in (ms @ [k]) (rest @ [d'])" using ns(3) 2(2) by (simp add: list_all2_appendI)
        then obtain e' where "round_robin (rest @ [d']) e1 e'"
          using less.hyps [of "ms @ [k]" "rest @ [d']" e1] ns(1) Suc by auto
        then show ?thesis using 2(1) by (auto simp: Cons intro: rr_yields)
      qed
    qed
  qed
qed

subsection \<open>A worker with jobs\<close>

text \<open>A fiber that can be switched to; a task that is a job for the thread \<open>tid\<close>; the fibers of a queue.\<close>

definition runnable :: "'s fibers \<Rightarrow> nat \<Rightarrow> bool" where
  "runnable fs f \<longleftrightarrow> f < length (fs_store fs) \<and> GetState f fs \<in> {INIT, READY, HOLD}"

definition job :: "(nat \<Rightarrow> 'e world coro) \<Rightarrow> int \<Rightarrow> 'e world fibers \<Rightarrow> task \<Rightarrow> 'e coro \<Rightarrow> bool" where
  "job code tid fs t d \<longleftrightarrow> \<not> elsewhere tid t \<and>
     (case ft_fiber t of
        Some f \<Rightarrow> runnable fs f \<and> program_left (fs_store fs ! f) = lift_job d
      | None \<Rightarrow> (\<exists>i. ft_cb t = Some i \<and> code i = lift_job d))"

definition queue_fibers :: "task list \<Rightarrow> nat list" where
  "queue_fibers q = List.map_filter ft_fiber q"

definition spare_list :: "nat option \<Rightarrow> nat list" where
  "spare_list cb = (case cb of Some f \<Rightarrow> [f] | None \<Rightarrow> [])"

lemma queue_fibers_simps [simp]:
  "queue_fibers [] = []"
  "queue_fibers (t # q) = (case ft_fiber t of Some f \<Rightarrow> f # queue_fibers q | None \<Rightarrow> queue_fibers q)"
  "queue_fibers (q @ q') = queue_fibers q @ queue_fibers q'"
  by (simp_all add: queue_fibers_def List.map_filter_def split: option.split)

text \<open>The worker is at the top of its loop, on its main fiber \<open>m\<close>; its queue is the jobs \<open>ds\<close>, and the
  fibers of the jobs, its spare fiber and its idle fiber are different ones.\<close>

definition fibers_ready :: "(nat \<Rightarrow> 'e world coro) \<Rightarrow> int \<Rightarrow> nat \<Rightarrow> tls \<Rightarrow> nat \<Rightarrow> nat option \<Rightarrow> task list
    \<Rightarrow> 'e coro list \<Rightarrow> 'e world fibers \<Rightarrow> bool" where
  "fibers_ready code tid m th idle cb q ds fs \<longleftrightarrow>
     wf_fibers fs \<and> at_main m th fs \<and> list_all2 (job code tid fs) q ds \<and> spare_ok cb fs \<and>
     runnable fs idle \<and> program_left (fs_store fs ! idle) = idle_prog \<and>
     distinct (idle # spare_list cb @ queue_fibers q)"

definition working :: "(nat \<Rightarrow> 'e world coro) \<Rightarrow> nat \<Rightarrow> 'e coro list \<Rightarrow> worker \<Rightarrow> 'e proc \<Rightarrow> bool" where
  "working code m ds wk pr \<longleftrightarrow> wk_pc wk = W_pick \<and>
     fibers_ready code (sl_tid (wk_locals wk)) m (sl_fibers (wk_locals wk)) (wk_idle wk) (wk_cb wk)
       (sc_fibers (w_sched (p_world pr))) ds (p_fibers pr)"

lemma job_same:
  "job code tid fs t d \<Longrightarrow> (\<And>f. ft_fiber t = Some f \<Longrightarrow> f < length (fs_store fs) \<Longrightarrow> fs_store fs' ! f = fs_store fs ! f) \<Longrightarrow>
   length (fs_store fs) \<le> length (fs_store fs') \<Longrightarrow> job code tid fs' t d"
  by (auto simp: job_def runnable_def GetState_def split: option.splits)

lemma jobs_same:
  assumes "list_all2 (job code tid fs) q ds" "only_fiber g fs fs'" "g \<notin> set (queue_fibers q)"
  shows "list_all2 (job code tid fs') q ds"
  using assms(1,3)
proof (induction rule: list_all2_induct)
  case (Cons t q d ds)
  have "job code tid fs' t d"
    using Cons(1,4) assms(2)
    by (intro job_same [OF Cons(1)]) (auto simp: only_fiber_def split: option.splits)
  then show ?case using Cons(3,4) by (auto split: option.splits)
qed simp

text \<open>A fiber has run a stretch of its job: what the row of jobs is then.\<close>

definition row_after :: "'e coro stop \<Rightarrow> 'e coro list" where
  "row_after r = (case r of Ready_at d \<Rightarrow> [d] | _ \<Rightarrow> [])"

definition tasks_after :: "nat \<Rightarrow> 'k stop \<Rightarrow> task list" where
  "tasks_after f r = (case r of Ready_at d \<Rightarrow> [fiber_task (Some f) (-1)] | _ \<Rightarrow> [])"

lemma requeue_simps:
  "sc_fibers (requeue f r sc) = sc_fibers sc @ tasks_after f r"
  "sc_active (requeue f r sc) = sc_active sc" "sc_idle (requeue f r sc) = sc_idle sc"
  "sc_autoStop (requeue f r sc) = sc_autoStop sc" "sc_stopping (requeue f r sc) = sc_stopping sc"
  by (cases r; simp add: requeue_def tasks_after_def schedule_def scheduleNoLock_def tickle_def fiber_task_def)+

text \<open>The fibers after the first task's stretch, for a fiber and for a function.\<close>

lemma ready_after_fiber:
  assumes r: "fibers_ready code tid m th idle cb (t # q) (d # ds) fs" and f: "ft_fiber t = Some f"
    and p: "\<And>c. r \<noteq> Held_at c"
  shows "fibers_ready code tid m th idle cb (q @ tasks_after f (map_stop lift_job r)) (ds @ row_after r)
    (settle f (map_stop lift_job r) fs)"
proof -
  let ?r = "map_stop lift_job r"
  let ?fs = "upd_fiber f (after_stretch ?r) fs"
  have set: "settle f ?r fs = ?fs" using p by (cases r) (auto simp: settle_def)
  have run: "runnable fs f" and wf: "wf_fibers fs" "at_main m th fs"
    using r f by (auto simp: fibers_ready_def job_def)
  have len: "f < length (fs_store fs)" using run by (simp add: runnable_def)
  have res: "resumable (fs_store fs ! f)"
    using resumable_states [OF wf_fibersD [OF wf(1) len]] run by (simp add: runnable_def GetState_def)
  have other: "f \<noteq> idle" "f \<notin> set (spare_list cb)" "f \<notin> set (queue_fibers q)"
    using r f by (auto simp: fibers_ready_def)
  have only: "only_fiber f fs ?fs" by (simp add: only_fiber_def)
  have jobs: "list_all2 (job code tid ?fs) q ds"
    using r jobs_same [OF _ only other(3)] by (simp add: fibers_ready_def)
  have more: "list_all2 (job code tid ?fs) (tasks_after f ?r) (row_after r)"
    using len by (cases r) (simp_all add: tasks_after_def row_after_def job_def elsewhere_def fiber_task_def
        runnable_def program_left_def GetState_def)
  have "spare_ok cb ?fs"
    using r other(2) by (auto simp: fibers_ready_def spare_ok_def spare_list_def GetState_def split: option.splits)
  moreover have "runnable ?fs idle" "program_left (fs_store ?fs ! idle) = idle_prog"
    using r other(1) by (auto simp: fibers_ready_def runnable_def GetState_def)
  moreover have "distinct (idle # spare_list cb @ queue_fibers (q @ tasks_after f ?r))"
    using r f by (cases r) (auto simp: fibers_ready_def tasks_after_def fiber_task_def)
  ultimately show ?thesis
    unfolding fibers_ready_def set using wf_resumed [OF wf(1) len res] at_main_upd [OF wf(2) res]
      list_all2_appendI [OF jobs more] by blast
qed

lemma job_fibers_exist: "list_all2 (job code tid fs) q ds \<Longrightarrow> f \<in> set (queue_fibers q) \<Longrightarrow> f < length (fs_store fs)"
  by (induction rule: list_all2_induct) (auto simp: job_def runnable_def split: option.splits)

lemma settle_cb_ok:
  assumes wf: "wf_fibers fs" "at_main m th fs" and f: "f < length (fs_store fs)" "GetState f fs = INIT" "fb_stack (fs_store fs ! f)"
    and p: "\<And>c. r \<noteq> Held_at c"
  shows "wf_fibers (settle_cb f r fs)" "at_main m th (settle_cb f r fs)" "only_fiber f fs (settle_cb f r fs)"
proof -
  have res: "resumable (fs_store fs ! f)"
    using resumable_states [OF wf_fibersD [OF wf(1) f(1)]] f(2) by (simp add: GetState_def)
  show "wf_fibers (settle_cb f r fs)"
    using p wf_resumed [OF wf(1) f(1) res] f(3)
    by (cases r) (auto simp: settle_cb_def wf_fiber_def intro!: wf_upd_fiber [OF wf(1)])
  show "at_main m th (settle_cb f r fs)" "only_fiber f fs (settle_cb f r fs)"
    using p at_main_upd [OF wf(2) res] by (cases r; auto simp: settle_cb_def only_fiber_def)+
qed

lemma ready_after_function:
  assumes r: "fibers_ready code tid m th idle cb (t # q) (d # ds) fs" and t: "ft_fiber t = None"
    and p: "\<And>c. r \<noteq> Held_at c"
    and fs1: "wf_fibers fs1" "at_main m th fs1" "f < length (fs_store fs1)" "GetState f fs1 = INIT"
      "fb_stack (fs_store fs1 ! f)" "only_fiber f fs fs1"
    and f: "f = (case cb of Some g \<Rightarrow> g | None \<Rightarrow> length (fs_store fs))"
  shows "fibers_ready code tid m th idle (kept_cb f (map_stop lift_job r)) (q @ tasks_after f (map_stop lift_job r))
    (ds @ row_after r) (settle_cb f (map_stop lift_job r) fs1)"
proof -
  let ?r = "map_stop lift_job r"
  let ?fs = "settle_cb f ?r fs1"
  have p': "?r \<noteq> Held_at c" for c using p by (cases r) auto
  note ok = settle_cb_ok [OF fs1(1-5) p']
  have only: "only_fiber f fs ?fs" using fs1(6) ok(3) by (auto simp: only_fiber_def)
  have jobs: "list_all2 (job code tid fs) q ds" "runnable fs idle" "program_left (fs_store fs ! idle) = idle_prog"
    "distinct (idle # spare_list cb @ queue_fibers q)"
    using r t by (simp_all add: fibers_ready_def)
  have other: "f \<noteq> idle" "f \<notin> set (queue_fibers q)"
    using jobs job_fibers_exist [OF jobs(1)] f by (auto simp: spare_list_def runnable_def split: option.splits)
  have old: "list_all2 (job code tid ?fs) q ds" by (rule jobs_same [OF jobs(1) only other(2)])
  have more: "list_all2 (job code tid ?fs) (tasks_after f ?r) (row_after r)"
    using fs1(3) by (cases r) (simp_all add: tasks_after_def row_after_def job_def elsewhere_def fiber_task_def
        runnable_def program_left_def GetState_def settle_cb_def)
  have "spare_ok (kept_cb f ?r) ?fs"
    using settle_cb_state [OF fs1(3,5), of ?r] p by (cases r) (auto simp: kept_cb_def spare_ok_def)
  moreover have "runnable ?fs idle" "program_left (fs_store ?fs ! idle) = idle_prog"
    using only jobs(2,3) other(1) by (auto simp: runnable_def only_fiber_def GetState_def)
  moreover have "distinct (idle # spare_list (kept_cb f ?r) @ queue_fibers (q @ tasks_after f ?r))"
    using jobs(4) other by (cases r) (auto simp: tasks_after_def fiber_task_def kept_cb_def spare_list_def split: option.splits)
  ultimately show ?thesis
    unfolding fibers_ready_def using ok(1,2) list_all2_appendI [OF old more] by blast
qed

text \<open>A turn of the loop runs the first job.\<close>

definition same_counts :: "scheduler \<Rightarrow> scheduler \<Rightarrow> bool" where
  "same_counts sc sc' \<longleftrightarrow> sc_active sc' = sc_active sc \<and> sc_idle sc' = sc_idle sc \<and>
     sc_autoStop sc' = sc_autoStop sc \<and> sc_stopping sc' = sc_stopping sc"

lemma taken_simps:
  "w_rest (p_world (taken rest tk pr)) = w_rest (p_world pr)"
  "sc_fibers (w_sched (p_world (taken rest tk pr))) = rest"
  "sc_active (w_sched (p_world (taken rest tk pr))) = sc_active (w_sched (p_world pr)) + 1"
  "sc_idle (w_sched (p_world (taken rest tk pr))) = sc_idle (w_sched (p_world pr))"
  "sc_autoStop (w_sched (p_world (taken rest tk pr))) = sc_autoStop (w_sched (p_world pr))"
  "sc_stopping (w_sched (p_world (taken rest tk pr))) = sc_stopping (w_sched (p_world pr))"
  by (simp_all add: taken_def tickle_def)

lemma pick_job:
  assumes "job code tid fs t d"
  shows "pick_task (\<lambda>f. GetState f fs) tid (t # q) = Inr (Some t, q, q \<noteq> [])"
  using assms by (auto simp: job_def elsewhere_def runnable_def split: option.splits)

lemma working_turn:
  assumes work: "working code m (d # ds) wk pr" and malloc: "\<And>n. fe_malloc env n"
    and run: "run_coro d (w_rest (p_world pr)) = (e, r)" and p: "\<And>c. r \<noteq> Held_at c"
  shows "\<exists>wk' pr'. worker_turn env junk code wk pr = Inr (wk', pr') \<and> working code m (ds @ row_after r) wk' pr' \<and>
    w_rest (p_world pr') = e \<and> same_counts (w_sched (p_world pr)) (w_sched (p_world pr'))"
proof -
  let ?fs = "p_fibers pr" and ?tid = "sl_tid (wk_locals wk)" and ?r = "map_stop lift_job r"
  obtain t q where q: "sc_fibers (w_sched (p_world pr)) = t # q" and t: "job code ?tid ?fs t d"
    and ready: "fibers_ready code ?tid m (sl_fibers (wk_locals wk)) (wk_idle wk) (wk_cb wk) (t # q) (d # ds) ?fs"
    using work by (auto simp: working_def fibers_ready_def list_all2_Cons2)
  have wf: "wf_fibers ?fs" "at_main m (sl_fibers (wk_locals wk)) ?fs" "spare_ok (wk_cb wk) ?fs"
    using ready by (simp_all add: fibers_ready_def)
  let ?pr = "taken q (q \<noteq> []) pr"
  let ?w = "(p_world ?pr)\<lparr>w_rest := e\<rparr>"
  note pick = pick_job [OF t, of q, folded q]
  have lift: "run_coro (lift_job d) (p_world ?pr) = (?w, ?r)"
    using run by (simp add: run_lift_job taken_simps)
  let ?after = "\<lambda>f. ?w\<lparr>w_sched := requeue f ?r ((w_sched ?w)\<lparr>sc_active := sc_active (w_sched ?w) - 1\<rparr>)\<rparr>"
  have world: "sc_fibers (w_sched (?after f)) = q @ tasks_after f ?r" "w_rest (?after f) = e"
    "same_counts (w_sched (p_world pr)) (w_sched (?after f))" for f
    by (simp_all add: requeue_simps same_counts_def taken_simps)
  show ?thesis
  proof (cases "ft_fiber t")
    case (Some f)
    then have f: "runnable ?fs f" "program_left (fs_store ?fs ! f) = lift_job d" using t by (simp_all add: job_def)
    have "worker_turn env junk code wk pr = Inr (wk\<lparr>wk_ft := no_task, wk_pc := W_pick\<rparr>,
        \<lparr>p_fibers = settle f ?r ?fs, p_world = ?after f\<rparr>)"
      by (rule turn_runs_fiber_eq [OF wf(1,2) pick Some]) (use f lift in \<open>simp_all add: runnable_def\<close>)
    then show ?thesis using ready_after_fiber [OF ready Some p] world by (auto simp: working_def)
  next
    case None
    then obtain i where i: "ft_cb t = Some i" "code i = lift_job d" using t by (auto simp: job_def)
    obtain f fs where turn: "worker_turn env junk code wk pr =
        Inr (wk\<lparr>wk_cb := kept_cb f ?r, wk_ft := no_task, wk_pc := W_pick\<rparr>,
             \<lparr>p_fibers = settle_cb f ?r fs, p_world = ?after f\<rparr>)"
      and fs: "wf_fibers fs" "at_main m (sl_fibers (wk_locals wk)) fs" "f < length (fs_store fs)" "GetState f fs = INIT"
        "fb_stack (fs_store fs ! f)" "only_fiber f ?fs fs"
        "f = (case wk_cb wk of Some g \<Rightarrow> g | None \<Rightarrow> length (fs_store ?fs))"
      using function_turn [where code = code and junk = junk, OF wf(1,2) malloc wf(3) pick None i(1)] lift i(2) by auto
    show ?thesis using turn ready_after_function [OF ready None p fs] world by (auto simp: working_def)
  qed
qed

subsection \<open>Leaving the loop\<close>

fun turns :: "fiber_env \<Rightarrow> bool \<Rightarrow> (nat \<Rightarrow> 'e world coro) \<Rightarrow> nat \<Rightarrow> worker \<Rightarrow> 'e proc \<Rightarrow> (worker \<times> 'e proc) outcome" where
  "turns env junk code 0 wk pr = Inr (wk, pr)"
| "turns env junk code (Suc n) wk pr =
     (if wk_pc wk = W_exit then Inr (wk, pr)
      else obind (worker_turn env junk code wk pr) (\<lambda>(wk, pr). turns env junk code n wk pr))"

lemma exit_turns:
  assumes work: "working code m [] wk pr" and stop: "stopping (w_sched (p_world pr))"
  shows "\<exists>wk' pr'. turns env junk code 2 wk pr = Inr (wk', pr') \<and> wk_pc wk' = W_exit \<and>
    sc_fibers (w_sched (p_world pr')) = [] \<and> w_rest (p_world pr') = w_rest (p_world pr) \<and>
    same_counts (w_sched (p_world pr)) (w_sched (p_world pr'))"
proof -
  let ?idle = "wk_idle wk" and ?fs = "p_fibers pr" and ?w = "p_world pr"
  have q: "sc_fibers (w_sched ?w) = []" and pc: "wk_pc wk = W_pick" and wf: "wf_fibers ?fs"
    "at_main m (sl_fibers (wk_locals wk)) ?fs" and idle: "?idle < length (fs_store ?fs)"
    "GetState ?idle ?fs \<in> {INIT, READY, HOLD}" "program_left (fs_store ?fs ! ?idle) = idle_prog"
    using work by (auto simp: working_def fibers_ready_def runnable_def)
  let ?pr1 = "upd_sched (\<lambda>sc. sc\<lparr>sc_fibers := []\<rparr>) pr"
  let ?pr2 = "upd_sched (\<lambda>sc. sc\<lparr>sc_idle := sc_idle sc + 1\<rparr>) ?pr1"
  let ?fs' = "upd_fiber ?idle (after_stretch Finished) ?fs"
  let ?pr3 = "\<lparr>p_fibers = ?fs', p_world = p_world ?pr2\<rparr>"
  let ?pr4 = "upd_sched (\<lambda>sc. sc\<lparr>sc_idle := sc_idle sc - 1\<rparr>) ?pr3"
  let ?wk1 = "wk\<lparr>wk_ft := no_task, wk_pc := W_dispatch False\<rparr>" and ?wk2 = "wk\<lparr>wk_ft := no_task, wk_pc := W_pick\<rparr>"
  have pick: "worker_pick wk' pr' = Inr (wk'\<lparr>wk_ft := no_task, wk_pc := W_dispatch False\<rparr>,
      upd_sched (\<lambda>sc. sc\<lparr>sc_fibers := []\<rparr>) pr')" if "sc_fibers (w_sched (p_world pr')) = []" for wk' and pr' :: "'a proc"
    using that by (simp add: worker_pick_def)
  have "stopping (w_sched (p_world ?pr2))" using stop by (simp add: stopping_def)
  then have "worker_swap_in ?idle ?wk1 ?pr2 = Inr (?wk1, ?pr3)"
    using worker_swap_in_effect [of ?pr2 m ?wk1 ?idle "p_world ?pr2" Finished] wf idle by simp
  then have "worker_turn env junk code wk pr = Inr (?wk2, ?pr4)"
    using pick [OF q, of wk] idle
    by (auto simp: worker_turn_def worker_step_def worker_dispatch_def fiber_to_run_def no_task_def
        worker_after_idle_def unfinished_def Let_def)
  moreover have "worker_turn env junk code ?wk2 ?pr4
      = Inr (?wk1\<lparr>wk_pc := W_exit\<rparr>, upd_sched (\<lambda>sc. sc\<lparr>sc_fibers := []\<rparr>) ?pr4)"
    using pick [of ?pr4 ?wk2] idle
    by (auto simp: worker_turn_def worker_step_def worker_dispatch_def fiber_to_run_def no_task_def)
  ultimately show ?thesis using pc by (simp add: eval_nat_numeral same_counts_def)
qed

lemma working_not_exit: "working code m ds wk pr \<Longrightarrow> wk_pc wk \<noteq> W_exit"
  by (simp add: working_def)

lemma same_counts_trans: "same_counts a b \<Longrightarrow> same_counts b c \<Longrightarrow> same_counts a c"
  by (simp add: same_counts_def)

text \<open>The worker follows the round robin: from \<open>wk\<close> and \<open>pr\<close> it gets to the end of its queue, with \<open>e'\<close>
  for the rest of the process.\<close>

definition follows :: "fiber_env \<Rightarrow> bool \<Rightarrow> (nat \<Rightarrow> 'e world coro) \<Rightarrow> nat \<Rightarrow> 'e \<Rightarrow> worker \<Rightarrow> 'e proc \<Rightarrow> bool" where
  "follows env junk code m e' wk pr \<longleftrightarrow>
     (\<exists>k wk' pr'. (\<forall>n. turns env junk code (k + n) wk pr = turns env junk code n wk' pr') \<and>
        working code m [] wk' pr' \<and> w_rest (p_world pr') = e' \<and>
        same_counts (w_sched (p_world pr)) (w_sched (p_world pr')))"

lemma follows_turn:
  assumes "worker_turn env junk code wk pr = Inr (wk1, pr1)" "same_counts (w_sched (p_world pr)) (w_sched (p_world pr1))"
    and "working code m ds wk pr" and "follows env junk code m e' wk1 pr1"
  shows "follows env junk code m e' wk pr"
proof -
  obtain k wk' pr' where 1: "\<And>n. turns env junk code (k + n) wk1 pr1 = turns env junk code n wk' pr'"
    "working code m [] wk' pr'" "w_rest (p_world pr') = e'" "same_counts (w_sched (p_world pr1)) (w_sched (p_world pr'))"
    using assms(4) unfolding follows_def by blast
  have "turns env junk code (Suc k + n) wk pr = turns env junk code n wk' pr'" for n
    using 1(1) [of n] assms(1) working_not_exit [OF assms(3)] by simp
  then show ?thesis using 1(2,3) same_counts_trans [OF assms(2) 1(4)] unfolding follows_def by blast
qed

lemma follows_job:
  assumes work: "working code m (d # ds) wk pr" and malloc: "\<And>n. fe_malloc env n"
    and run: "run_coro d (w_rest (p_world pr)) = (e, r)" "\<And>c. r \<noteq> Held_at c"
    and next': "\<And>wk1 pr1. working code m (ds @ row_after r) wk1 pr1 \<Longrightarrow> e = w_rest (p_world pr1) \<Longrightarrow>
      follows env junk code m e' wk1 pr1"
  shows "follows env junk code m e' wk pr"
proof -
  from working_turn [OF work malloc run, of junk]
  obtain wk1 pr1 where 1: "worker_turn env junk code wk pr = Inr (wk1, pr1)" "working code m (ds @ row_after r) wk1 pr1"
    "w_rest (p_world pr1) = e" "same_counts (w_sched (p_world pr)) (w_sched (p_world pr1))" by blast
  show ?thesis by (rule follows_turn [OF 1(1,4) work next' [OF 1(2) 1(3) [symmetric]]])
qed

lemma follows_round_robin:
  assumes "round_robin ds e e'" "working code m ds wk pr" "e = w_rest (p_world pr)" and malloc: "\<And>n. fe_malloc env n"
  shows "follows env junk code m e' wk pr"
  using assms(1-3)
proof (induction arbitrary: wk pr rule: round_robin.induct)
  case (rr_done e)
  then show ?case
    unfolding follows_def by (intro exI [of _ 0] exI [of _ wk] exI [of _ pr]) (simp add: same_counts_def)
next
  case (rr_ends d e e1 ds e')
  show ?case by (rule follows_job [OF rr_ends.prems(1) malloc, of e1 Finished])
      (use rr_ends in \<open>simp_all add: row_after_def\<close>)
next
  case (rr_fails d e e1 x ds e')
  show ?case by (rule follows_job [OF rr_fails.prems(1) malloc, of e1 "Raised x"])
      (use rr_fails in \<open>simp_all add: row_after_def\<close>)
next
  case (rr_yields d e e1 d' ds e')
  show ?case by (rule follows_job [OF rr_yields.prems(1) malloc, of e1 "Ready_at d'"])
      (use rr_yields in \<open>simp_all add: row_after_def\<close>)
qed

text \<open>A worker with jobs runs them all and leaves its loop.\<close>

lemma working_drains:
  assumes "working code m ds wk pr" and "\<And>n. fe_malloc env n" and "list_all2 ends_in ns ds"
    and "sc_autoStop (w_sched (p_world pr))" and "sc_stopping (w_sched (p_world pr))"
    and "sc_active (w_sched (p_world pr)) = 0"
  shows "\<exists>k wk' pr'. turns env junk code k wk pr = Inr (wk', pr') \<and> wk_pc wk' = W_exit \<and>
    sc_fibers (w_sched (p_world pr')) = [] \<and> round_robin ds (w_rest (p_world pr)) (w_rest (p_world pr')) \<and>
    sc_active (w_sched (p_world pr')) = 0 \<and> sc_idle (w_sched (p_world pr')) = sc_idle (w_sched (p_world pr))"
proof -
  obtain e' where rr: "round_robin ds (w_rest (p_world pr)) e'" using jobs_end [OF assms(3)] by blast
  from follows_round_robin [OF this assms(1) refl assms(2), of junk]
  obtain k wk1 pr1 where 1: "\<And>n. turns env junk code (k + n) wk pr = turns env junk code n wk1 pr1"
    "working code m [] wk1 pr1" "w_rest (p_world pr1) = e'" "same_counts (w_sched (p_world pr)) (w_sched (p_world pr1))"
    unfolding follows_def by blast
  then have "stopping (w_sched (p_world pr1))"
    using assms(4-6) by (auto simp: same_counts_def stopping_def working_def fibers_ready_def)
  from exit_turns [OF 1(2) this, of env junk]
  obtain wk2 pr2 where "turns env junk code 2 wk1 pr1 = Inr (wk2, pr2)" "wk_pc wk2 = W_exit"
    "sc_fibers (w_sched (p_world pr2)) = []" "w_rest (p_world pr2) = e'"
    "same_counts (w_sched (p_world pr)) (w_sched (p_world pr2))"
    using same_counts_trans [OF 1(4)] 1(3) by auto
  then show ?thesis
    using 1(1) [of 2] rr assms(6) by (intro exI [of _ "k + 2"]) (simp add: same_counts_def)
qed

text \<open>A new thread with a queue of jobs.\<close>

lemma begins_working:
  assumes wf: "wf_fibers (p_fibers pr)" and malloc: "\<And>n. fe_malloc env n" and new: "t_fiber (sl_fibers lo) = None"
    and jobs: "list_all2 (job code (sl_tid lo) (p_fibers pr)) (sc_fibers (w_sched (p_world pr))) ds"
    and diff: "distinct (queue_fibers (sc_fibers (w_sched (p_world pr))))"
  shows "\<exists>wk pr'. worker_begin self env junk lo pr = Inr (wk, pr') \<and>
    working code (length (fs_store (p_fibers pr))) ds wk pr' \<and> p_world pr' = p_world pr"
proof -
  let ?n = "length (fs_store (p_fibers pr))"
  obtain wk pr' where b: "worker_begin self env junk lo pr = Inr (wk, pr')" "wk_pc wk = W_pick" "wk_cb wk = None"
    "sl_tid (wk_locals wk) = sl_tid lo" "wk_idle wk = Suc ?n" "at_main ?n (sl_fibers (wk_locals wk)) (p_fibers pr')"
    "wf_fibers (p_fibers pr')" "length (fs_store (p_fibers pr')) = ?n + 2"
    "\<And>f. f < ?n \<Longrightarrow> fs_store (p_fibers pr') ! f = fs_store (p_fibers pr) ! f"
    "GetState (wk_idle wk) (p_fibers pr') = INIT" "program_left (fs_store (p_fibers pr') ! wk_idle wk) = idle_prog"
    "p_world pr' = p_world pr"
    using worker_begin_fresh [OF wf malloc new, of self junk] by blast
  have "Suc ?n \<notin> set (queue_fibers (sc_fibers (w_sched (p_world pr))))"
    using job_fibers_exist [OF jobs] by fastforce
  moreover have "only_fiber ?n (p_fibers pr) (p_fibers pr')" using b(8,9) by (simp add: only_fiber_def)
  then have "list_all2 (job code (sl_tid lo) (p_fibers pr')) (sc_fibers (w_sched (p_world pr))) ds"
    using jobs_same [OF jobs] job_fibers_exist [OF jobs] by blast
  ultimately have "working code ?n ds wk pr'"
    using b(2-8,10-12) diff by (simp add: working_def fibers_ready_def runnable_def spare_ok_def spare_list_def)
  with b(1,12) show ?thesis by blast
qed

text \<open>C10: the scheduler as a round robin that ends: when a new thread starts \<open>run\<close>, with a queue of
  fibers and functions that do nothing to the scheduler, yield only to be continued, and come to an
  end after some number of yields, and \<open>stop\<close> has been asked for, then after finitely many turns the
  worker has left its loop; the queue is empty, no job has been dropped or run twice, and the rest of
  the process is as if the programs had been run in round robin, each up to its next yield in turn;
  and the counters are what they were.\<close>

theorem worker_drains_and_exits:
  assumes "wf_fibers (p_fibers pr)" and "\<And>n. fe_malloc env n" and "t_fiber (sl_fibers lo) = None"
    and "list_all2 (job code (sl_tid lo) (p_fibers pr)) (sc_fibers (w_sched (p_world pr))) ds"
    and "distinct (queue_fibers (sc_fibers (w_sched (p_world pr))))" and "list_all2 ends_in ns ds"
    and "sc_autoStop (w_sched (p_world pr))" and "sc_stopping (w_sched (p_world pr))"
    and "sc_active (w_sched (p_world pr)) = 0"
  shows "\<exists>wk pr1 k wk' pr'. worker_begin self env junk lo pr = Inr (wk, pr1) \<and>
    turns env junk code k wk pr1 = Inr (wk', pr') \<and> wk_pc wk' = W_exit \<and>
    sc_fibers (w_sched (p_world pr')) = [] \<and> round_robin ds (w_rest (p_world pr)) (w_rest (p_world pr')) \<and>
    sc_active (w_sched (p_world pr')) = 0 \<and> sc_idle (w_sched (p_world pr')) = sc_idle (w_sched (p_world pr))"
proof -
  obtain wk pr1 where b: "worker_begin self env junk lo pr = Inr (wk, pr1)"
    "working code (length (fs_store (p_fibers pr))) ds wk pr1" "p_world pr1 = p_world pr"
    using begins_working [OF assms(1-5), of self junk] by blast
  from working_drains [OF b(2) assms(2,6), of junk] assms(7-9) b(3) b(1) show ?thesis by auto
qed

text \<open>Two jobs, in a fiber that is bound to the thread and as a function; the first is overtaken while it
  yields.\<close>

definition sample_jobs :: "nat coro list" where
  "sample_jobs = [Coro (Do Suc (Yield_ready (Coro (Do (\<lambda>n. 2 * n) Return)))), Coro (Do (\<lambda>n. n + 10) Return)]"

definition jobs_process :: "nat proc" where
  "jobs_process = upd_sched (\<lambda>sc. sc\<lparr>sc_autoStop := True\<rparr>)
     (sample_process (lift_job (sample_jobs ! 0)) [fiber_task (Some 1) 7, cb_task (Some 3) (-1)])"

lemma sample_round_robin: "round_robin sample_jobs 5 e' \<Longrightarrow> e' = 32"
  by (auto simp: sample_jobs_def elim!: round_robin.cases [of "_ # _"] round_robin.cases [of "[]"])

theorem worker_drains_and_exits_witness:
  "\<exists>wk pr1 k wk' pr'.
     worker_begin 0 \<lparr>fe_stack_size = 1024, fe_malloc = \<lambda>n. True\<rparr> False (fresh_locals 7) jobs_process = Inr (wk, pr1) \<and>
     turns \<lparr>fe_stack_size = 1024, fe_malloc = \<lambda>n. True\<rparr> False (\<lambda>i. lift_job (sample_jobs ! 1)) k wk pr1 = Inr (wk', pr') \<and>
     wk_pc wk' = W_exit \<and> w_rest (p_world pr') = 32"
proof -
  let ?env = "\<lparr>fe_stack_size = 1024, fe_malloc = \<lambda>n. True\<rparr>" and ?code = "\<lambda>i. lift_job (sample_jobs ! 1)"
  have wf: "wf_fibers (p_fibers jobs_process)" using sample_wf(1) by (simp add: jobs_process_def)
  have jobs: "list_all2 (job ?code (sl_tid (fresh_locals 7)) (p_fibers jobs_process))
      (sc_fibers (w_sched (p_world jobs_process))) sample_jobs"
    "distinct (queue_fibers (sc_fibers (w_sched (p_world jobs_process))))"
    by (simp_all add: jobs_process_def fresh_locals_def sample_simps sample_jobs_def job_def elsewhere_def runnable_def
        GetState_def program_left_def)
  have ends: "list_all2 ends_in [1, 0] sample_jobs" by (simp add: sample_jobs_def)
  have rest: "w_rest (p_world jobs_process) = 5" by (simp add: jobs_process_def sample_simps)
  from worker_drains_and_exits [OF wf _ _ jobs ends, of ?env 0 False]
  show ?thesis using sample_round_robin rest by (simp add: fresh_locals_def jobs_process_def sample_simps) metis
qed

subsection \<open>Waiting\<close>

text \<open>A task that the worker's thread cannot take: it is bound to another thread, or its fiber is
  executing. A worker at the top of its loop with no task that it can take.\<close>

definition stuck :: "int \<Rightarrow> 's fibers \<Rightarrow> task \<Rightarrow> bool" where
  "stuck tid fs t \<longleftrightarrow> nonempty_task t \<and> \<not> eligible (\<lambda>f. GetState f fs) tid t"

definition waiting :: "nat \<Rightarrow> worker \<Rightarrow> 'e proc \<Rightarrow> bool" where
  "waiting m wk pr \<longleftrightarrow> wk_pc wk = W_pick \<and> wf_fibers (p_fibers pr) \<and>
     at_main m (sl_fibers (wk_locals wk)) (p_fibers pr) \<and>
     runnable (p_fibers pr) (wk_idle wk) \<and> program_left (fs_store (p_fibers pr) ! wk_idle wk) = idle_prog \<and>
     list_all (stuck (sl_tid (wk_locals wk)) (p_fibers pr)) (sc_fibers (w_sched (p_world pr)))"

definition unchanged :: "'e proc \<Rightarrow> 'e proc \<Rightarrow> bool" where
  "unchanged pr pr' \<longleftrightarrow> sc_fibers (w_sched (p_world pr')) = sc_fibers (w_sched (p_world pr)) \<and>
     same_counts (w_sched (p_world pr)) (w_sched (p_world pr')) \<and> w_rest (p_world pr') = w_rest (p_world pr)"

lemma pick_stuck:
  assumes "list_all (stuck tid fs) q"
  shows "\<exists>tk. pick_task (\<lambda>f. GetState f fs) tid q = Inr (None, q, tk)"
proof -
  have "list_all nonempty_task q" "dropWhile (\<lambda>t. \<not> eligible (\<lambda>f. GetState f fs) tid t) q = []"
    using assms by (auto simp: list_all_iff stuck_def)
  then show ?thesis using pick_task_spec [of q "\<lambda>f. GetState f fs" tid] by (simp del: dropWhile_eq_Nil_conv)
qed

lemma stuck_settle:
  assumes "stuck tid fs t" "GetState f fs \<noteq> EXEC"
  shows "stuck tid (settle f (Held_at c) fs) t"
proof -
  have "GetState g (settle f (Held_at c) fs) = GetState g fs" if "g \<noteq> f" for g
    using that by (simp add: settle_def set_state_def GetState_def)
  then have "GetState g (settle f (Held_at c) fs) = EXEC" if "GetState g fs = EXEC" for g
    using that assms(2) by metis
  then show ?thesis using assms by (cases "ft_fiber t") (auto simp: stuck_def eligible_def)
qed

lemma settle_ok:
  assumes wf: "wf_fibers fs" and f: "f < length (fs_store fs)" "resumable (fs_store fs ! f)"
  shows "wf_fibers (settle f p fs)" "at_main m th fs \<Longrightarrow> at_main m th (settle f p fs)"
proof -
  have stack: "fb_stack (fs_store fs ! f)"
    using wf_fibersD [OF wf f(1)] f(2) by (auto simp: wf_fiber_def resumable_def split: ucontext.splits)
  show "wf_fibers (settle f p fs)"
  proof (cases p)
    case (Held_at c)
    have "settle f p fs = upd_fiber f (\<lambda>b. (after_stretch p b)\<lparr>fb_state := HOLD\<rparr>) fs"
      using f(1) Held_at by (simp add: settle_def set_state_def upd_fiber_twice)
    moreover have "wf_fibers \<dots>"
      by (rule wf_upd_fiber [OF wf]) (use stack in \<open>simp_all add: Held_at wf_fiber_def\<close>)
    ultimately show ?thesis by simp
  qed (use wf_resumed [OF wf f, of p] in \<open>simp_all add: settle_def\<close>)
  assume "at_main m th fs"
  from at_main_upd [OF this f(2)] have "at_main m th (upd_fiber f g fs)" for g .
  then show "at_main m th (settle f p fs)"
    using f(1) by (cases p) (simp_all add: settle_def set_state_def upd_fiber_twice del: upd_fiber_simps)
qed

text \<open>The worker takes nothing from the queue and switches to its idle fiber, which yields.\<close>

lemma waiting_turn:
  assumes wait: "waiting m wk pr" and more: "\<not> stopping (w_sched (p_world pr))"
  shows "\<exists>wk' pr'. worker_turn env junk code wk pr = Inr (wk', pr') \<and> waiting m wk' pr' \<and> unchanged pr pr'"
proof -
  let ?idle = "wk_idle wk" and ?fs = "p_fibers pr" and ?q = "sc_fibers (w_sched (p_world pr))"
  let ?wk1 = "wk\<lparr>wk_ft := no_task, wk_pc := W_dispatch False\<rparr>" and ?wk2 = "wk\<lparr>wk_ft := no_task, wk_pc := W_pick\<rparr>"
  let ?fs1 = "upd_fiber ?idle (after_stretch (Held_at idle_prog)) ?fs" and ?fs2 = "settle ?idle (Held_at idle_prog) ?fs"
  have pc: "wk_pc wk = W_pick" and wf: "wf_fibers ?fs" "at_main m (sl_fibers (wk_locals wk)) ?fs"
    and idle: "?idle < length (fs_store ?fs)" "GetState ?idle ?fs \<in> {INIT, READY, HOLD}"
      "program_left (fs_store ?fs ! ?idle) = idle_prog" and q: "list_all (stuck (sl_tid (wk_locals wk)) ?fs) ?q"
    using wait by (simp_all add: waiting_def runnable_def)
  have res: "resumable (fs_store ?fs ! ?idle)"
    using resumable_states [OF wf_fibersD [OF wf(1) idle(1)]] idle(2) by (simp add: GetState_def)
  have same: "upd_sched (\<lambda>sc. sc\<lparr>sc_fibers := ?q\<rparr>) pr = pr" by (cases pr) (simp add: upd_sched_def)
  obtain pr1 where pick: "worker_pick wk pr = Inr (?wk1, pr1)" and pr1: "p_fibers pr1 = ?fs" "unchanged pr pr1"
    using pick_stuck [OF q]
    by (auto simp: worker_pick_def Let_def same unchanged_def same_counts_def tickle_def split: if_splits)
  let ?pr2 = "upd_sched (\<lambda>sc. sc\<lparr>sc_idle := sc_idle sc + 1\<rparr>) pr1"
  let ?pr3 = "\<lparr>p_fibers = ?fs1, p_world = p_world ?pr2\<rparr>"
  let ?pr4 = "\<lparr>p_fibers = ?fs2, p_world = p_world (upd_sched (\<lambda>sc. sc\<lparr>sc_idle := sc_idle sc - 1\<rparr>) ?pr3)\<rparr>"
  have "\<not> stopping (w_sched (p_world ?pr2))"
    using more pr1(2) by (simp add: stopping_def unchanged_def same_counts_def)
  then have "worker_swap_in ?idle ?wk1 ?pr2 = Inr (?wk1, ?pr3)"
    using worker_swap_in_effect [of ?pr2 m ?wk1 ?idle "p_world ?pr2" "Held_at idle_prog"] wf idle pr1(1) by simp
  moreover have "worker_after_idle (?wk1\<lparr>wk_pc := W_after_idle\<rparr>) ?pr3 = Inr (?wk2, ?pr4)"
    using idle(1) by (simp add: worker_after_idle_def unfinished_def Let_def hold_fiber_def settle_def upd_sched_def)
  ultimately have turn: "worker_turn env junk code wk pr = Inr (?wk2, ?pr4)"
    using pick idle pr1(1)
    by (auto simp: worker_turn_def worker_step_def worker_dispatch_def fiber_to_run_def no_task_def)
  have "wf_fibers ?fs2" "at_main m (sl_fibers (wk_locals wk)) ?fs2"
    using settle_ok [OF wf(1) idle(1) res] wf(2) by blast+
  moreover have "runnable ?fs2 ?idle" "program_left (fs_store ?fs2 ! ?idle) = idle_prog"
    using idle(1) by (simp_all add: runnable_def settle_def set_state_def GetState_def program_left_def)
  moreover have "list_all (stuck (sl_tid (wk_locals wk)) ?fs2) ?q"
    using q idle(2) stuck_settle [of _ ?fs _ ?idle idle_prog] unfolding list_all_iff by (metis insertE empty_iff fiber_state.distinct)
  ultimately have "waiting m ?wk2 ?pr4" "unchanged pr ?pr4"
    using pr1(2) by (simp_all add: waiting_def unchanged_def same_counts_def)
  then show ?thesis using turn by blast
qed

text \<open>C19: the worker's loop does not end before its time: as long as its thread can take no task
  from the queue and \<open>stopping()\<close> is false, the worker turns round and round through its idle fiber,
  without blocking and without changing the queue, the counters or the rest of the process, however
  many turns it makes. In particular a task that is bound to a thread which is not one of the
  scheduler's, or for a fiber that never leaves the state \<open>EXEC\<close>, such as a thread's main fiber, keeps
  the worker in its loop even after \<open>stop\<close>.\<close>

theorem worker_waits:
  assumes "waiting m wk pr"
    and "\<not> (sc_autoStop (w_sched (p_world pr)) \<and> sc_stopping (w_sched (p_world pr))) \<or>
      sc_active (w_sched (p_world pr)) \<noteq> 0 \<or> sc_fibers (w_sched (p_world pr)) \<noteq> []"
  shows "\<exists>wk' pr'. turns env junk code n wk pr = Inr (wk', pr') \<and> wk_pc wk' \<noteq> W_exit \<and> unchanged pr pr'"
proof -
  have "\<not> stopping (w_sched (p_world pr))" using assms(2) by (auto simp: stopping_def)
  with assms(1) show ?thesis
  proof (induction n arbitrary: wk pr)
    case 0
    then show ?case by (simp add: waiting_def unchanged_def same_counts_def)
  next
    case (Suc n)
    obtain wk1 pr1 where 1: "worker_turn env junk code wk pr = Inr (wk1, pr1)" "waiting m wk1 pr1" "unchanged pr pr1"
      using waiting_turn [OF Suc.prems, of env junk code] by blast
    then have "\<not> stopping (w_sched (p_world pr1))" using Suc.prems(2) by (simp add: unchanged_def same_counts_def stopping_def)
    from Suc.IH [OF 1(2) this] obtain wk2 pr2 where 2: "turns env junk code n wk1 pr1 = Inr (wk2, pr2)"
      "wk_pc wk2 \<noteq> W_exit" "unchanged pr1 pr2" by blast
    have "unchanged pr pr2" using 1(3) 2(3) by (simp add: unchanged_def same_counts_def)
    then show ?case using 1(1) 2 Suc.prems(1) by (simp add: waiting_def)
  qed
qed

text \<open>Worker 7 after \<open>stop\<close>, with a task for thread 8 and one for a main fiber.\<close>

theorem worker_waits_witness:
  "\<exists>wk' pr'. turns \<lparr>fe_stack_size = 1024, fe_malloc = \<lambda>n. True\<rparr> False (\<lambda>i. Coro Return) 1000 (sample_worker 7)
       (upd_sched (\<lambda>sc. sc\<lparr>sc_autoStop := True\<rparr>) (sample_process idle_prog [cb_task (Some 3) 8, fiber_task (Some 0) (-1)])) = Inr (wk', pr') \<and>
     wk_pc wk' \<noteq> W_exit \<and> sc_fibers (w_sched (p_world pr')) = [cb_task (Some 3) 8, fiber_task (Some 0) (-1)]"
proof -
  let ?pr = "upd_sched (\<lambda>sc. sc\<lparr>sc_autoStop := True\<rparr>) (sample_process idle_prog [cb_task (Some 3) 8, fiber_task (Some 0) (-1)])"
  have "waiting 0 (sample_worker 7) ?pr"
    using sample_wf(1) [of idle_prog "[cb_task (Some 3) 8, fiber_task (Some 0) (-1)]"] sample_wf(2) [of 7 idle_prog "[cb_task (Some 3) 8, fiber_task (Some 0) (-1)]"]
    by (simp add: waiting_def runnable_def GetState_def program_left_def elsewhere_def stuck_def eligible_def nonempty_task_def
        sample_simps)
  from worker_waits [OF this, of "\<lparr>fe_stack_size = 1024, fe_malloc = \<lambda>n. True\<rparr>" False "\<lambda>i. Coro Return" 1000]
  show ?thesis by (auto simp: unchanged_def sample_simps)
qed

end
