(* ===== verification/SchedulerSafety.thy ===== *)
theory SchedulerSafety
  imports SchedulerInv
begin

text \<open>
  How a worker of the scheduler can fail: only by a failed assertion. What tasks throw does not reach
  the worker's loop, and the loop never follows an empty pointer.
\<close>

subsection \<open>Calls that fail by assertions only\<close>

definition asserts :: "'a outcome \<Rightarrow> bool" where
  "asserts r \<longleftrightarrow> (\<forall>e. r = Inl e \<longrightarrow> (\<exists>a. e = Assert_fail a))"

lemma asserts_simps [simp]:
  "asserts (Inr x)" "asserts (Inl e) \<longleftrightarrow> (\<exists>a. e = Assert_fail a)"
  "asserts (if b then r else r') \<longleftrightarrow> (if b then asserts r else asserts r')"
  by (simp_all add: asserts_def)

lemma asserts_obind:
  "asserts r \<Longrightarrow> (\<And>x. r = Inr x \<Longrightarrow> asserts (k x)) \<Longrightarrow> asserts (obind r k)"
  by (cases r) auto

lemma asserts_fiber [simp]:
  "asserts (GetThis th fs)" "asserts (YieldToReady c th fs)" "asserts (YieldToHold c th fs)" "asserts (Reset f cb fs)"
  by (auto simp: GetThis_def YieldToReady_def YieldToHold_def Reset_def Let_def
      intro!: asserts_obind split: option.splits prod.splits)

lemma asserts_run_callback [simp]: "asserts (run_callback e cur c th fs s)"
  by (cases "run_coro c s"; cases "snd (run_coro c s)") (auto simp: run_callback_def leave_entry_eq intro!: asserts_obind)

lemma asserts_SwapIn: "t_threadFiber th \<noteq> None \<Longrightarrow> asserts (SwapIn f th fs s)"
  by (auto simp: SwapIn_def Let_def SetThis_def resume_def run_entry_def intro!: asserts_obind split: ucontext.split)

text \<open>A switch leaves the thread with a main fiber.\<close>

lemma keeps_main_fiber:
  "GetThis th fs = Inr (f, th', fs') \<Longrightarrow> t_fiber th \<noteq> None \<Longrightarrow> th' = th"
  "t_fiber th \<noteq> None \<Longrightarrow> YieldToReady c th fs = Inr (th', fs') \<Longrightarrow> t_threadFiber th' = t_threadFiber th"
  "t_fiber th \<noteq> None \<Longrightarrow> YieldToHold c th fs = Inr (th', fs') \<Longrightarrow> t_threadFiber th' = t_threadFiber th"
  by (auto simp: GetThis_def YieldToReady_def YieldToHold_def SwapOut_def SetThis_def obind_Inr_iff split: if_splits)

lemma run_callback_main_fiber:
  assumes "run_callback e cur c th fs s = Inr (th', fs', s')" and th: "t_fiber th \<noteq> None"
  shows "t_threadFiber th' = t_threadFiber th"
  using assms(1) keeps_main_fiber(2,3) [OF th]
  by (cases "run_coro c s"; cases "snd (run_coro c s)")
    (auto simp del: not_None_eq simp: run_callback_def leave_entry_eq SetThis_def obind_Inr_iff)

lemma SwapIn_main_fiber: "SwapIn f th fs s = Inr (th', fs', s') \<Longrightarrow> t_threadFiber th' = t_threadFiber th"
  by (auto simp: SwapIn_def Let_def SetThis_def resume_def run_entry_def GetThis_def
      dest!: run_callback_main_fiber split: if_splits ucontext.splits)

subsection \<open>The worker's pointers\<close>

text \<open>The pointers that the step at the worker's point follows are not empty, and its thread has a main
  fiber.\<close>

definition has_main_fiber :: "worker \<Rightarrow> bool" where
  "has_main_fiber wk \<longleftrightarrow> t_threadFiber (sl_fibers (wk_locals wk)) \<noteq> None"

definition typed :: "worker \<Rightarrow> bool" where
  "typed wk \<longleftrightarrow> has_main_fiber wk \<and>
     (wk_pc wk = W_after_fiber \<longrightarrow> ft_fiber (wk_ft wk) \<noteq> None) \<and> (wk_pc wk = W_after_cb \<longrightarrow> wk_cb wk \<noteq> None)"

lemma swap_in_typed:
  "worker_swap_in f wk pr = Inr (wk', pr') \<Longrightarrow> has_main_fiber wk \<Longrightarrow>
   has_main_fiber wk' \<and> wk_ft wk' = wk_ft wk \<and> wk_cb wk' = wk_cb wk"
  by (auto simp: worker_swap_in_def obind_Inr_iff has_main_fiber_def dest!: SwapIn_main_fiber)

lemma asserts_swap_in: "has_main_fiber wk \<Longrightarrow> asserts (worker_swap_in f wk pr)"
  by (auto simp: worker_swap_in_def has_main_fiber_def intro!: asserts_obind asserts_SwapIn)

lemma fiber_to_run_fiber: "fiber_to_run ft pr = Some f \<Longrightarrow> ft_fiber ft = Some f"
  by (auto simp: fiber_to_run_def split: option.splits if_splits)

lemma dispatch_typed:
  "worker_dispatch env junk code act wk pr = Inr (wk', pr') \<Longrightarrow> typed wk \<Longrightarrow> typed wk'"
  by (auto simp: worker_dispatch_def typed_def obind_Inr_iff has_main_fiber_def
      dest!: swap_in_typed fiber_to_run_fiber split: option.splits if_splits)

lemma after_typed:
  "worker_pick wk pr = Inr (wk', pr') \<Longrightarrow> typed wk \<Longrightarrow> typed wk'"
  "worker_after_fiber wk pr = Inr (wk', pr') \<Longrightarrow> typed wk \<Longrightarrow> typed wk'"
  "worker_after_idle wk pr = Inr (wk', pr') \<Longrightarrow> typed wk \<Longrightarrow> typed wk'"
  by (auto simp: worker_pick_def worker_after_fiber_def worker_after_idle_def Let_def obind_Inr_iff typed_def
      has_main_fiber_def split: option.splits)

lemma after_cb_typed:
  assumes "worker_after_cb wk pr = Inr (wk', pr')" "typed wk"
  shows "typed wk'"
proof -
  have "wk_pc wk' = W_pick \<and> wk_locals wk' = wk_locals wk"
    using assms(1) by (auto simp: worker_after_cb_def Let_def obind_Inr_iff split: option.splits if_splits)
  then show ?thesis using assms(2) by (simp add: typed_def has_main_fiber_def)
qed

lemma worker_step_typed:
  assumes "worker_step env junk code wk pr = Inr (wk', pr')" "typed wk"
  shows "typed wk'"
  using assms dispatch_typed after_typed after_cb_typed
  by (cases "wk_pc wk") (simp_all add: worker_step_def, blast+)

lemma pick_never_fails: "list_all nonempty_task q \<Longrightarrow> \<exists>r. pick_task state tid q = Inr r"
  by (induction q) (auto simp: nonempty_task_def)

lemma asserts_dispatch: "has_main_fiber wk \<Longrightarrow> asserts (worker_dispatch env junk code act wk pr)"
  by (auto simp: worker_dispatch_def cb_fiber_for_def has_main_fiber_def new_Fiber_eq Let_def
      intro!: asserts_obind asserts_swap_in split: option.split)

lemma asserts_worker_step:
  assumes "typed wk" "list_all nonempty_task (sc_fibers (w_sched (p_world pr)))"
  shows "asserts (worker_step env junk code wk pr)" "wk_pc wk = W_pick \<Longrightarrow> \<exists>r. worker_step env junk code wk pr = Inr r"
proof -
  obtain r where pick: "pick_task (\<lambda>f. GetState f (p_fibers pr)) (sl_tid (wk_locals wk)) (sc_fibers (w_sched (p_world pr))) = Inr r"
    using pick_never_fails [OF assms(2)] by blast
  then have p: "\<exists>r. worker_pick wk pr = Inr r" by (cases r) (simp add: worker_pick_def Let_def)
  then show "wk_pc wk = W_pick \<Longrightarrow> \<exists>r. worker_step env junk code wk pr = Inr r" by (simp add: worker_step_def)
  show "asserts (worker_step env junk code wk pr)"
  proof (cases "wk_pc wk")
    case W_after_cb
    then show ?thesis using assms(1)
      by (auto simp: worker_step_def typed_def worker_after_cb_def Let_def intro!: asserts_obind)
  qed (use assms(1) p asserts_dispatch [of wk] in
      \<open>auto simp: worker_step_def typed_def worker_after_fiber_def worker_after_idle_def Let_def\<close>)
qed

lemma worker_begin_typed: "worker_begin self env junk lo pr = Inr (wk, pr') \<Longrightarrow>
    t_threadFiber (sl_fibers lo) = t_fiber (sl_fibers lo) \<Longrightarrow> typed wk"
  by (auto simp: worker_begin_def obind_Inr_iff new_Fiber_eq Let_def typed_def has_main_fiber_def GetThis_def
      new_main_Fiber_def SetThis_def split: option.splits if_splits)

lemma reachable_typed:
  assumes "sys_reachable self env junk code pr0 st"
  shows "list_all typed (fst st)"
  using assms
proof (induction rule: sys_reachable.induct)
  case (sys_more st st')
  show ?case using sys_more(2,3)
  proof (induction rule: sys_step.induct)
    case (sys_work i ws pr wk pr')
    then have "typed wk" using worker_step_typed [OF sys_work(2)] by (simp add: list_all_length)
    then show ?case using sys_work(1,3) by (auto simp: list_all_length nth_list_update)
  next
    case (sys_join lo pr wk pr' ws)
    then show ?case using worker_begin_typed by simp
  qed simp_all
qed simp



end
