(* ===== verification/StartStop.thy ===== *)
theory StartStop
  imports Scheduler
begin

text \<open>
  The threads of a scheduler from \<open>start\<close> to the joining at the end of \<open>stop\<close>, in
  \<open>primo/schedule.cpp\<close>: also when the system refuses to create one of them.
\<close>

subsection \<open>Joining\<close>

text \<open>The object of the thread in slot \<open>i\<close> of the scheduler's vector, whose handle is named by the slot;
  joining goes through the vector and stops at the first pointer that is empty or whose \<open>join\<close> throws.
  \<open>ret i\<close> is the result of \<open>pthread_join\<close>.\<close>

definition thread_obj :: "nat \<Rightarrow> string \<times> int \<Rightarrow> unit thread_object" where
  "thread_obj i t = \<lparr>mId = snd t, mThread = Some i, mCb = Some (), mName = fst t, mSemaphore = 0\<rparr>"

fun join_threads ::
  "(nat \<Rightarrow> int) \<Rightarrow> nat \<Rightarrow> (string \<times> int) option list \<Rightarrow> release list \<times> message list \<times> unit outcome" where
  "join_threads ret i [] = ([], [], Inr ())"
| "join_threads ret i (None # ts) = ([], [], Inl Null_deref)"
| "join_threads ret i (Some t # ts) =
     (case Thread_join (ret i) (thread_obj i t) of
        (_, rel, msgs, Inl e) \<Rightarrow> (rel, msgs, Inl e)
      | (_, rel, msgs, Inr _) \<Rightarrow>
          (case join_threads ret (Suc i) ts of (rel', msgs', r) \<Rightarrow> (rel @ rel', msgs @ msgs', r)))"

lemma join_made:
  "(\<And>j. j < length ts \<Longrightarrow> ret (i + j) = 0) \<Longrightarrow>
   join_threads ret i (map Some ts @ us) =
     (case join_threads ret (i + length ts) us of
        (rel, msgs, r) \<Rightarrow> (map Joined [i ..< i + length ts] @ rel, msgs, r))"
proof (induction ts arbitrary: i)
  case (Cons t ts)
  have "ret i = 0" using Cons.prems [of 0] by simp
  moreover have "ret (Suc i + j) = 0" if "j < length ts" for j using Cons.prems [of "Suc j"] that by simp
  ultimately show ?case
    using Cons.IH [of "Suc i"]
    by (cases "join_threads ret (Suc (i + length ts)) us")
      (simp add: Thread_join_def thread_obj_def upt_rec [of i] del: upt_Suc)
qed (auto split: prod.split)

lemma join_nothing: "join_threads ret i (replicate n None) = ([], [], if n = 0 then Inr () else Inl Null_deref)"
  by (cases n) simp_all

subsection \<open>Starting\<close>

text \<open>The thread in slot \<open>i\<close>: the vector and the list of ids after the first \<open>k\<close> threads of \<open>n\<close>.\<close>

definition made_thread :: "string \<Rightarrow> (nat \<Rightarrow> int) \<Rightarrow> nat \<Rightarrow> string \<times> int" where
  "made_thread name tid i = (name @ ''_'' @ show_nat i, tid i)"

definition after_threads :: "(nat \<Rightarrow> int) \<Rightarrow> nat \<Rightarrow> scheduler \<Rightarrow> scheduler" where
  "after_threads tid k sc =
     sc\<lparr>sc_threads := map Some (map (made_thread (sc_name sc) tid) [0 ..< k]) @ replicate (sc_threadCount sc - k) None,
        sc_threadIds := sc_threadIds sc @ map tid [0 ..< k]\<rparr>"

lemma update_next: "k < n \<Longrightarrow> length xs = k \<Longrightarrow> (xs @ replicate (n - k) y)[k := x] = (xs @ [x]) @ replicate (n - Suc k) y"
  by (cases "n - k") (auto simp: list_update_append)

lemma start_threads_more:
  assumes "\<And>i. i < k \<Longrightarrow> create i = Some (tid i)" "k \<le> sc_threadCount sc" "j \<le> k"
  shows "start_threads create [j ..< sc_threadCount sc] (after_threads tid j sc) =
    start_threads create [k ..< sc_threadCount sc] (after_threads tid k sc)"
  using assms(3)
proof (induction rule: inc_induct)
  case (step j)
  have "(after_threads tid j sc)\<lparr>sc_threads := (sc_threads (after_threads tid j sc))
        [j := Some (sc_name (after_threads tid j sc) @ ''_'' @ show_nat j, tid j)],
      sc_threadIds := sc_threadIds (after_threads tid j sc) @ [tid j]\<rparr> = after_threads tid (Suc j) sc"
    using step.hyps assms(2) update_next [of j "sc_threadCount sc" "map Some (map (made_thread (sc_name sc) tid) [0 ..< j])"]
    by (simp add: after_threads_def made_thread_def)
  then show ?case
    using step.IH step.hyps assms(1,2) by (simp add: upt_conv_Cons)
qed simp

lemma start_from_stopped:
  assumes "sc_stopping sc" "sc_threads sc = []"
  shows "start create sc = start_threads create [0 ..< sc_threadCount sc] (after_threads tid 0 (sc\<lparr>sc_stopping := False\<rparr>))"
  using assms by (simp add: start_def Let_def after_threads_def)

text \<open>C28: the threads of a scheduler. \<open>start\<close> of a stopped scheduler makes as many threads as it was
  constructed for, named after it and numbered, and records their ids in this order; \<open>start\<close> again does
  nothing; and the end of \<open>stop\<close> joins each of them once, in order. When the system refuses to create
  the thread number \<open>k\<close>, \<open>start\<close> throws and leaves the scheduler marked as started with \<open>k\<close> threads
  and empty pointers for the others, so that another \<open>start\<close> does nothing, and \<open>stop\<close> follows the first
  empty pointer after joining the \<open>k\<close> threads.\<close>

theorem start_and_join:
  assumes "sc_stopping sc" and "sc_threads sc = []" and "\<And>i. i < k \<Longrightarrow> create i = Some (tid i)"
    and "k = sc_threadCount sc \<or> k < sc_threadCount sc \<and> create k = None"
    and "\<And>i. i < k \<Longrightarrow> ret i = 0"
  shows "\<exists>sc'. start create sc =
      (sc', if k = sc_threadCount sc then None else Some (Throw (Logic_error ''pthread_create error''))) \<and>
    sc_threads sc' = map Some (map (made_thread (sc_name sc) tid) [0 ..< k]) @ replicate (sc_threadCount sc - k) None \<and>
    sc_threadIds sc' = sc_threadIds sc @ map tid [0 ..< k] \<and> start create' sc' = (sc', None) \<and>
    join_threads ret 0 (fst (stop_take_threads sc')) =
      (map Joined [0 ..< k], [], if k = sc_threadCount sc then Inr () else Inl Null_deref) \<and>
    sc_threads (snd (stop_take_threads sc')) = []"
proof -
  let ?sc = "sc\<lparr>sc_stopping := False\<rparr>"
  let ?sc' = "after_threads tid k ?sc"
  have "k \<le> sc_threadCount ?sc" using assms(4) by auto
  from start_threads_more [where j = 0 and create = create and tid = tid, OF assms(3) this]
  have "start create sc = start_threads create [k ..< sc_threadCount sc] ?sc'"
    using start_from_stopped [OF assms(1,2), of create tid] by simp
  also have "\<dots> = (?sc', if k = sc_threadCount sc then None else Some (Throw (Logic_error ''pthread_create error'')))"
    using assms(4) by (auto simp: upt_conv_Cons)
  finally have s: "start create sc = \<dots>" .
  have "join_threads ret 0 (sc_threads ?sc') =
      (map Joined [0 ..< k], [], if k = sc_threadCount sc then Inr () else Inl Null_deref)"
    using join_made [of "map (made_thread (sc_name sc) tid) [0 ..< k]" ret 0 "replicate (sc_threadCount sc - k) None"]
      assms(4,5) by (auto simp: after_threads_def join_nothing)
  then show ?thesis using s
    by (intro exI [of _ ?sc']) (simp add: after_threads_def start_def stop_take_threads_def)
qed

text \<open>Three threads, of which the third cannot be created.\<close>

theorem start_and_join_witness:
  "\<exists>sc'. start (\<lambda>i. if i < 2 then Some (100 + int i) else None) ((initial_scheduler ''s'')\<lparr>sc_threadCount := 3\<rparr>) =
      (sc', Some (Throw (Logic_error ''pthread_create error''))) \<and>
    map (map_option snd) (sc_threads sc') = [Some 100, Some 101, None] \<and>
    join_threads (\<lambda>i. 0) 0 (fst (stop_take_threads sc')) = ([Joined 0, Joined 1], [], Inl Null_deref)"
proof -
  let ?sc = "(initial_scheduler ''s'')\<lparr>sc_threadCount := 3\<rparr>" and ?create = "\<lambda>i :: nat. if i < 2 then Some (100 + int i) else None"
  have "sc_stopping ?sc" "sc_threads ?sc = []" "2 = sc_threadCount ?sc \<or> 2 < sc_threadCount ?sc \<and> ?create 2 = None"
    by (simp_all add: initial_scheduler_def)
  from start_and_join [where k = 2 and create = ?create, OF this(1,2) _ this(3), of "\<lambda>i. 100 + int i" "\<lambda>i. 0" ?create]
  show ?thesis by (auto simp: initial_scheduler_def made_thread_def numeral_2_eq_2)
qed

end
