(* ===== verification/SwitchTo.thy ===== *)
theory SwitchTo
  imports SchedulerProps
begin

text \<open>
  \<open>Scheduler::switchTo\<close>, which hands the running fiber over to another scheduler: the fiber is put
  into the other scheduler's queue while it is still running, and the state \<open>EXEC\<close> keeps the other
  scheduler's workers from it until the worker it leaves has marked it as held.
\<close>

text \<open>A fiber that is executing stays in the queue.\<close>

lemma executing_stays:
  assumes "list_all nonempty_task q" "t \<in> set q" "ft_fiber t = Some f" "state f = EXEC"
  shows "\<exists>r rest tk. pick_task state tid q = Inr (r, rest, tk) \<and> r \<noteq> Some t \<and> t \<in> set rest"
proof -
  have no: "\<not> eligible state tid t" using assms(3,4) by (simp add: eligible_def)
  show ?thesis
  proof (cases "dropWhile (\<lambda>t. \<not> eligible state tid t) q")
    case Nil
    then show ?thesis using assms(2) pick_task_spec [OF assms(1), of state tid] by (simp del: dropWhile_eq_Nil_conv)
  next
    case (Cons u post)
    then have u: "eligible state tid u" using hd_dropWhile [of "\<lambda>t. \<not> eligible state tid t" q] by simp
    have "t \<in> set (takeWhile (\<lambda>t. \<not> eligible state tid t) q @ u # post)"
      using assms(2) takeWhile_dropWhile_id [of "\<lambda>t. \<not> eligible state tid t" q] Cons by metis
    then show ?thesis using pick_task_spec [OF assms(1), of state tid] Cons u no by auto
  qed
qed

lemma last_taken:
  assumes "list_all nonempty_task q" "list_all (\<lambda>t. \<not> eligible state tid t) q" "eligible state tid t" "nonempty_task t"
  shows "\<exists>tk. pick_task state tid (q @ [t]) = Inr (Some t, q, tk)"
proof -
  have "dropWhile (\<lambda>t. \<not> eligible state tid t) (q @ [t]) = [t]" "takeWhile (\<lambda>t. \<not> eligible state tid t) (q @ [t]) = q"
    using assms(2,3) by (auto simp: list_all_iff takeWhile_append dropWhile_append)
  then show ?thesis using pick_task_spec [of "q @ [t]" state tid] assms(1,4) by simp
qed


text \<open>A fiber of scheduler 0, on thread 7, that switches to scheduler 1; thread 8 is to take it.\<close>

definition running_fiber :: "nat proc" where
  "running_fiber =
     (let pr = sample_process (Coro Return) []
      in pr\<lparr>p_fibers := save_context 1 (In_callback MainFunc (Coro Return)) (set_state 1 EXEC (p_fibers pr))\<rparr>)"


end
