(* ===== verification/Util.thy ===== *)
theory Util
  imports LogMacros
begin

text \<open>
  The utilities of \<open>primo/util.h\<close>, \<open>primo/util.cpp\<close> and \<open>primo/macro.h\<close>: thread numbers, names of types,
  stack traces and the assertion macros, which report to the root logger. What the system says of the
  stack is in the record \<open>util_env\<close>: the return addresses on the stack, innermost first, the contents
  of memory fresh from \<open>malloc\<close>, the text for an address, and for which arrays \<open>backtrace_symbols\<close>
  returns a null pointer. \<open>malloc\<close> itself succeeds; sizes and the number of frames to skip are not
  negative, as in all calls.
\<close>

subsection \<open>Threads and types\<close>

text \<open>The system call gives a \<open>long\<close>, of which a \<open>pid_t\<close> keeps the lower half.\<close>

definition GetThreadId :: "64 word \<Rightarrow> u32" where
  "GetThreadId gettid = ucast gettid"

definition GetThreadName :: string where
  "GetThreadName = '' ''"

text \<open>\<open>TypeToName\<close>: \<open>demangle\<close> stands for \<open>abi::__cxa_demangle\<close> and gives \<open>None\<close> for its null pointer, from
  which no string can be made.\<close>

definition TypeToName :: "(string \<Rightarrow> string option) \<Rightarrow> string \<Rightarrow> string outcome" where
  "TypeToName demangle name =
     (case demangle name of
        None \<Rightarrow> Inl (Throw (Logic_error ''basic_string::_M_construct null not valid''))
      | Some s \<Rightarrow> Inr s)"

subsection \<open>Stack traces\<close>

record util_env =
  ue_log :: log_env
  ue_site :: log_site
  ue_logger :: nat
  ue_frames :: "u64 list"
  ue_junk :: "nat \<Rightarrow> u64"
  ue_symbol :: "u64 \<Rightarrow> string"
  ue_no_symbols :: "u64 list \<Rightarrow> bool"

text \<open>What changes: the number of blocks of memory that are allocated, and the loggers.\<close>

type_synonym world = "nat \<times> log_state"

definition backtrace :: "util_env \<Rightarrow> u64 list \<Rightarrow> nat \<times> u64 list" where
  "backtrace ue array =
     (let s = min (length array) (length (ue_frames ue))
      in (s, take s (ue_frames ue) @ drop s array))"

definition backtrace_symbols :: "util_env \<Rightarrow> u64 list \<Rightarrow> string list option" where
  "backtrace_symbols ue array = (if ue_no_symbols ue array then None else Some (map (ue_symbol ue) array))"

text \<open>\<open>Backtrace\<close>: all slots of the array are looked up, also those that \<open>backtrace\<close> did not fill; when
  that fails, the array is not given back.\<close>

definition Backtrace ::
  "util_env \<Rightarrow> string list \<Rightarrow> nat \<Rightarrow> nat \<Rightarrow> world \<Rightarrow> (string list \<times> world) outcome" where
  "Backtrace ue strs size' skip w =
     (case w of (blocks, st) \<Rightarrow>
        (let blocks = blocks + 1;
             (s, array) = backtrace ue (map (ue_junk ue) [0 ..< size'])
         in case backtrace_symbols ue array of
              None \<Rightarrow>
                obind (P_LOG_ERROR (ue_log ue) (ue_site ue) (ue_logger ue) ''backtrace_symbols error'' st)
                  (\<lambda>st. Inr (strs, blocks, st))
            | Some str \<Rightarrow> Inr (strs @ map (\<lambda>i. str ! i) [skip ..< s], blocks + 1 - 1 - 1, st)))"

definition BacktraceToString ::
  "util_env \<Rightarrow> nat \<Rightarrow> nat \<Rightarrow> string \<Rightarrow> world \<Rightarrow> (string \<times> world) outcome" where
  "BacktraceToString ue size' skip prefix' w =
     obind (Backtrace ue [] size' skip w)
       (\<lambda>(strs, w). Inr (concat (map (\<lambda>s. s @ newline) strs), w))"

text \<open>The prefix that the assertion macros pass plays no role.\<close>

lemma BacktraceToString_prefix: "BacktraceToString ue n k p w = BacktraceToString ue n k q w"
  by (simp add: BacktraceToString_def)

text \<open>The frames that a trace shows: those in the array without the first few.\<close>

definition shown_frames :: "util_env \<Rightarrow> nat \<Rightarrow> nat \<Rightarrow> u64 list" where
  "shown_frames ue size' skip = drop skip (take size' (ue_frames ue))"

definition symbols_found :: "util_env \<Rightarrow> nat \<Rightarrow> bool" where
  "symbols_found ue size' \<longleftrightarrow> \<not> ue_no_symbols ue (snd (backtrace ue (map (ue_junk ue) [0 ..< size'])))"

lemma map_nth_slice: "n \<le> length xs \<Longrightarrow> map (\<lambda>i. xs ! i) [m ..< n] = drop m (take n xs)"
  by (rule nth_equalityI) (simp_all add: add.commute)

text \<open>The slots that were not filled do not show.\<close>

lemma Backtrace_found:
  assumes "symbols_found ue size'"
  shows "Backtrace ue strs size' skip (blocks, st) =
         Inr (strs @ map (ue_symbol ue) (shown_frames ue size' skip), blocks, st)"
proof -
  let ?s = "min size' (length (ue_frames ue))"
  let ?array = "take ?s (ue_frames ue) @ drop ?s (map (ue_junk ue) [0 ..< size'])"
  have "map (\<lambda>i. map (ue_symbol ue) ?array ! i) [skip ..< ?s] = map (ue_symbol ue) (shown_frames ue size' skip)"
    by (subst map_nth_slice) (simp_all add: take_map drop_map shown_frames_def min_def)
  then show ?thesis using assms
    by (simp add: Backtrace_def backtrace_def backtrace_symbols_def symbols_found_def Let_def)
qed

text \<open>Without symbols a trace is empty, the error is logged, and a block of memory is lost.\<close>

lemma Backtrace_not_found:
  assumes "\<not> symbols_found ue size'" and "wf_log st" and "ue_logger ue < length (ls_loggers st)"
  obtains st' where "wf_log st'" "ls_loggers st' = ls_loggers st"
    "Backtrace ue strs size' skip (blocks, st) = Inr (strs, Suc blocks, st')"
    "P_LOG_ERROR (ue_log ue) (ue_site ue) (ue_logger ue) ''backtrace_symbols error'' st = Inr st'"
proof -
  obtain st' where st': "wf_log st'" "ls_loggers st' = ls_loggers st"
    "P_LOG_ERROR (ue_log ue) (ue_site ue) (ue_logger ue) ''backtrace_symbols error'' st = Inr st'"
    using P_LOG_total [OF assms(2,3)] unfolding P_LOG_ERROR_def by blast
  have "Backtrace ue strs size' skip (blocks, st) = Inr (strs, Suc blocks, st')"
    using st'(3) assms(1)
    by (simp add: Backtrace_def backtrace_symbols_def symbols_found_def Let_def case_prod_beta)
  from st'(1,2) this st'(3) show ?thesis by (rule that)
qed

subsection \<open>Assertions\<close>

text \<open>The macros log a message, with a stack trace at its end, to the root logger and then evaluate the
  condition once more, in \<open>assert\<close>: \<open>x\<close> and \<open>again\<close> are its two values, \<open>expr\<close> is its text. The stack trace
  is made while the message is being written, if the root logger lets it through, and the message is
  sent when it is complete. The result is the state and the fault that ends the program, if any.\<close>

definition assert_message :: "util_env \<Rightarrow> log_site \<Rightarrow> string \<Rightarrow> world \<Rightarrow> world outcome" where
  "assert_message ue site s w =
     (case w of (blocks, st) \<Rightarrow>
        (let root = GetRoot st in
         if lg_level (ls_loggers st ! root) \<le> ERROR then
           obind (BacktraceToString ue 100 2 ''   '' (blocks, st))
             (\<lambda>(trace, blocks, st).
                obind (LogEventWrap_destroy (ue_log ue) (event_write (s @ trace) (macro_event site root ERROR)) st)
                  (\<lambda>st. Inr (blocks, st)))
         else Inr (blocks, st)))"

definition assert_macro ::
  "util_env \<Rightarrow> log_site \<Rightarrow> string \<Rightarrow> bool \<Rightarrow> bool \<Rightarrow> string \<Rightarrow> world \<Rightarrow> world \<times> fault option" where
  "assert_macro ue site s x again expr w =
     (if \<not> x
      then (case assert_message ue site s w of
              Inl e \<Rightarrow> (w, Some e)
            | Inr w \<Rightarrow> (w, if again then None else Some (Assert_fail expr)))
      else (w, None))"

definition P_ASSERT ::
  "util_env \<Rightarrow> log_site \<Rightarrow> bool \<Rightarrow> bool \<Rightarrow> string \<Rightarrow> world \<Rightarrow> world \<times> fault option" where
  "P_ASSERT ue site x again expr w =
     assert_macro ue site (''ASSERTION: '' @ expr @ newline @ '' backtrace '' @ newline) x again expr w"

text \<open>\<open>P_ASSERT2\<close> adds the text of its second argument.\<close>

definition P_ASSERT2 ::
  "util_env \<Rightarrow> log_site \<Rightarrow> bool \<Rightarrow> bool \<Rightarrow> string \<Rightarrow> string \<Rightarrow> world \<Rightarrow> world \<times> fault option" where
  "P_ASSERT2 ue site x again expr w' w =
     assert_macro ue site
       (''ASSERTION: '' @ expr @ newline @ w' @ newline @ '' backtrace '' @ newline) x again expr w"

text \<open>The text of a failed assertion.\<close>

definition assertion_text :: "util_env \<Rightarrow> string \<Rightarrow> string" where
  "assertion_text ue expr =
     ''ASSERTION: '' @ expr @ newline @ '' backtrace '' @ newline @
     concat (map (\<lambda>a. ue_symbol ue a @ newline) (shown_frames ue 100 2))"

lemma assert_message_found:
  assumes "symbols_found ue 100" and wf: "wf_log st"
  shows "assert_message ue site (''ASSERTION: '' @ expr @ newline @ '' backtrace '' @ newline) (blocks, st) =
         obind (P_LOG_ERROR (ue_log ue) site (GetRoot st) (assertion_text ue expr) st) (\<lambda>st. Inr (blocks, st))"
  using wf by (simp add: assert_message_def BacktraceToString_def Backtrace_found [OF assms(1)] Let_def
      P_LOG_ERROR_def P_LOG_def assertion_text_def GetRoot_def wf_log_def comp_def)

lemma assert_message_total:
  assumes wf: "wf_log st" and g: "ue_logger ue < length (ls_loggers st)"
  shows "\<exists>blocks' st'. assert_message ue site s (blocks, st) = Inr (blocks', st') \<and> wf_log st' \<and>
           ls_loggers st' = ls_loggers st"
proof -
  obtain trace blocks' st' where t: "BacktraceToString ue 100 2 ''   '' (blocks, st) = Inr (trace, blocks', st')"
    and st': "wf_log st'" "ls_loggers st' = ls_loggers st"
  proof (cases "symbols_found ue 100")
    case True
    then show ?thesis using that wf by (simp add: BacktraceToString_def Backtrace_found)
  next
    case False
    then show ?thesis using that by (auto simp: BacktraceToString_def elim: Backtrace_not_found [OF _ wf g, of 100 "[]" 2 blocks])
  qed
  have "GetRoot st < length (ls_loggers st')" using wf st'(2) by (simp add: wf_log_def GetRoot_def)
  then have "\<exists>st''. LogEventWrap_destroy (ue_log ue) (event_write (s @ trace) (macro_event site (GetRoot st) ERROR)) st'
      = Inr st'' \<and> wf_log st'' \<and> ls_loggers st'' = ls_loggers st'"
    unfolding LogEventWrap_destroy_def macro_event_simps using Log_total [OF st'(1)] by blast
  then show ?thesis using t st' wf by (auto simp: assert_message_def Let_def)
qed

text \<open>C40: failed assertions. In a well-formed logging state an assertion that holds does nothing; one that
  fails ends the program with its condition and with no other fault, unless its condition holds when
  it is evaluated for the second time. Before that, if the symbols of the stack are found, it has
  logged one error at the root logger, with the condition and the frames from the third on, and
  done nothing else; no memory is lost.\<close>

theorem assertion_reports:
  assumes "wf_log st" and "ue_logger ue < length (ls_loggers st)"
  shows "P_ASSERT ue site True again expr (blocks, st) = ((blocks, st), None) \<and>
    (\<exists>blocks' st'.
       P_ASSERT ue site False again expr (blocks, st) =
         ((blocks', st'), if again then None else Some (Assert_fail expr)) \<and> wf_log st' \<and>
       (symbols_found ue 100 \<longrightarrow> blocks' = blocks \<and>
          P_LOG_ERROR (ue_log ue) site (GetRoot st) (assertion_text ue expr) st = Inr st'))"
proof (intro conjI)
  show "P_ASSERT ue site True again expr (blocks, st) = ((blocks, st), None)"
    by (simp add: P_ASSERT_def assert_macro_def)
  let ?s = "''ASSERTION: '' @ expr @ newline @ '' backtrace '' @ newline"
  obtain blocks' st' where m: "assert_message ue site ?s (blocks, st) = Inr (blocks', st')" "wf_log st'"
    using assert_message_total [OF assms] by blast
  then have "P_ASSERT ue site False again expr (blocks, st) =
      ((blocks', st'), if again then None else Some (Assert_fail expr))"
    by (simp add: P_ASSERT_def assert_macro_def)
  moreover have "blocks' = blocks \<and> P_LOG_ERROR (ue_log ue) site (GetRoot st) (assertion_text ue expr) st = Inr st'"
    if "symbols_found ue 100"
    using m(1) unfolding assert_message_found [OF that assms(1)] by (auto simp: obind_Inr_iff)
  ultimately show "\<exists>blocks' st'.
       P_ASSERT ue site False again expr (blocks, st) =
         ((blocks', st'), if again then None else Some (Assert_fail expr)) \<and> wf_log st' \<and>
       (symbols_found ue 100 \<longrightarrow> blocks' = blocks \<and>
          P_LOG_ERROR (ue_log ue) site (GetRoot st) (assertion_text ue expr) st = Inr st')"
    using m(2) by blast
qed

definition example_env :: util_env where
  "example_env =
     \<lparr>ue_log = \<lparr>le_strftime = (\<lambda>f t. []), le_can_open = (\<lambda>n. True)\<rparr>,
      ue_site = \<lparr>site_file = ''util.cpp'', site_line = 40, site_thread = 7, site_time = 0\<rparr>,
      ue_logger = 1, ue_frames = [1, 2, 3], ue_junk = (\<lambda>i. 0), ue_symbol = (\<lambda>a. ''f''),
      ue_no_symbols = (\<lambda>array. False)\<rparr>"

definition example_site :: log_site where
  "example_site = \<lparr>site_file = ''fiber.cpp'', site_line = 60, site_thread = 7, site_time = 0\<rparr>"

theorem assertion_reports_witness:
  "assertion_text example_env ''mStack'' = ''ASSERTION: mStack'' @ newline @ '' backtrace '' @ newline @ ''f'' @ newline \<and>
   (\<exists>blocks st. P_ASSERT example_env example_site False False ''mStack'' (0, system_state) = ((blocks, st), Some (Assert_fail ''mStack'')))"
proof
  show "assertion_text example_env ''mStack'' = ''ASSERTION: mStack'' @ newline @ '' backtrace '' @ newline @ ''f'' @ newline"
    by code_simp
  have "ue_logger example_env < length (ls_loggers system_state)"
    by (simp add: example_env_def system_state_loggers)
  from assertion_reports [OF wf_system this, where site = example_site and again = False and expr = "''mStack''" and blocks = 0]
  show "\<exists>blocks st. P_ASSERT example_env example_site False False ''mStack'' (0, system_state) = ((blocks, st), Some (Assert_fail ''mStack''))"
    by auto
qed

end
