(* ===== verification/Spec2Isabelle.thy ===== *)
theory Spec2Isabelle
  imports LogsDocument LogThreadsReconfigure LogThreadsDeliver LogThreadsRace VarThreadsSafe VarThreadsRace RegThreadsSafe ConfigLoad Locks RootFiber RoundRobin SchedulerSafety StartStop SwitchTo Util
begin

text \<open>
  A model of the C++ server framework in the directory \<open>primo\<close>: its logging system, its configuration
  system, and its threads, locks, fibers and fiber scheduler, with the properties that make them
  correct.

  \<^bold>\<open>The program.\<close> Loggers (\<open>log/Logger.h\<close>, \<open>log/Logger.cpp\<close>) pass events to appenders, which write
  them through formatters compiled from patterns; a manager keeps one logger per name, and a logger
  without appenders passes its events on to the root logger. Configuration variables (\<open>config.h\<close>,
  \<open>config.cpp\<close>) are registered by name, convert their values to and from YAML text, and tell
  listeners of changes. The variable \<open>logs\<close> connects the two: its listener brings the loggers in line
  with the definitions loaded from a document. Threads, semaphores and locks (\<open>thread.h\<close>,
  \<open>thread.cpp\<close>) wrap those of the system. Fibers (\<open>fiber.h\<close>, \<open>fiber.cpp\<close>) are callbacks that can
  yield, and the scheduler (\<open>schedule.h\<close>, \<open>schedule.cpp\<close>) runs fibers and functions from a queue on a
  number of threads.

  \<^bold>\<open>The theories,\<close> in the order in which they build on each other.

  \<^item> Shared: \<open>Prelude\<close> (machine words, the ways a call can fail, string functions of the C and C++
    libraries), \<open>StdMap\<close> (\<open>std::map\<close> and \<open>std::set\<close> as lists ordered by key, with the locale
    \<open>map_store\<close>), \<open>Yaml\<close> (what the sources use of yaml-cpp), \<open>Registry\<close> (the locale of a registry
    that hands out one object per name; the logger manager and the configuration registry
    interpret it), \<open>RankedLocks\<close> (the locales of threads that take locks in the order of a rank; the
    logging system, the configuration variables and the registry interpret them), \<open>Singleton\<close>.
  \<^item> Logging: \<open>LogLevel\<close> (\<open>LOG_LEVEL\<close>), \<open>LogPattern\<close> (\<open>LogFormatter::Init\<close>), \<open>LogEvent\<close> (events and
    format items), \<open>LogSystem\<close> (\<open>Logger\<close>, \<open>LogAppender\<close>, \<open>StdOutAppender\<close>, \<open>FileAppender\<close>),
    \<open>LogManager\<close> (\<open>LoggerMgr\<close> and the logging macros), \<open>LogRouting\<close> (where an event ends up),
    \<open>LogMacros\<close> (the macros for single levels and names, the loggers fetched before \<open>main\<close>).
  \<^item> Logging by several threads: \<open>LogThreads\<close> (the same operations as statements of interleaved
    threads), \<open>LogThreadsOk\<close> and \<open>LogThreadsSafe\<close> (nothing waits for ever), \<open>LogThreadsAlone\<close> (a call that
    nobody disturbs does what \<open>LogSystem\<close> and \<open>LogManager\<close> say), \<open>LogThreadsDeliver\<close> (what arrives in
    the appenders), \<open>LogThreadsRace\<close> (what the locks do not prevent), \<open>LogThreadsConfig\<close> (the listener
    of \<open>logs\<close> as statements) and \<open>LogThreadsReconfigure\<close> (which are not disturbed by threads that log).
  \<^item> Configuration: \<open>ConfigVar\<close> (\<open>CfgVar\<close>), \<open>Casts\<close> (the container specialisations of \<open>LexicalCast\<close>),
    \<open>Config\<close> (\<open>Config::LookUp\<close>, \<open>LoadFromYaml\<close>), \<open>ConfigLoad\<close> (what loading a document does to the registry), \<open>ConfigEffects\<close> (and to the rest of
    the program, with the locale \<open>tame_log\<close>),
    \<open>VarThreads\<close> (the operations of \<open>CfgVar\<close> as statements of interleaved threads), \<open>VarThreadsSafe\<close> (which
    listeners are safe), \<open>VarThreadsRace\<close> (which are not, and the shared counter of keys),
    \<open>RegThreads\<close> and \<open>RegThreadsSafe\<close> (the registry used by several threads).
  \<^item> Both: \<open>LogConfig\<close> (\<open>LogDefine\<close>, \<open>LogAppenderDefine\<close> and their conversions), \<open>LogApply\<close> (the
    listener of \<open>logs\<close>), \<open>LogsInForce\<close> (that definitions stay in force, and what a defined logger
    prints), \<open>LogsVariable\<close> (the variable \<open>logs\<close> from text to loggers), \<open>LogsDocument\<close> (the variable in
    the registry, which logs through the loggers it configures, and a document that is loaded).
  \<^item> Concurrency: \<open>Threads\<close> (\<open>Semaphore\<close>, \<open>Thread\<close>), \<open>Locks\<close> (the lock classes, scope guards, and the
    locking of \<open>CfgVar\<close> and \<open>Config\<close>), \<open>Fiber\<close> and \<open>FiberProps\<close> (\<open>Fiber\<close>, with a switch as one operation),
    \<open>Switching\<close> and \<open>SwitchingProps\<close> (\<open>Fiber\<close> again, down to \<open>swapcontext\<close>), \<open>Scheduler\<close> (the queue,
    construction, start and stop), \<open>StartStop\<close> (the threads from \<open>start\<close> to the end of \<open>stop\<close>), \<open>SwitchTo\<close> (handing a
    fiber over to another scheduler),
    \<open>Workers\<close> (\<open>Scheduler::run\<close> on worker threads), \<open>SchedulerProps\<close>, \<open>SchedulerInv\<close>,
    \<open>SchedulerSafety\<close> and \<open>RoundRobin\<close> (one worker, any number of them, how they fail, and how they
    end), \<open>SchedulerCode\<close> (\<open>Scheduler::run\<close> statement by statement) and \<open>RootFiber\<close> (the same on the
    root fiber of the thread that made the scheduler).
  \<^item> \<open>Util\<close>: thread numbers, type names, stack traces as text, the assertion macros and what they log.

  \<^bold>\<open>How state and operations correspond.\<close> An operation is one definition with the name of its function;
  methods take and return the records that hold the state they reach. Objects shared by pointer
  live in stores, lists in the state, and are named by their index: loggers and appenders in
  \<open>log_state\<close>, variables in \<open>config\<close>, fibers in \<open>fibers\<close>. A result of type \<open>outcome\<close> is a value or a
  \<open>fault\<close>: an exception, a failed assertion, a null dereference, or a lock that the thread waits for
  while holding it. Integers of fixed width are words where their wrap-around can be seen: listener
  keys, fiber numbers and counts, the times of events, and the scheduler's counters; sizes bounded
  by memory are natural numbers. Callbacks that yield are the codatatype \<open>coro\<close>: a tree of effects,
  tests and yields in which each stretch between yields ends and the number of yields need not.

  \<^bold>\<open>Fibers on two levels.\<close> In \<open>Fiber\<close> switching to a fiber runs its callback up to the next yield and
  comes back; this is enough for threads whose own function does the switching, as the workers of the
  scheduler do. In \<open>Switching\<close> a thread is a machine of stacks and saved contexts, programs (the
  codatatype \<open>code\<close>) may create, reset and switch to fibers anywhere, and a context is good for one
  resumption of the stack it was saved on; resuming another is the result \<open>Undefined\<close>.
  \<open>SwitchingProps\<close> proves that on the main fiber the second level does what the first says, and
  \<open>SchedulerCode\<close> that the steps of \<open>Workers\<close> are runs of the code of \<open>Scheduler::run\<close> on the second.

  \<^bold>\<open>Interleaving.\<close> Logging and configuration are modelled twice. In \<open>LogSystem\<close>, \<open>LogManager\<close>,
  \<open>ConfigVar\<close> and \<open>Config\<close> a call is one operation; \<open>logger_log\<close> carries the spin locks the thread holds. In
  \<open>LogThreads\<close>, \<open>VarThreads\<close> and \<open>RegThreads\<close> a thread is the stack of statements it has left to do, a step of the
  system is one statement of one thread, taking a lock waits until it is free, and whatever the
  sources read or write outside the locks is a statement of its own; the steps of any number of
  threads interleave. \<open>Locks\<close> treats the order of the lock operations of one thread, for a variable
  and for the registry. The machines are separate: a statement that registers a variable makes its
  log messages in one step. The
  start of a thread is a step relation over the statements of the constructor and of
  \<open>Thread::run\<close>. A worker of the scheduler takes its steps where the code locks and switches: the
  search of the queue, the dispatch with the stretch of the fiber it switches to, and the
  bookkeeping after it. The steps of workers, and calls of \<open>schedule\<close> and \<open>stop\<close> by other threads,
  interleave in any order in \<open>sys_step\<close>. Two stretches on different threads do not overlap in the model.

  \<^bold>\<open>What the lemmas show.\<close> Logging: no call of \<open>Log\<close> blocks or fails in a well-formed state, and an event
  reaches exactly the appenders of its logger, or of the root logger, that its level passes;
  compiling a pattern recovers the pieces it was written from. Configuration: one variable per
  name, what each listener hears, conversions that undo each other, and which variables a document
  changes to what. Together: a document loaded at start-up or later leaves the loggers as it defines them, whatever the
  registry and other listeners log on the way, and a defined logger prints as its definition says, however
  much is logged in between. Several threads: since
  the locks are taken in the order manager, logger, root logger, appender, threads that log never
  wait for each other for ever and every call returns, whatever the scheduler does; each event that
  was sent is written once by each appender of its route, in whole lines; the listener of \<open>logs\<close> run by one of them has the effect it has alone; threads that use
  configuration variables return if the listeners of a variable change only variables of higher
  rank, and need not otherwise; the registry is linearisable. Threads and
  locks: the constructor returns only when the thread is set up, its handle is released once, guards
  leave locks as they found them. Fibers: a stretch changes one fiber only; calling a fiber until it
  ends does what its callback does without yields. Scheduler: which task a worker takes, what a turn
  of its loop does, that the counters count the workers, so that a scheduler that may stop has no work
  left, that a worker fails only by an assertion, that a single worker runs the jobs in its queue in
  round robin and then leaves its loop, and that it does not leave before; \<open>start\<close> makes the threads
  that \<open>stop\<close> joins. Formatters: the size of what is compiled is bounded by the pattern. Assertions: one that fails ends the
  program after one report to the root logger. A number of properties state defects of the code as it is: the doubled percent sign in
  patterns, \<open>GetListener\<close> of an unknown key, the result of \<open>FromString\<close>, the name of the stack-size
  variable, \<open>YieldToHold\<close>, a fiber scheduled twice, and concurrent calls of \<open>SetValue\<close>.

  \<^bold>\<open>Bounds.\<close> No fuel is used in a definition of the code: the pattern loops recurse with the rest of the
  pattern as measure, nested logging with the loggers whose lock is free. Runs
  of threads end by a multiset order on the levels of their statements (\<open>RankedLocks\<close>), not by a bound
  on their number. \<open>calls\<close> counts the calls of
  a fiber and \<open>turns\<close> those of the scheduler's loop, and their theorems provide numbers that are
  enough; \<open>mrun\<close> only serves to run an example. Statements about distinct keys or numbers
  and about counters assume fewer than $2^{64}$ of what is counted.

  \<^bold>\<open>Parameters.\<close> yaml-cpp is a record of functions (\<open>yaml_lib\<close>), with the laws used named where they
  are used; \<open>strftime\<close>, \<open>vasprintf\<close>, the opening of files, the hash order of \<open>std::unordered_map\<close>,
  \<open>boost::lexical_cast\<close>, \<open>malloc\<close>, the result codes and handles of the thread library, thread ids,
  the demangler and the stack with its symbols are arguments, as are members that the code leaves uninitialised (\<open>mLastTime\<close> of
  a file appender, \<open>use_caller\<close> of a fiber).

  \<^bold>\<open>Not modelled.\<close> The log messages of the scheduler and of fibers; the contexts of several threads on
  the machine of \<open>Switching\<close>, which is that of one thread;
  several threads in \<open>GetListener\<close>, which can write under a read lock and
  then has no defined behaviour; the hook
  module, which the repository does not have; the futex and spinning inside the lock functions of the
  thread library; the tests and build files.
\<close>

end
